(* ===== verification/Prelude.thy ===== *)
theory Prelude
  imports Main "HOL-Library.Word" "HOL-Library.Multiset" "HOL-Library.Sublist"
begin

text \<open>
  Shared vocabulary of the development: the machine integers of the source as words, the
  byte strings, the result of a task that may panic, and the generic lemmas and hint
  collections every component uses.
\<close>

unbundle bit_operations_syntax

section \<open>Types\<close>

type_synonym u8 = "8 word"
type_synonym u16 = "16 word"
type_synonym u32 = "32 word"
type_synonym u64 = "64 word"

text \<open>A Rust \<open>Vec<u8>\<close> or \<open>&[u8]\<close>.\<close>

type_synonym bytes = "u8 list"

text \<open>
  A Rust \<open>String\<close> or \<open>&str\<close> is its UTF-8 bytes; the HOL type \<^typ>\<open>string\<close> is the list of
  these bytes. A \<open>HashMap<String, String>\<close> is a partial function.
\<close>

type_synonym str_map = "string \<rightharpoonup> string"

text \<open>
  What a Rust computation that is awaited or joined delivers: a value, or a panic that
  unwinds out of it.
\<close>

datatype 'a outcome = Returns 'a | Panics

definition outcome_map :: "('a \<Rightarrow> 'b) \<Rightarrow> 'a outcome \<Rightarrow> 'b outcome" where
  "outcome_map f r = (case r of Returns a \<Rightarrow> Returns (f a) | Panics \<Rightarrow> Panics)"

section \<open>Hint collections\<close>

named_theorems rust_str
  \<comment> \<open>rewriting of the string and number functions of the standard library\<close>
named_theorems match_simps
  \<comment> \<open>fields of the matches that the constructors build\<close>

section \<open>Lists\<close>

text \<open>Keep the first occurrence of every element, as a \<open>HashSet\<close> filter over an iterator does.\<close>

fun keep_first :: "'k set \<Rightarrow> ('a \<Rightarrow> 'k) \<Rightarrow> 'a list \<Rightarrow> 'a list" where
  "keep_first seen key [] = []"
| "keep_first seen key (x # xs) =
     (if key x \<in> seen then keep_first seen key xs
      else x # keep_first (insert (key x) seen) key xs)"

lemma keep_first_set: "set (keep_first seen key xs) \<subseteq> set xs"
  by (induction seen key xs rule: keep_first.induct) auto

lemma keep_first_keys: "key ` set (keep_first seen key xs) = key ` set xs - seen"
  by (induction seen key xs rule: keep_first.induct) auto

lemma keep_first_distinct: "distinct (map key (keep_first seen key xs))"
  by (induction seen key xs rule: keep_first.induct) (auto simp: keep_first_keys)

lemma keep_first_id:
  "distinct (map key xs) \<Longrightarrow> key ` set xs \<inter> seen = {} \<Longrightarrow> keep_first seen key xs = xs"
  by (induction seen key xs rule: keep_first.induct) auto

lemma keep_first_subseq: "subseq (keep_first seen key xs) xs"
  by (induction seen key xs rule: keep_first.induct) auto

lemma subseq_distinct: "subseq xs ys \<Longrightarrow> distinct ys \<Longrightarrow> distinct xs"
  by (induction rule: list_emb.induct) (auto dest: list_emb_set)

section \<open>Word bounds\<close>

lemma unat_u8 [simp]: "unat (b :: u8) < 256"
proof -
  have "unat b < 2 ^ LENGTH(8)"
    by (rule unsigned_less)
  then show ?thesis by simp
qed

lemma unat_u16 [simp]: "unat (w :: u16) < 65536"
proof -
  have "unat w < 2 ^ LENGTH(16)"
    by (rule unsigned_less)
  then show ?thesis by simp
qed

lemma unat_u32 [simp]: "unat (w :: u32) < 4294967296"
proof -
  have "unat w < 2 ^ LENGTH(32)"
    by (rule unsigned_less)
  then show ?thesis by simp
qed

section \<open>Arbitrary orders\<close>

text \<open>
  The order in which tasks of a \<open>JoinSet\<close> complete, and in which a \<open>HashSet\<close> or a \<open>HashMap\<close> is
  iterated, is not determined.  A list of choices stands for it: each choice picks one of the
  remaining elements.  Every permutation is the result of some choices.
\<close>

fun pick_order :: "nat list \<Rightarrow> 'a list \<Rightarrow> 'a list" where
  "pick_order cs [] = []"
| "pick_order [] (x # xs) = x # xs"
| "pick_order (c # cs) (x # xs) =
     (let i = c mod Suc (length xs)
      in (x # xs) ! i # pick_order cs (take i (x # xs) @ drop (Suc i) (x # xs)))"

lemma mset_remove_nth:
  assumes "i < length xs"
  shows "add_mset (xs ! i) (mset (take i xs @ drop (Suc i) xs)) = mset xs"
proof -
  have "mset xs = mset (take i xs @ xs ! i # drop (Suc i) xs)"
    using id_take_nth_drop [OF assms] by simp
  then show ?thesis by simp
qed

lemma mset_pick_order [simp]: "mset (pick_order cs xs) = mset xs"
proof (induction cs xs rule: pick_order.induct)
  case (3 c cs x xs)
  have "c mod Suc (length xs) < length (x # xs)" by simp
  from mset_remove_nth [OF this] 3 show ?case
    by (simp only: pick_order.simps Let_def mset.simps)
qed simp_all

lemma set_pick_order [simp]: "set (pick_order cs xs) = set xs"
  using mset_pick_order by (rule mset_eq_setD)

lemma length_pick_order [simp]: "length (pick_order cs xs) = length xs"
  using mset_pick_order by (rule mset_eq_length)

lemma distinct_pick_order [simp]: "distinct (pick_order cs xs) = distinct xs"
  using mset_pick_order by (rule mset_eq_imp_distinct_iff)

lemma pick_order_complete: "mset ys = mset xs \<Longrightarrow> \<exists>cs. pick_order cs xs = ys"
proof (induction ys arbitrary: xs)
  case Nil
  then show ?case by auto
next
  case (Cons y ys)
  then have "y \<in> set xs" by (metis list.set_intros(1) mset_eq_setD)
  then obtain i where i: "i < length xs" "xs ! i = y"
    by (auto simp: in_set_conv_nth)
  let ?rest = "take i xs @ drop (Suc i) xs"
  have "mset ys = mset ?rest"
    using mset_remove_nth [OF i(1)] Cons.prems i(2) by (metis add_mset_add_single add_right_cancel mset.simps(2))
  then obtain cs where cs: "pick_order cs ?rest = ys"
    using Cons.IH by blast
  obtain x xs' where xs: "xs = x # xs'"
    using i(1) by (cases xs) auto
  have "pick_order (i # cs) xs = xs ! i # pick_order cs ?rest"
    using i(1) by (simp add: xs Let_def)
  then show ?case using cs i(2) by blast
qed

section \<open>Slices\<close>

text \<open>\<open>&xs[lo..hi]\<close> panics when the range does not lie inside the slice.\<close>

definition slice :: "nat \<Rightarrow> nat \<Rightarrow> 'a list \<Rightarrow> 'a list outcome" where
  "slice lo hi xs =
     (if lo \<le> hi \<and> hi \<le> length xs then Returns (take (hi - lo) (drop lo xs)) else Panics)"

text \<open>\<open>xs[lo..lo + bs.len()].copy_from_slice(bs)\<close> at constant positions inside the array.\<close>

definition put :: "nat \<Rightarrow> 'a list \<Rightarrow> 'a list \<Rightarrow> 'a list" where
  "put lo bs xs = take lo xs @ bs @ drop (lo + length bs) xs"

lemma length_put [simp]: "lo + length bs \<le> length xs \<Longrightarrow> length (put lo bs xs) = length xs"
  by (simp add: put_def)

text \<open>Evaluation of writes at numeral positions of explicit lists.\<close>

lemma put_eval:
  "put 0 bs xs = bs @ drop (length bs) xs"
  "put (numeral v) bs (x # xs) = x # put (pred_numeral v) bs xs"
  "put (Suc k) bs (x # xs) = x # put k bs xs"
  by (simp_all add: put_def numeral_eq_Suc)

lemma update_eval:
  "(x # xs)[numeral v := y] = x # xs[pred_numeral v := y]"
  by (simp add: numeral_eq_Suc)

lemma take_2_drop: "i + 2 \<le> length xs \<Longrightarrow> take 2 (drop i xs) = [xs ! i, xs ! Suc i]"
  by (simp add: numeral_eq_Suc take_Suc_conv_app_nth)

lemma take_4_drop:
  assumes "i + 4 \<le> length xs"
  shows "take 4 (drop i xs) = [xs ! i, xs ! (i + 1), xs ! (i + 2), xs ! (i + 3)]"
proof -
  have "take 4 (drop i xs) = take 2 (drop i xs) @ take 2 (drop (i + 2) xs)"
    using take_add [of 2 2 "drop i xs"] by (simp add: add.commute)
  then show ?thesis
    using assms by (simp add: take_2_drop) (simp add: numeral_3_eq_3)
qed

lemma list_all2_in_right: "list_all2 P xs ys \<Longrightarrow> y \<in> set ys \<Longrightarrow> \<exists>x \<in> set xs. P x y"
  by (induction rule: list_all2_induct) auto

lemma list_all2_in_left: "list_all2 P xs ys \<Longrightarrow> x \<in> set xs \<Longrightarrow> \<exists>y \<in> set ys. P x y"
  by (induction rule: list_all2_induct) auto

end
