(* ===== verification/Rust_Std.thy ===== *)
theory Rust_Std
  imports Prelude
begin

text \<open>
  The functions of Rust's standard library that the sources call on strings, slices and
  integers: \<open>str::split\<close>, \<open>split_once\<close>, \<open>rsplit_once\<close>, \<open>splitn\<close>, \<open>trim_start_matches\<close>,
  \<open>contains\<close>, \<open>lines\<close>, \<open>split_ascii_whitespace\<close>, \<open>slice::windows\<close>, \<open>ends_with\<close>,
  \<open>from_str_radix\<close> and \<open>parse\<close> on unsigned integers, and the \<open>Display\<close>, \<open>{:02x}\<close> and
  \<open>{:#06x}\<close> formats.  The main facts are the round trips between printing and parsing.
\<close>

section \<open>Digits\<close>

text \<open>\<open>char::to_digit(radix)\<close>.\<close>

definition to_digit :: "nat \<Rightarrow> char \<Rightarrow> nat option" where
  "to_digit radix c =
     (let k = of_char c :: nat;
          d = (if 48 \<le> k \<and> k \<le> 57 then k - 48
               else if 97 \<le> k \<and> k \<le> 122 then k - 87
               else if 65 \<le> k \<and> k \<le> 90 then k - 55
               else 255)
      in if d < radix then Some d else None)"

text \<open>The lower-case digit that the formatting traits print.\<close>

definition digit_char :: "nat \<Rightarrow> char" where
  "digit_char d = char_of (if d < 10 then 48 + d else 87 + d)"

lemma to_digit_digit_char:
  assumes "d < radix" "d < 16"
  shows "to_digit radix (digit_char d) = Some d"
  using assms by (auto simp: to_digit_def digit_char_def Let_def)

lemma digit_char_code:
  "d < 16 \<Longrightarrow> of_char (digit_char d) = (if d < 10 then 48 + d else 87 + d)"
  by (auto simp: digit_char_def)

lemma digit_char_neq:
  assumes "d < 16" "(of_char c :: nat) < 48 \<or> 57 < (of_char c :: nat) \<and> (of_char c :: nat) < 97
    \<or> 102 < (of_char c :: nat)"
  shows "digit_char d \<noteq> c"
  using assms by (auto simp: digit_char_code split: if_splits dest!: arg_cong [of _ _ "of_char :: char \<Rightarrow> nat"])

section \<open>Parsing unsigned integers\<close>

fun parse_digits :: "nat \<Rightarrow> nat \<Rightarrow> string \<Rightarrow> nat option" where
  "parse_digits radix acc [] = Some acc"
| "parse_digits radix acc (c # cs) =
     (case to_digit radix c of
        None \<Rightarrow> None
      | Some d \<Rightarrow> parse_digits radix (acc * radix + d) cs)"

text \<open>
  \<open>uN::from_str_radix\<close>: an empty string and a lone sign are errors, one leading \<open>+\<close> is
  skipped, and a value that does not fit in the width is an error.  The decimal
  \<open>str::parse\<close> is the same with radix ten.
\<close>

definition from_str_radix :: "nat \<Rightarrow> nat \<Rightarrow> string \<Rightarrow> nat option" where
  "from_str_radix w radix s =
     (let digits = (case s of c # cs \<Rightarrow> (if c = CHR ''+'' then cs else s) | [] \<Rightarrow> [])
      in if digits = [] then None
         else (case parse_digits radix 0 digits of
                 None \<Rightarrow> None
               | Some n \<Rightarrow> (if n < 2 ^ w then Some n else None)))"

definition u8_from_str :: "nat \<Rightarrow> string \<Rightarrow> u8 option" where
  "u8_from_str radix s = map_option word_of_nat (from_str_radix 8 radix s)"

definition u16_from_str :: "nat \<Rightarrow> string \<Rightarrow> u16 option" where
  "u16_from_str radix s = map_option word_of_nat (from_str_radix 16 radix s)"

definition u32_from_str :: "nat \<Rightarrow> string \<Rightarrow> u32 option" where
  "u32_from_str radix s = map_option word_of_nat (from_str_radix 32 radix s)"

lemma parse_digits_append:
  "parse_digits radix acc (xs @ ys) =
     (case parse_digits radix acc xs of None \<Rightarrow> None | Some a \<Rightarrow> parse_digits radix a ys)"
  by (induction radix acc xs rule: parse_digits.induct) (auto split: option.splits)

section \<open>Printing unsigned integers\<close>

function show_radix :: "nat \<Rightarrow> nat \<Rightarrow> string" where
  "show_radix radix n =
     (if radix < 2 \<or> n < radix then [digit_char n]
      else show_radix radix (n div radix) @ [digit_char (n mod radix)])"
  by pat_completeness auto
termination
  by (relation "measure snd") (auto intro: div_less_dividend)

declare show_radix.simps [simp del]

text \<open>The \<open>Display\<close> of an unsigned integer.\<close>

definition show_dec :: "nat \<Rightarrow> string" where
  "show_dec n = show_radix 10 n"

text \<open>\<open>{:x}\<close> padded with zeros to \<open>k\<close> digits.\<close>

primrec hex_pad :: "nat \<Rightarrow> nat \<Rightarrow> string" where
  "hex_pad 0 n = []"
| "hex_pad (Suc k) n = hex_pad k (n div 16) @ [digit_char (n mod 16)]"

lemma show_radix_nonempty [simp]: "show_radix radix n \<noteq> []"
  by (subst show_radix.simps) simp

lemma show_radix_digits:
  assumes "2 \<le> radix"
  shows "set (show_radix radix n) \<subseteq> digit_char ` {..<radix}"
  using assms
proof (induction radix n rule: show_radix.induct)
  case (1 radix n)
  have "n mod radix < radix"
    using 1 by simp
  with 1 show ?case
    by (auto simp: show_radix.simps [of radix n])
qed

lemma parse_show_radix:
  assumes "2 \<le> radix" "radix \<le> 16"
  shows "parse_digits radix 0 (show_radix radix n) = Some n"
  using assms
proof (induction radix n rule: show_radix.induct)
  case (1 radix n)
  show ?case
  proof (cases "n < radix")
    case True
    with 1 show ?thesis
      by (simp add: show_radix.simps [of radix n] to_digit_digit_char)
  next
    case False
    have m: "n mod radix < radix" "n mod radix < 16"
      using 1 by (auto intro: order.strict_trans2 [OF mod_less_divisor])
    show ?thesis
      using False 1 m
      by (simp add: show_radix.simps [of radix n] parse_digits_append to_digit_digit_char)
  qed
qed

lemma show_dec_neq:
  assumes "c \<in> set (show_dec n)"
  shows "48 \<le> (of_char c :: nat) \<and> (of_char c :: nat) \<le> 57"
proof -
  obtain d where "d < 10" "c = digit_char d"
    using assms show_radix_digits [of 10 n] by (auto simp: show_dec_def)
  then show ?thesis by (simp add: digit_char_code)
qed

lemma show_dec_nonempty [simp]: "show_dec n \<noteq> []"
  by (simp add: show_dec_def)

lemma show_dec_no_char:
  assumes "(of_char c :: nat) < 48 \<or> 57 < (of_char c :: nat)"
  shows "c \<notin> set (show_dec n)"
  using assms show_dec_neq [of c n] by auto

lemma from_str_radix_digits:
  assumes "cs \<noteq> []" "hd cs \<noteq> CHR ''+''" "parse_digits radix 0 cs = Some n" "n < 2 ^ w"
  shows "from_str_radix w radix cs = Some n"
  using assms by (cases cs) (auto simp: from_str_radix_def Let_def)

lemma from_str_radix_show_dec [rust_str]:
  assumes "n < 2 ^ w"
  shows "from_str_radix w 10 (show_dec n) = Some n"
proof (rule from_str_radix_digits)
  show "hd (show_dec n) \<noteq> CHR ''+''"
    using show_dec_no_char [of "CHR ''+''" n] hd_in_set [OF show_dec_nonempty [of n]] by force
qed (use assms in \<open>simp_all add: show_dec_def parse_show_radix\<close>)

lemma show_dec_inj: "show_dec m = show_dec n \<Longrightarrow> m = n"
proof -
  assume "show_dec m = show_dec n"
  then have "parse_digits 10 0 (show_dec m) = parse_digits 10 0 (show_dec n)"
    by (rule arg_cong)
  then show "m = n"
    unfolding show_dec_def by (simp add: parse_show_radix)
qed

section \<open>Hexadecimal formats\<close>

text \<open>\<open>{:02x}\<close> of a \<open>u8\<close> and \<open>{:#06x}\<close> of a \<open>u16\<close>: the width six counts the prefix.\<close>

definition fmt_02x :: "u8 \<Rightarrow> string" where
  "fmt_02x b = hex_pad 2 (unat b)"

definition fmt_06x :: "u16 \<Rightarrow> string" where
  "fmt_06x w = ''0x'' @ hex_pad 4 (unat w)"

lemma length_hex_pad [simp]: "length (hex_pad k n) = k"
  by (induction k arbitrary: n) auto

lemma hex_pad_digits: "set (hex_pad k n) \<subseteq> digit_char ` {..<16}"
  by (induction k arbitrary: n) auto

lemma hex_pad_no_char:
  assumes "(of_char c :: nat) < 48 \<or> 57 < (of_char c :: nat) \<and> (of_char c :: nat) < 97
    \<or> 102 < (of_char c :: nat)"
  shows "c \<notin> set (hex_pad k n)"
proof
  assume "c \<in> set (hex_pad k n)"
  then obtain d where "d < 16" "c = digit_char d"
    using hex_pad_digits [of k n] by auto
  then show False
    using digit_char_neq [OF \<open>d < 16\<close> assms] by simp
qed

lemma show_hex_no_char:
  assumes "(of_char c :: nat) < 48 \<or> 57 < (of_char c :: nat) \<and> (of_char c :: nat) < 97
    \<or> 102 < (of_char c :: nat)"
  shows "c \<notin> set (show_radix 16 n)"
proof
  assume "c \<in> set (show_radix 16 n)"
  then have "c \<in> digit_char ` {..<16}"
    using show_radix_digits [of 16 n] by auto
  then obtain d where "d < 16" "c = digit_char d"
    by auto
  then show False
    using digit_char_neq [OF \<open>d < 16\<close> assms] by simp
qed

lemma parse_hex_pad: "parse_digits 16 0 (hex_pad k n) = Some (n mod 16 ^ k)"
proof (induction k arbitrary: n)
  case 0
  then show ?case by simp
next
  case (Suc k)
  have "n mod 16 < 16" by simp
  then have d: "to_digit 16 (digit_char (n mod 16)) = Some (n mod 16)"
    by (simp add: to_digit_digit_char)
  have "n mod 16 ^ Suc k = 16 * (n div 16 mod 16 ^ k) + n mod 16"
    using mod_mult2_eq [of n 16 "16 ^ k"] by simp
  then show ?case
    by (simp add: parse_digits_append Suc d mult.commute)
qed

lemma hd_hex_pad:
  assumes "0 < k" "(of_char c :: nat) < 48"
  shows "hd (hex_pad k n) \<noteq> c"
proof -
  have "hex_pad k n \<noteq> []"
    using assms(1) by (metis length_hex_pad list.size(3) less_irrefl)
  then show ?thesis
    using hex_pad_no_char [of c k n] assms(2) hd_in_set by metis
qed

lemma u8_fmt_02x [rust_str]: "u8_from_str 16 (fmt_02x b) = Some b"
proof -
  have "unat b < 256"
    by simp
  moreover have "hd (hex_pad 2 (unat b)) \<noteq> CHR ''+''"
    by (rule hd_hex_pad) simp_all
  moreover have "hex_pad 2 (unat b) \<noteq> []"
    using length_hex_pad [of 2 "unat b"] by (metis list.size(3) zero_neq_numeral)
  ultimately have "from_str_radix 8 16 (hex_pad 2 (unat b)) = Some (unat b)"
    by (intro from_str_radix_digits) (simp_all add: parse_hex_pad)
  then show ?thesis
    by (simp add: u8_from_str_def fmt_02x_def)
qed

lemma u16_hex_pad [rust_str]: "u16_from_str 16 (hex_pad 4 (unat w)) = Some w"
proof -
  have "unat w < 65536"
    by simp
  moreover have "hd (hex_pad 4 (unat w)) \<noteq> CHR ''+''"
    by (rule hd_hex_pad) simp_all
  moreover have "hex_pad 4 (unat w) \<noteq> []"
    using length_hex_pad [of 4 "unat w"] by (metis list.size(3) zero_neq_numeral)
  ultimately have "from_str_radix 16 16 (hex_pad 4 (unat w)) = Some (unat w)"
    by (intro from_str_radix_digits) (simp_all add: parse_hex_pad)
  then show ?thesis
    by (simp add: u16_from_str_def)
qed

lemma u8_show_dec [rust_str]: "u8_from_str 10 (show_dec (unat b)) = Some b"
  by (simp add: u8_from_str_def from_str_radix_show_dec)

lemma u16_show_dec [rust_str]: "u16_from_str 10 (show_dec (unat w)) = Some w"
  by (simp add: u16_from_str_def from_str_radix_show_dec)

lemma u32_show_dec [rust_str]: "u32_from_str 10 (show_dec (unat w)) = Some w"
  by (simp add: u32_from_str_def from_str_radix_show_dec)

section \<open>Splitting strings\<close>

text \<open>\<open>str::split_once(c)\<close>, at the first occurrence, and \<open>str::rsplit_once(c)\<close>, at the last.\<close>

fun split_once :: "char \<Rightarrow> string \<Rightarrow> (string \<times> string) option" where
  "split_once c [] = None"
| "split_once c (x # xs) =
     (if x = c then Some ([], xs) else map_option (\<lambda>(a, b). (x # a, b)) (split_once c xs))"

definition rsplit_once :: "char \<Rightarrow> string \<Rightarrow> (string \<times> string) option" where
  "rsplit_once c s = map_option (\<lambda>(a, b). (rev b, rev a)) (split_once c (rev s))"

text \<open>\<open>str::split(c)\<close>: the pieces between the separators, never an empty list.\<close>

fun split_on :: "char \<Rightarrow> string \<Rightarrow> string list" where
  "split_on c [] = [[]]"
| "split_on c (x # xs) =
     (if x = c then [] # split_on c xs
      else (case split_on c xs of [] \<Rightarrow> [[x]] | p # ps \<Rightarrow> (x # p) # ps))"

text \<open>\<open>str::splitn(n, c)\<close>: at most \<open>n\<close> pieces, the last one unsplit.\<close>

fun splitn :: "nat \<Rightarrow> char \<Rightarrow> string \<Rightarrow> string list" where
  "splitn 0 c s = []"
| "splitn (Suc 0) c s = [s]"
| "splitn (Suc (Suc n)) c s =
     (case split_once c s of None \<Rightarrow> [s] | Some (a, b) \<Rightarrow> a # splitn (Suc n) c b)"

text \<open>\<open>trim_start_matches("0x")\<close>: drop the prefix as often as it occurs.\<close>

fun trim_start_0x :: "string \<Rightarrow> string" where
  "trim_start_0x (a # b # s) =
     (if a = CHR ''0'' \<and> b = CHR ''x'' then trim_start_0x s else a # b # s)"
| "trim_start_0x s = s"

text \<open>\<open>str::strip_prefix\<close>.\<close>

fun strip_prefix :: "string \<Rightarrow> string \<Rightarrow> string option" where
  "strip_prefix [] s = Some s"
| "strip_prefix (p # ps) [] = None"
| "strip_prefix (p # ps) (x # xs) = (if p = x then strip_prefix ps xs else None)"

text \<open>\<open>str::lines\<close>: split at newlines, no piece after a final newline, one carriage return cut off.\<close>

definition cut_cr :: "string \<Rightarrow> string" where
  "cut_cr s = (if s \<noteq> [] \<and> last s = CHR 0x0D then butlast s else s)"

definition lines :: "string \<Rightarrow> string list" where
  "lines s =
     (let ps = split_on (CHR 0x0A) s
      in map cut_cr (butlast ps) @ (if last ps = [] then [] else [cut_cr (last ps)]))"

text \<open>\<open>str::split_ascii_whitespace\<close>: the maximal runs of other characters.\<close>

definition ascii_ws :: "char \<Rightarrow> bool" where
  "ascii_ws c = (c \<in> {CHR '' '', CHR 0x09, CHR 0x0A, CHR 0x0C, CHR 0x0D})"

fun ws_words :: "string \<Rightarrow> string \<Rightarrow> string list" where
  "ws_words acc [] = (if acc = [] then [] else [rev acc])"
| "ws_words acc (c # cs) =
     (if ascii_ws c then (if acc = [] then ws_words [] cs else rev acc # ws_words [] cs)
      else ws_words (c # acc) cs)"

definition split_ascii_whitespace :: "string \<Rightarrow> string list" where
  "split_ascii_whitespace s = ws_words [] s"

section \<open>Searching\<close>

text \<open>\<open>str::contains(pattern)\<close>.\<close>

fun str_contains :: "'a list \<Rightarrow> 'a list \<Rightarrow> bool" where
  "str_contains pat [] = (pat = [])"
| "str_contains pat (x # xs) = (take (length pat) (x # xs) = pat \<or> str_contains pat xs)"

text \<open>\<open>slice::ends_with\<close>.\<close>

definition ends_with :: "'a list \<Rightarrow> 'a list \<Rightarrow> bool" where
  "ends_with xs t = (length t \<le> length xs \<and> drop (length xs - length t) xs = t)"

text \<open>\<open>slice::windows(n)\<close> panics when \<open>n\<close> is zero.\<close>

definition windows :: "nat \<Rightarrow> 'a list \<Rightarrow> 'a list list outcome" where
  "windows n xs =
     (if n = 0 then Panics
      else Returns (map (\<lambda>i. take n (drop i xs)) [0..<length xs + 1 - n]))"

lemma str_contains_iff: "str_contains pat xs \<longleftrightarrow> sublist pat xs"
proof (induction pat xs rule: str_contains.induct)
  case (1 pat)
  then show ?case by simp
next
  case (2 pat x xs)
  have "take (length pat) (x # xs) = pat \<longleftrightarrow> prefix pat (x # xs)"
    by (metis append_eq_conv_conj append_take_drop_id prefix_def)
  with 2 show ?case
    by (simp add: sublist_Cons_right)
qed

lemma ends_with_iff: "ends_with xs t \<longleftrightarrow> suffix t xs"
  unfolding ends_with_def suffix_def
  by (metis append_take_drop_id append_eq_conv_conj diff_diff_cancel length_append length_drop
      le_add2 append_eq_append_conv)

section \<open>Facts about splitting and searching\<close>

lemma split_once_none [rust_str]: "c \<notin> set s \<Longrightarrow> split_once c s = None"
  by (induction c s rule: split_once.induct) auto

lemma split_once_sep [rust_str]: "c \<notin> set a \<Longrightarrow> split_once c (a @ c # b) = Some (a, b)"
  by (induction a) auto

lemma split_once_SomeD: "split_once c s = Some (a, b) \<Longrightarrow> s = a @ c # b \<and> c \<notin> set a"
  by (induction c s arbitrary: a b rule: split_once.induct) (auto split: if_splits)

lemma split_once_eq_None: "split_once c s = None \<longleftrightarrow> c \<notin> set s"
  by (induction c s rule: split_once.induct) auto

lemma rsplit_once_sep [rust_str]: "c \<notin> set b \<Longrightarrow> rsplit_once c (a @ c # b) = Some (a, b)"
  by (simp add: rsplit_once_def split_once_sep)

lemma split_on_none [rust_str]: "c \<notin> set s \<Longrightarrow> split_on c s = [s]"
  by (induction c s rule: split_on.induct) auto

lemma split_on_nonempty [simp]: "split_on c s \<noteq> []"
  by (induction c s rule: split_on.induct) (auto split: list.splits)

lemma split_on_sep [rust_str]: "c \<notin> set a \<Longrightarrow> split_on c (a @ c # b) = a # split_on c b"
  by (induction a) (auto split: list.splits)

lemma trim_start_0x_id [rust_str]: "CHR ''x'' \<notin> set s \<Longrightarrow> trim_start_0x s = s"
  by (cases s rule: trim_start_0x.cases) auto

lemma strip_prefix_iff: "strip_prefix p s = Some r \<longleftrightarrow> s = p @ r"
  by (induction p s rule: strip_prefix.induct) auto

lemma windows_Returns:
  assumes "windows n xs = Returns ws"
  shows "w \<in> set ws \<longleftrightarrow> length w = n \<and> sublist w xs"
proof -
  have ws: "ws = map (\<lambda>i. take n (drop i xs)) [0..<length xs + 1 - n]" and n: "0 < n"
    using assms by (auto simp: windows_def split: if_splits)
  show ?thesis
  proof
    assume "w \<in> set ws"
    then obtain i where i: "w = take n (drop i xs)" "i < length xs + 1 - n"
      by (auto simp: ws)
    then have "w @ drop n (drop i xs) = drop i xs"
      by (simp only: append_take_drop_id)
    then have "xs = take i xs @ w @ drop n (drop i xs)"
      by (simp only: append_take_drop_id)
    moreover have "length w = n"
      using i n by auto
    ultimately show "length w = n \<and> sublist w xs"
      unfolding sublist_def by blast
  next
    assume "length w = n \<and> sublist w xs"
    then obtain ps ss where "xs = ps @ w @ ss" "length w = n"
      by (auto simp: sublist_def)
    then have "take n (drop (length ps) xs) = w" "length ps < length xs + 1 - n"
      by auto
    then show "w \<in> set ws"
      by (force simp: ws)
  qed
qed

text \<open>
  The filter test of both transports, \<open>response.windows(f.len()).any(|w| w == f)\<close>: it panics on
  an empty filter and otherwise decides whether the filter occurs in the response.
\<close>

definition window_match :: "'a list \<Rightarrow> 'a list \<Rightarrow> bool outcome" where
  "window_match f resp = outcome_map (list_ex (\<lambda>w. w = f)) (windows (length f) resp)"

lemma window_match_nil: "window_match [] resp = Panics"
  by (simp add: window_match_def windows_def outcome_map_def)

lemma window_match_nonempty:
  assumes "f \<noteq> []"
  shows "window_match f resp = Returns (str_contains f resp)"
proof -
  obtain ws where ws: "windows (length f) resp = Returns ws"
    using assms by (simp add: windows_def)
  have "f \<in> set ws \<longleftrightarrow> sublist f resp"
    using windows_Returns [OF ws] by simp
  then show ?thesis
    by (simp add: window_match_def outcome_map_def ws str_contains_iff list_ex_iff)
qed

section \<open>Words of a line and lines of a text\<close>

definition no_ws :: "string \<Rightarrow> bool" where
  "no_ws s = (\<forall>c \<in> set s. \<not> ascii_ws c)"

definition all_ws :: "string \<Rightarrow> bool" where
  "all_ws s = (\<forall>c \<in> set s. ascii_ws c)"

lemma ws_words_word: "no_ws w \<Longrightarrow> ws_words acc (w @ rest) = ws_words (rev w @ acc) rest"
  by (induction w arbitrary: acc) (auto simp: no_ws_def)

lemma ws_words_skip: "all_ws p \<Longrightarrow> ws_words [] (p @ rest) = ws_words [] rest"
  by (induction p) (auto simp: all_ws_def)

lemma split_ascii_whitespace_word:
  assumes "no_ws w" "w \<noteq> []" "all_ws p" "p \<noteq> []"
  shows "split_ascii_whitespace (w @ p @ rest) = w # split_ascii_whitespace rest"
proof -
  obtain c q where p: "p = c # q" using assms(4) by (cases p) auto
  have "ws_words [] (w @ p @ rest) = ws_words (rev w) (p @ rest)"
    using ws_words_word [OF assms(1), of "[]" "p @ rest"] by simp
  also have "\<dots> = w # ws_words [] (q @ rest)"
    using assms(2,3) by (simp add: p all_ws_def)
  also have "ws_words [] (q @ rest) = ws_words [] rest"
    using assms(3) by (intro ws_words_skip) (simp add: p all_ws_def)
  finally show ?thesis by (simp add: split_ascii_whitespace_def)
qed

lemma split_ascii_whitespace_end:
  assumes "no_ws w" "w \<noteq> []" "rest = [] \<or> ascii_ws (hd rest)"
  shows "\<exists>ws. split_ascii_whitespace (w @ rest) = w # ws"
  using assms ws_words_word [OF assms(1), of "[]" rest]
  by (cases rest) (auto simp: split_ascii_whitespace_def)

lemma lines_concat:
  assumes "\<forall>l \<in> set ls. CHR 0x0A \<notin> set l \<and> (l = [] \<or> last l \<noteq> CHR 0x0D)"
  shows "lines (concat (map (\<lambda>l. l @ [CHR 0x0A]) ls)) = ls"
proof -
  have "split_on (CHR 0x0A) (concat (map (\<lambda>l. l @ [CHR 0x0A]) ls)) = ls @ [[]]"
    using assms by (induction ls) (simp_all add: split_on_sep)
  moreover have "map cut_cr ls = ls"
    using assms by (intro map_idI) (auto simp: cut_cr_def)
  ultimately show ?thesis
    by (simp add: lines_def)
qed

end
