(* ===== verification/Device_Match.thy ===== *)
theory Device_Match
  imports Rust_Std "HOL-Library.AList" "HOL-Library.List_Lexorder" "HOL-Library.Char_ord"
begin

text \<open>
  The types every transport shares: \<open>src/types.rs\<close> (the cancellation token, the transport tag,
  the match record with its getters, its equality, hash and order, and the keyword arguments it
  offers to a bus library) and \<open>src/error.rs\<close> (the error enumeration and the Python exception
  each error becomes).
\<close>

section \<open>Errors\<close>

text \<open>
  The wrapped errors of other crates are carried as their \<open>Display\<close> text, the only part of
  them the sources use.
\<close>

datatype dafydd_error = SerialErr string | UsbErr string | IoErr string | InvalidSubnet string

fun error_to_string :: "dafydd_error \<Rightarrow> string" where
  "error_to_string (SerialErr e) = ''serial: '' @ e"
| "error_to_string (UsbErr e) = e"
| "error_to_string (IoErr e) = ''io: '' @ e"
| "error_to_string (InvalidSubnet s) = ''invalid subnet: '' @ s"

text \<open>
  What a Python caller sees instead of a result: an exception of the library, an exception
  raised by a callback, or the exception PyO3 raises for a Rust panic.
\<close>

datatype py_err = PyValueError string | PyRuntimeError string | CallbackError string | PanicException

fun error_to_pyerr :: "dafydd_error \<Rightarrow> py_err" where
  "error_to_pyerr (InvalidSubnet s) = PyValueError (error_to_string (InvalidSubnet s))"
| "error_to_pyerr e = PyRuntimeError (error_to_string e)"

lemma error_to_pyerr_value_error:
  "(\<exists>msg. error_to_pyerr e = PyValueError msg) \<longleftrightarrow> (\<exists>s. e = InvalidSubnet s)"
  by (cases e) auto

section \<open>The cancellation token\<close>

text \<open>
  A token is an \<open>Arc\<close> to an atomic flag: a reference into a store of flags.  Cloning copies the
  reference, so every clone reads and writes the same flag.
\<close>

type_synonym token = nat

record flag_store =
  flags :: "token \<Rightarrow> bool"
  next_ref :: token

definition token_new :: "flag_store \<Rightarrow> token \<times> flag_store" where
  "token_new st =
     (next_ref st, st\<lparr>flags := (flags st)(next_ref st := False), next_ref := Suc (next_ref st)\<rparr>)"

definition token_clone :: "token \<Rightarrow> token" where
  "token_clone t = t"

definition is_cancelled :: "token \<Rightarrow> flag_store \<Rightarrow> bool" where
  "is_cancelled t st = flags st t"

definition cancel :: "token \<Rightarrow> flag_store \<Rightarrow> flag_store" where
  "cancel t st = st\<lparr>flags := (flags st)(t := True)\<rparr>"

definition reset_token :: "token \<Rightarrow> flag_store \<Rightarrow> flag_store" where
  "reset_token t st = st\<lparr>flags := (flags st)(t := False)\<rparr>"

text \<open>
  The other names of these operations: \<open>Default\<close>, the constructor and the method that Python calls,
  and the shared flag itself.
\<close>

definition token_default :: "flag_store \<Rightarrow> token \<times> flag_store" where
  "token_default st = token_new st"

definition py_new :: "flag_store \<Rightarrow> token \<times> flag_store" where
  "py_new st = token_new st"

definition py_is_cancelled :: "token \<Rightarrow> flag_store \<Rightarrow> bool" where
  "py_is_cancelled t st = is_cancelled t st"

definition token_inner :: "token \<Rightarrow> token" where
  "token_inner t = t"

definition token_live :: "flag_store \<Rightarrow> token \<Rightarrow> bool" where
  "token_live st t = (t < next_ref st)"

section \<open>Matches\<close>

datatype transport = Serial | Usb | Tcp

record device_match =
  transport :: transport
  address :: string
  response :: "bytes option"
  info :: str_map

definition device_match_new ::
  "transport \<Rightarrow> string \<Rightarrow> bytes option \<Rightarrow> str_map option \<Rightarrow> device_match" where
  "device_match_new t a r i =
     \<lparr>transport = t, address = a, response = r, info = (case i of None \<Rightarrow> Map.empty | Some m \<Rightarrow> m)\<rparr>"

text \<open>\<open>m.info.insert(k, v)\<close>.\<close>

definition info_insert :: "string \<Rightarrow> string \<Rightarrow> device_match \<Rightarrow> device_match" where
  "info_insert k v m = m\<lparr>info := (info m)(k \<mapsto> v)\<rparr>"

definition match_eq :: "device_match \<Rightarrow> device_match \<Rightarrow> bool" where
  "match_eq a b =
     (transport a = transport b \<and> address a = address b \<and> response a = response b \<and>
      info a = info b)"

text \<open>
  The values fed to the hasher, in order; the hasher itself is the standard library's and a
  parameter here.
\<close>

fun discriminant :: "transport \<Rightarrow> nat" where
  "discriminant Serial = 0"
| "discriminant Usb = 1"
| "discriminant Tcp = 2"

definition match_hash :: "(nat \<times> string \<times> bytes option \<Rightarrow> 'h) \<Rightarrow> device_match \<Rightarrow> 'h" where
  "match_hash hasher m = hasher (discriminant (transport m), address m, response m)"

definition match_lt :: "device_match \<Rightarrow> device_match \<Rightarrow> bool" where
  "match_lt a b = (address a < address b)"

section \<open>Getters\<close>

definition baud_rate :: "device_match \<Rightarrow> u32 option" where
  "baud_rate m = Option.bind (info m ''baud_rate'') (u32_from_str 10)"

definition host :: "device_match \<Rightarrow> string option" where
  "host m = (case transport m of
       Tcp \<Rightarrow> map_option fst (rsplit_once (CHR '':'') (address m))
     | _ \<Rightarrow> None)"

definition port :: "device_match \<Rightarrow> u16 option" where
  "port m = (case transport m of
       Tcp \<Rightarrow> Option.bind (rsplit_once (CHR '':'') (address m)) (\<lambda>(_, p). u16_from_str 10 p)
     | _ \<Rightarrow> None)"

definition vendor_id :: "device_match \<Rightarrow> u16 option" where
  "vendor_id m = (case transport m of
       Usb \<Rightarrow> Option.bind (split_once (CHR '':'') (address m))
                (\<lambda>(v, _). u16_from_str 16 (trim_start_0x v))
     | _ \<Rightarrow> None)"

definition product_id :: "device_match \<Rightarrow> u16 option" where
  "product_id m = (case transport m of
       Usb \<Rightarrow> (case splitn 3 (CHR '':'') (address m) of
                 _ # pid # _ \<Rightarrow> u16_from_str 16 (trim_start_0x pid)
               | _ \<Rightarrow> None)
     | _ \<Rightarrow> None)"

definition is_hid :: "device_match \<Rightarrow> bool" where
  "is_hid m = (case transport m of
       Usb \<Rightarrow> (case Option.bind (info m ''device_class'') (u8_from_str 10) of
                 Some c \<Rightarrow> c = 3
               | None \<Rightarrow> False)
     | _ \<Rightarrow> False)"

section \<open>Keyword arguments for a bus library\<close>

datatype py_val = PyStr string | PyInt int

type_synonym py_dict = "(string \<times> py_val) list"

definition set_item :: "string \<Rightarrow> py_val \<Rightarrow> py_dict \<Rightarrow> py_dict" where
  "set_item k v d = AList.update k v d"

text \<open>\<open>if let Some(x) = e { d.set_item(k, x)?; }\<close>\<close>

definition set_some :: "string \<Rightarrow> ('a \<Rightarrow> py_val) \<Rightarrow> 'a option \<Rightarrow> py_dict \<Rightarrow> py_dict" where
  "set_some k conv x d = (case x of None \<Rightarrow> d | Some v \<Rightarrow> set_item k (conv v) d)"

definition parity_char :: "string \<Rightarrow> string" where
  "parity_char p = (if p = ''even'' then ''E'' else if p = ''odd'' then ''O'' else ''N'')"

definition bus_params :: "device_match \<Rightarrow> py_dict" where
  "bus_params m = (case transport m of
       Serial \<Rightarrow>
         (let d = set_item ''port'' (PyStr (address m)) [];
              d = set_some ''baudrate'' (\<lambda>b. PyInt (uint b)) (baud_rate m) d;
              d = set_some ''bytesize'' (\<lambda>b. PyInt (uint b))
                    (Option.bind (info m ''data_bits'') (u8_from_str 10)) d;
              d = set_some ''parity'' (\<lambda>p. PyStr (parity_char p)) (info m ''parity'') d
          in set_some ''stopbits'' (\<lambda>b. PyInt (uint b))
               (Option.bind (info m ''stop_bits'') (u8_from_str 10)) d)
     | Tcp \<Rightarrow>
         set_some ''port'' (\<lambda>p. PyInt (uint p)) (port m)
           (set_some ''host'' PyStr (host m) [])
     | Usb \<Rightarrow>
         set_some ''serial_number'' PyStr (info m ''serial_number'')
           (set_some ''product'' (\<lambda>p. PyInt (uint p)) (product_id m)
             (set_some ''vendor'' (\<lambda>v. PyInt (uint v)) (vendor_id m) [])))"

section \<open>Facts about tokens\<close>

lemma is_cancelled_cancel: "is_cancelled t (cancel u st) \<longleftrightarrow> t = u \<or> is_cancelled t st"
  by (simp add: is_cancelled_def cancel_def)

lemma is_cancelled_reset: "is_cancelled t (reset_token u st) \<longleftrightarrow> t \<noteq> u \<and> is_cancelled t st"
  by (simp add: is_cancelled_def reset_token_def)

lemma token_new_facts:
  assumes "token_new st = (t, st')"
  shows "\<not> is_cancelled t st'" "token_live st' t" "\<not> token_live st t"
    and "\<And>u. token_live st u \<Longrightarrow> is_cancelled u st' = is_cancelled u st \<and> u \<noteq> t"
  using assms by (auto simp: token_new_def is_cancelled_def token_live_def)

text \<open>
  A token is one shared flag: after a new token is made, cancelling it through any clone is
  seen through every clone of it and through no token that existed before, and a reset undoes it.
\<close>

theorem token_sharing:
  assumes "py_new st = (t, st')" "token_live st u"
  shows "\<not> py_is_cancelled t st' \<and> token_default st = (t, st') \<and>
    is_cancelled (token_clone t) (cancel (token_inner (token_clone t)) st') \<and>
    is_cancelled u (cancel (token_clone t) st') = is_cancelled u st \<and>
    \<not> is_cancelled t (reset_token (token_clone t) (cancel t st'))"
  using token_new_facts [of st t st'] assms
  by (auto simp: py_new_def py_is_cancelled_def token_default_def token_inner_def token_clone_def is_cancelled_cancel is_cancelled_reset)

section \<open>Facts about matches\<close>

lemma match_eq_iff: "match_eq a b \<longleftrightarrow> a = b"
  by (cases a; cases b) (auto simp: match_eq_def)

lemma discriminant_inj: "discriminant a = discriminant b \<Longrightarrow> a = b"
  by (cases a; cases b) auto

lemma info_insert_simps [simp, match_simps]:
  "transport (info_insert k v m) = transport m"
  "address (info_insert k v m) = address m"
  "response (info_insert k v m) = response m"
  "info (info_insert k v m) = (info m)(k \<mapsto> v)"
  by (simp_all add: info_insert_def)

text \<open>The dictionary, key by key in the order of insertion.\<close>

lemma bus_params_serial:
  assumes "transport m = Serial"
  shows "bus_params m =
    [(''port'', PyStr (address m))] @
    (case baud_rate m of None \<Rightarrow> [] | Some b \<Rightarrow> [(''baudrate'', PyInt (uint b))]) @
    (case Option.bind (info m ''data_bits'') (u8_from_str 10) of
       None \<Rightarrow> [] | Some b \<Rightarrow> [(''bytesize'', PyInt (uint b))]) @
    (case info m ''parity'' of None \<Rightarrow> [] | Some p \<Rightarrow> [(''parity'', PyStr (parity_char p))]) @
    (case Option.bind (info m ''stop_bits'') (u8_from_str 10) of
       None \<Rightarrow> [] | Some b \<Rightarrow> [(''stopbits'', PyInt (uint b))])"
  using assms
  by (simp add: bus_params_def Let_def set_item_def set_some_def split: option.split)

lemma bus_params_tcp:
  assumes "transport m = Tcp"
  shows "bus_params m =
    (case host m of None \<Rightarrow> [] | Some h \<Rightarrow> [(''host'', PyStr h)]) @
    (case port m of None \<Rightarrow> [] | Some p \<Rightarrow> [(''port'', PyInt (uint p))])"
  using assms by (simp add: bus_params_def set_item_def set_some_def split: option.split)

lemma bus_params_usb:
  assumes "transport m = Usb"
  shows "bus_params m =
    (case vendor_id m of None \<Rightarrow> [] | Some v \<Rightarrow> [(''vendor'', PyInt (uint v))]) @
    (case product_id m of None \<Rightarrow> [] | Some p \<Rightarrow> [(''product'', PyInt (uint p))]) @
    (case info m ''serial_number'' of
       None \<Rightarrow> [] | Some sn \<Rightarrow> [(''serial_number'', PyStr sn)])"
  using assms by (simp add: bus_params_def set_item_def set_some_def split: option.split)

end
