(* ===== verification/Match_Repr.thy ===== *)
theory Match_Repr
  imports Device_Match
begin

text \<open>
  The \<open>repr\<close> of a match, \<open>DeviceMatch::__repr__\<close> of \<open>src/types.rs\<close>: the \<open>{:?}\<close> formats of the
  transport, of strings, of the optional response and of the hash map, as Rust's standard library
  prints them.  The interface \<open>printer\<close> says of a format that what it prints can be told apart from
  what follows; each format interprets it, and the \<open>repr\<close> as a whole determines the match.

  The tables of Unicode that say which characters beyond ASCII are printed as they are, are an
  argument; what is shown holds for all tables.
\<close>

section \<open>The characters of a string\<close>

text \<open>
  A string is its bytes in UTF-8.  A character is its code point; \<open>str::chars\<close> decodes the bytes.
\<close>

definition scalar_value :: "nat \<Rightarrow> bool" where
  "scalar_value c = (c < 0xD800 \<or> 0xE000 \<le> c \<and> c < 0x110000)"

definition utf8_encode :: "nat \<Rightarrow> string" where
  "utf8_encode c =
     map char_of
      (if c < 0x80 then [c]
       else if c < 0x800 then [0xC0 + c div 64, 0x80 + c mod 64]
       else if c < 0x10000 then [0xE0 + c div 4096, 0x80 + c div 64 mod 64, 0x80 + c mod 64]
       else [0xF0 + c div 262144, 0x80 + c div 4096 mod 64, 0x80 + c div 64 mod 64, 0x80 + c mod 64])"

definition utf8_bits :: "char \<Rightarrow> nat" where
  "utf8_bits b = of_char b mod 64"

fun utf8_next :: "string \<Rightarrow> (nat \<times> string) option" where
  "utf8_next [] = None"
| "utf8_next (b # s) =
     (let a = of_char b :: nat
      in if a < 0x80 then Some (a, s)
         else if a < 0xE0 then
           (case s of b1 # s \<Rightarrow> Some (a mod 32 * 64 + utf8_bits b1, s) | _ \<Rightarrow> None)
         else if a < 0xF0 then
           (case s of b1 # b2 # s \<Rightarrow> Some ((a mod 16 * 64 + utf8_bits b1) * 64 + utf8_bits b2, s) | _ \<Rightarrow> None)
         else
           (case s of b1 # b2 # b3 # s \<Rightarrow>
              Some (((a mod 8 * 64 + utf8_bits b1) * 64 + utf8_bits b2) * 64 + utf8_bits b3, s)
            | _ \<Rightarrow> None))"

lemma utf8_next_shorter: "utf8_next s = Some (c, r) \<Longrightarrow> length r < length s"
  by (cases s) (auto simp: Let_def split: if_splits list.splits)

function str_chars :: "string \<Rightarrow> nat list" where
  "str_chars s = (case utf8_next s of None \<Rightarrow> [] | Some (c, r) \<Rightarrow> c # str_chars r)"
  by pat_completeness auto
termination
  by (relation "measure length") (auto dest: utf8_next_shorter)

declare str_chars.simps [simp del]

text \<open>What every \<open>String\<close> of a Rust program is: valid UTF-8.\<close>

definition valid_str :: "string \<Rightarrow> bool" where
  "valid_str s = (concat (map utf8_encode (str_chars s)) = s \<and> list_all scalar_value (str_chars s))"

section \<open>The formats\<close>

text \<open>
  \<open>char::escape_debug\<close> inside a string: the characters with an escape of their own, then those
  printed as they are, then \<open>\u{..}\<close>.  The double quote is escaped, the single quote is not.
\<close>

definition printable :: "(nat \<Rightarrow> bool) \<Rightarrow> nat \<Rightarrow> bool" where
  "printable table c = (if c < 0x20 then False else if c < 0x7F then True else 0x7F < c \<and> table c)"

definition esc_char :: "(nat \<Rightarrow> bool) \<Rightarrow> nat \<Rightarrow> string" where
  "esc_char table c =
     (if c = 0x00 then [CHR 0x5C, CHR ''0'']
      else if c = 0x09 then [CHR 0x5C, CHR ''t'']
      else if c = 0x0D then [CHR 0x5C, CHR ''r'']
      else if c = 0x0A then [CHR 0x5C, CHR ''n'']
      else if c = 0x5C then [CHR 0x5C, CHR 0x5C]
      else if c = 0x22 then [CHR 0x5C, CHR 0x22]
      else if printable table c then utf8_encode c
      else [CHR 0x5C, CHR ''u'', CHR 0x7B] @ show_radix 16 c @ [CHR 0x7D])"

definition debug_str :: "(nat \<Rightarrow> bool) \<Rightarrow> string \<Rightarrow> string" where
  "debug_str table s = CHR 0x22 # concat (map (esc_char table) (str_chars s)) @ [CHR 0x22]"

text \<open>The entries of a list or map: a separator before every entry but the first.\<close>

fun more_entries :: "('a \<Rightarrow> string) \<Rightarrow> string \<Rightarrow> 'a list \<Rightarrow> string" where
  "more_entries pr close [] = close"
| "more_entries pr close (x # xs) = '', '' @ pr x @ more_entries pr close xs"

fun debug_entries :: "('a \<Rightarrow> string) \<Rightarrow> string \<Rightarrow> 'a list \<Rightarrow> string" where
  "debug_entries pr close [] = close"
| "debug_entries pr close (x # xs) = pr x @ more_entries pr close xs"

fun debug_transport :: "transport \<Rightarrow> string" where
  "debug_transport Serial = ''Serial''"
| "debug_transport Usb = ''Usb''"
| "debug_transport Tcp = ''Tcp''"

definition debug_u8 :: "u8 \<Rightarrow> string" where
  "debug_u8 b = show_dec (unat b)"

fun debug_response :: "bytes option \<Rightarrow> string" where
  "debug_response None = ''None''"
| "debug_response (Some bs) = ''Some(['' @ debug_entries debug_u8 ''])'' bs"

definition debug_pair :: "(nat \<Rightarrow> bool) \<Rightarrow> string \<times> string \<Rightarrow> string" where
  "debug_pair table e = debug_str table (fst e) @ '': '' @ debug_str table (snd e)"

definition debug_map :: "(nat \<Rightarrow> bool) \<Rightarrow> (string \<times> string) list \<Rightarrow> string" where
  "debug_map table es = [CHR 0x7B] @ debug_entries (debug_pair table) [CHR 0x7D] es"

text \<open>The iteration order of the hash map is not determined: it is a list of its entries.\<close>

definition match_repr :: "(nat \<Rightarrow> bool) \<Rightarrow> (string \<times> string) list \<Rightarrow> device_match \<Rightarrow> string" where
  "match_repr table es m =
     ''DeviceMatch(transport='' @ debug_transport (transport m) @ '', address='' @ debug_str table (address m) @
     '', response='' @ debug_response (response m) @ '', info='' @ debug_map table es @ '')''"

definition iterates :: "(string \<times> string) list \<Rightarrow> device_match \<Rightarrow> bool" where
  "iterates es m = (info m = map_of es \<and> distinct (map fst es))"

definition valid_texts :: "(string \<times> string) list \<Rightarrow> device_match \<Rightarrow> bool" where
  "valid_texts es m = (valid_str (address m) \<and> list_all (\<lambda>(k, v). valid_str k \<and> valid_str v) es)"

section \<open>Decoding what is encoded\<close>

lemma lead_byte:
  "x < k \<Longrightarrow> (k :: nat) dvd a \<Longrightarrow> (a + x) mod k = x" "a + x < 256 \<Longrightarrow> (a + x) mod (256 :: nat) = a + x"
  by auto

lemma sextets:
  fixes c :: nat
  shows "c div 4096 * 64 + c div 64 mod 64 = c div 64" "c div 262144 * 64 + c div 4096 mod 64 = c div 4096"
    "4096 * (c div 4096) + c div 64 mod 64 * 64 + c mod 64 = c"
proof -
  have "c div 4096 = c div 64 div 64" "c div 262144 = c div 4096 div 64"
    by (simp_all add: div_mult2_eq [symmetric])
  then show "c div 4096 * 64 + c div 64 mod 64 = c div 64" "c div 262144 * 64 + c div 4096 mod 64 = c div 4096"
    by simp_all
  from this(1) have "(c div 4096 * 64 + c div 64 mod 64) * 64 + c mod 64 = c" by simp
  then show "4096 * (c div 4096) + c div 64 mod 64 * 64 + c mod 64 = c" by (simp add: algebra_simps)
qed

lemma utf8_bits_tail [simp]: "utf8_bits (char_of (0x80 + x mod 64)) = x mod 64"
  by (simp add: utf8_bits_def mod_mod_cancel lead_byte)

lemma utf8_next_encode:
  assumes "c < 0x110000"
  shows "utf8_next (utf8_encode c @ r) = Some (c, r)"
proof -
  consider "c < 0x80" | "0x80 \<le> c" "c < 0x800" | "0x800 \<le> c" "c < 0x10000" | "0x10000 \<le> c"
    by linarith
  then show ?thesis
  proof cases
    case 1
    then show ?thesis by (simp add: utf8_encode_def)
  next
    case 2
    then have "c div 64 < 32" by auto
    with 2 show ?thesis
      by (simp add: utf8_encode_def lead_byte del: mod_add_self1)
  next
    case 3
    then have "c div 4096 < 16" by auto
    with 3 show ?thesis
      by (simp add: utf8_encode_def lead_byte sextets)
  next
    case 4
    then have "c div 262144 < 8" using assms by auto
    with 4 show ?thesis
      by (simp add: utf8_encode_def lead_byte sextets)
  qed
qed

lemma scalar_value_bound: "scalar_value c \<Longrightarrow> c < 0x110000"
  by (auto simp: scalar_value_def)

text \<open>The bytes of a character: one below 128, or several from 128 on.\<close>

lemma utf8_encode_bytes:
  assumes "c < 0x110000"
  shows "utf8_encode c \<noteq> []"
    and "c < 0x80 \<Longrightarrow> utf8_encode c = [char_of c]"
    and "0x80 \<le> c \<Longrightarrow> b \<in> set (utf8_encode c) \<Longrightarrow> 0x80 \<le> (of_char b :: nat)"
  using assms by (auto simp: utf8_encode_def split: if_splits)

lemma str_chars_encode:
  assumes "list_all (\<lambda>c. c < 0x110000) cs"
  shows "str_chars (concat (map utf8_encode cs)) = cs"
  using assms
proof (induction cs)
  case Nil
  then show ?case by (simp add: str_chars.simps)
next
  case (Cons c cs)
  then show ?case by (subst str_chars.simps) (simp add: utf8_next_encode)
qed

lemma valid_str_encode: "list_all scalar_value cs \<Longrightarrow> valid_str (concat (map utf8_encode cs))"
  using str_chars_encode [of cs]
  by (auto simp: valid_str_def list_all_iff scalar_value_bound)

section \<open>Formats that can be told from what follows\<close>

text \<open>
  The contract of a format: of the values in \<open>ok\<close> and the continuations in \<open>fits\<close>, the text
  determines both the value and the continuation.
\<close>

locale printer =
  fixes pr :: "'a \<Rightarrow> string" and ok :: "'a \<Rightarrow> bool" and fits :: "string \<Rightarrow> bool"
  assumes split: "ok x \<Longrightarrow> ok y \<Longrightarrow> fits r \<Longrightarrow> fits s \<Longrightarrow> pr x @ r = pr y @ s \<Longrightarrow> x = y \<and> r = s"

text \<open>The entries between brackets: an entry does not begin like the closing text.\<close>

locale entry_printer = printer +
  fixes close :: string
  assumes close: "close \<noteq> []" "hd close \<noteq> CHR '',''"
    and begins: "ok x \<Longrightarrow> pr x \<noteq> [] \<and> hd (pr x) \<noteq> hd close"
    and fits_close: "fits (close @ r)" and fits_comma: "fits (CHR '','' # r)"
begin

lemma fits_more: "fits (more_entries pr close xs @ r)"
  by (cases xs) (simp_all add: fits_close fits_comma)

lemma more_split:
  assumes "list_all ok xs" "list_all ok ys" "more_entries pr close xs @ r = more_entries pr close ys @ s"
  shows "xs = ys \<and> r = s"
  using assms
proof (induction xs arbitrary: ys)
  case Nil
  then show ?case using close by (cases ys; cases close) auto
next
  case (Cons x xs)
  obtain y ys' where ys: "ys = y # ys'"
    using Cons.prems close by (cases ys; cases close) auto
  have "pr x @ more_entries pr close xs @ r = pr y @ more_entries pr close ys' @ s"
    using Cons.prems(3) ys by simp
  then have "x = y \<and> more_entries pr close xs @ r = more_entries pr close ys' @ s"
    using Cons.prems(1,2) ys by (intro split) (simp_all add: fits_more)
  then show ?case
    using Cons.IH [of ys'] Cons.prems(1,2) ys by simp
qed

lemma entries_split:
  assumes "list_all ok xs" "list_all ok ys" "debug_entries pr close xs @ r = debug_entries pr close ys @ s"
  shows "xs = ys \<and> r = s"
proof -
  have ne: "pr x @ t \<noteq> close @ u" if "ok x" for x t u
    using begins [OF that] close(1) by (cases "pr x"; cases close) auto
  show ?thesis
  proof (cases xs)
    case Nil
    then show ?thesis
      using assms ne by (cases ys) (auto dest!: sym [of "close @ _"])
  next
    case (Cons x xs')
    then obtain y ys' where ys: "ys = y # ys'"
      using assms ne by (cases ys) auto
    have "x = y \<and> more_entries pr close xs' @ r = more_entries pr close ys' @ s"
      using assms Cons ys by (intro split) (simp_all add: fits_more)
    then show ?thesis
      using more_split [of xs' ys' r s] assms(1,2) Cons ys by simp
  qed
qed

end

section \<open>Characters and strings\<close>

text \<open>Reading one character back from an escaped text.\<close>

definition read_escape :: "string \<Rightarrow> (nat \<times> string) option" where
  "read_escape s = (case s of
       [] \<Rightarrow> None
     | b # s \<Rightarrow>
         if b = CHR ''0'' then Some (0, s) else if b = CHR ''t'' then Some (9, s)
         else if b = CHR ''r'' then Some (13, s) else if b = CHR ''n'' then Some (10, s)
         else if b = CHR ''u'' then
           map_option (\<lambda>c. (c, tl (dropWhile (\<lambda>b. b \<noteq> CHR 0x7D) s)))
             (parse_digits 16 0 (takeWhile (\<lambda>b. b \<noteq> CHR 0x7D) (tl s)))
         else Some (of_char b, s))"

definition read_char :: "string \<Rightarrow> (nat \<times> string) option" where
  "read_char s = (case s of b # t \<Rightarrow> if b = CHR 0x5C then read_escape t else utf8_next s | [] \<Rightarrow> None)"

lemma hex_no_brace: "CHR 0x7D \<notin> set (show_radix 16 c)"
proof
  assume "CHR 0x7D \<in> set (show_radix 16 c)"
  then obtain d where "d < 16" "digit_char d = CHR 0x7D"
    using show_radix_digits [of 16 c] by auto
  then show False
    using digit_char_neq [of d "CHR 0x7D"] by simp
qed

lemma read_escape_hex:
  "read_escape (CHR ''u'' # CHR 0x7B # show_radix 16 c @ CHR 0x7D # r) = Some (c, r)"
proof -
  have "\<And>b. b \<in> set (show_radix 16 c) \<Longrightarrow> b \<noteq> CHR 0x7D"
    using hex_no_brace by auto
  then have "takeWhile (\<lambda>b. b \<noteq> CHR 0x7D) (show_radix 16 c @ CHR 0x7D # r) = show_radix 16 c"
    "dropWhile (\<lambda>b. b \<noteq> CHR 0x7D) (show_radix 16 c @ CHR 0x7D # r) = CHR 0x7D # r"
    by (simp_all add: takeWhile_append2 dropWhile_append2)
  then show ?thesis
    by (simp add: read_escape_def parse_show_radix)
qed

lemma read_char_esc:
  assumes "c < 0x110000"
  shows "read_char (esc_char table c @ r) = Some (c, r)"
proof (cases "printable table c \<and> c \<notin> {0x5C, 0x22}")
  case True
  then have esc: "esc_char table c = utf8_encode c"
    by (auto simp: esc_char_def printable_def)
  obtain b s where s: "utf8_encode c = b # s"
    using utf8_encode_bytes(1) [OF assms] by (cases "utf8_encode c") auto
  have "b \<noteq> CHR 0x5C"
  proof (cases "c < 0x80")
    case True
    then have "of_char b = c" using utf8_encode_bytes(2) [OF assms] s by auto
    then show ?thesis using \<open>printable table c \<and> c \<notin> {0x5C, 0x22}\<close> by auto
  next
    case False
    then have "0x80 \<le> (of_char b :: nat)" using utf8_encode_bytes(3) [OF assms, of b] s by simp
    then show ?thesis by auto
  qed
  then show ?thesis
    using utf8_next_encode [OF assms, of r] by (simp add: esc s read_char_def)
next
  case False
  then consider "c \<in> {0x00, 0x09, 0x0D, 0x0A, 0x5C, 0x22}" | "\<not> printable table c" "c \<notin> {0x00, 0x09, 0x0D, 0x0A, 0x5C, 0x22}"
    by blast
  then show ?thesis
  proof cases
    case 1
    then show ?thesis
      by (elim insertE emptyE) (simp_all add: esc_char_def read_char_def read_escape_def)
  next
    case 2
    then show ?thesis
      by (simp add: esc_char_def read_char_def read_escape_hex)
  qed
qed

lemma esc_char_bytes:
  assumes "c < 0x110000" "b \<in> set (esc_char table c)"
  shows "0x20 \<le> (of_char b :: nat) \<and> of_char b \<noteq> (0x7F :: nat)"
proof (cases "esc_char table c = utf8_encode c \<and> printable table c")
  case True
  then show ?thesis
    using assms utf8_encode_bytes(2,3) [OF assms(1)] by (cases "c < 0x80") (force simp: printable_def split: if_splits)+
next
  case False
  moreover have "0x20 \<le> (of_char d :: nat) \<and> of_char d \<noteq> (0x7F :: nat)" if d: "d \<in> set (show_radix 16 c)" for d
  proof -
    obtain k where "k < 16" "d = digit_char k"
      using d show_radix_digits [of 16 c] by auto
    then show ?thesis by (simp add: digit_char_code)
  qed
  ultimately show ?thesis
    using assms(2) by (auto simp: esc_char_def split: if_splits)
qed

interpretation esc: printer "esc_char table" "\<lambda>c. c < 0x110000" "\<lambda>_. True" for table
proof
  fix x y r s
  assume "x < 0x110000" "y < 0x110000" and eq: "esc_char table x @ r = esc_char table y @ s"
  then have "Some (x, r) = Some (y, s)"
    using read_char_esc [of x table r] read_char_esc [of y table s] by (simp only: eq)
  then show "x = y \<and> r = s" by simp
qed

lemma esc_char_no_quote:
  assumes "c < 0x110000"
  obtains b s where "esc_char table c = b # s" "b \<noteq> CHR 0x22"
proof (cases "esc_char table c")
  case Nil
  then show thesis
    using read_char_esc [OF assms, of table "[]"] by (simp add: read_char_def)
next
  case (Cons b s)
  moreover have "b \<noteq> CHR 0x22"
  proof
    assume b: "b = CHR 0x22"
    then have "read_char (esc_char table c @ []) = Some (0x22, s)"
      by (simp add: Cons read_char_def)
    then have "c = 0x22"
      using read_char_esc [OF assms, of table "[]"] by simp
    then show False
      using Cons b by (simp add: esc_char_def)
  qed
  ultimately show thesis by (rule that)
qed

lemma chars_split:
  assumes "list_all (\<lambda>c. c < 0x110000) cs" "list_all (\<lambda>c. c < 0x110000) ds"
    "concat (map (esc_char table) cs) @ CHR 0x22 # r = concat (map (esc_char table) ds) @ CHR 0x22 # s"
  shows "cs = ds \<and> r = s"
  using assms
proof (induction cs arbitrary: ds)
  case Nil
  show ?case
  proof (cases ds)
    case (Cons d ds')
    obtain b t where "esc_char table d = b # t" "b \<noteq> CHR 0x22"
      using Nil.prems(2) Cons esc_char_no_quote [of d table] by auto
    then show ?thesis using Nil.prems Cons by simp
  qed (use Nil.prems in simp)
next
  case (Cons c cs)
  obtain b t where c: "esc_char table c = b # t" "b \<noteq> CHR 0x22"
    using Cons.prems(1) esc_char_no_quote [of c table] by auto
  obtain d ds' where ds: "ds = d # ds'"
    using Cons.prems(3) c by (cases ds) auto
  then have "c = d \<and> concat (map (esc_char table) cs) @ CHR 0x22 # r = concat (map (esc_char table) ds') @ CHR 0x22 # s"
    using Cons.prems by (intro esc.split) simp_all
  then show ?case
    using Cons.IH [of ds'] Cons.prems(1,2) ds by simp
qed

lemma valid_str_chars: "valid_str s \<Longrightarrow> list_all (\<lambda>c. c < 0x110000) (str_chars s)"
  by (auto simp: valid_str_def list_all_iff scalar_value_bound)

interpretation str: printer "debug_str table" valid_str "\<lambda>_. True" for table
proof
  fix x y r s
  assume v: "valid_str x" "valid_str y" and eq: "debug_str table x @ r = debug_str table y @ s"
  have "str_chars x = str_chars y \<and> r = s"
    using eq by (intro chars_split [OF valid_str_chars valid_str_chars, OF v]) (simp add: debug_str_def)
  then show "x = y \<and> r = s"
    using v by (auto simp: valid_str_def)
qed

lemma debug_str_bytes:
  assumes "valid_str s" "b \<in> set (debug_str table s)"
  shows "0x20 \<le> (of_char b :: nat) \<and> of_char b \<noteq> (0x7F :: nat)"
  using assms valid_str_chars [OF assms(1)] esc_char_bytes by (auto simp: debug_str_def list_all_iff)

section \<open>The response and the details\<close>

text \<open>A number is told from what follows by the first character that is no digit.\<close>

definition no_digit :: "string \<Rightarrow> bool" where
  "no_digit s = (s \<noteq> [] \<and> \<not> (48 \<le> (of_char (hd s) :: nat) \<and> (of_char (hd s) :: nat) \<le> 57))"

lemma show_dec_split:
  assumes "no_digit r" "no_digit s" "show_dec m @ r = show_dec n @ s"
  shows "m = n \<and> r = s"
proof -
  let ?digit = "\<lambda>c. 48 \<le> (of_char c :: nat) \<and> (of_char c :: nat) \<le> 57"
  have digits: "takeWhile ?digit (show_dec k @ t) = show_dec k" if "no_digit t" for k t
  proof -
    have "\<And>c. c \<in> set (show_dec k) \<Longrightarrow> ?digit c"
      by (rule show_dec_neq)
    then have "takeWhile ?digit (show_dec k @ t) = show_dec k @ takeWhile ?digit t"
      by (rule takeWhile_append2)
    moreover have "takeWhile ?digit t = []"
      using that by (cases t) (simp_all add: no_digit_def)
    ultimately show ?thesis by simp
  qed
  have "show_dec m = show_dec n"
    using digits [OF assms(1), of m] digits [OF assms(2), of n] by (simp only: assms(3))
  then show ?thesis
    using assms(3) by (auto dest: show_dec_inj)
qed

interpretation byte: entry_printer debug_u8 "\<lambda>_. True" no_digit "''])''"
proof
  fix x y :: u8 and r s
  assume "no_digit r" "no_digit s" "debug_u8 x @ r = debug_u8 y @ s"
  then have "unat x = unat y \<and> r = s"
    unfolding debug_u8_def by (rule show_dec_split)
  then show "x = y \<and> r = s" by (simp add: word_unat_eq_iff)
next
  fix x :: u8
  show "debug_u8 x \<noteq> [] \<and> hd (debug_u8 x) \<noteq> hd ''])''"
    using show_dec_neq [of "hd (show_dec (unat x))" "unat x"]
    by (auto simp: debug_u8_def)
qed (simp_all add: no_digit_def)

interpretation pair: entry_printer "debug_pair table" "\<lambda>(k, v). valid_str k \<and> valid_str v" "\<lambda>_. True" "[CHR 0x7D]"
  for table
proof
  fix x y r s
  assume ok: "case x of (k, v) \<Rightarrow> valid_str k \<and> valid_str v" "case y of (k, v) \<Rightarrow> valid_str k \<and> valid_str v"
    and eq: "debug_pair table x @ r = debug_pair table y @ s"
  have "fst x = fst y \<and> '': '' @ debug_str table (snd x) @ r = '': '' @ debug_str table (snd y) @ s"
    using ok eq by (intro str.split) (auto simp: debug_pair_def split: prod.splits)
  moreover from this have "snd x = snd y \<and> r = s"
    using ok by (intro str.split) (auto split: prod.splits)
  ultimately show "x = y \<and> r = s"
    by (simp add: prod_eq_iff)
qed (simp_all add: debug_pair_def debug_str_def)

interpretation transport: printer debug_transport "\<lambda>_. True" "\<lambda>_. True"
proof
  fix x y r s
  assume "debug_transport x @ r = debug_transport y @ s"
  then show "x = y \<and> r = s"
    by (cases x; cases y) auto
qed

interpretation response: printer debug_response "\<lambda>_. True" "\<lambda>_. True"
proof
  fix x y r s
  assume eq: "debug_response x @ r = debug_response y @ s"
  show "x = y \<and> r = s"
  proof (cases "x = None \<or> y = None")
    case True
    then show ?thesis using eq by (cases x; cases y) auto
  next
    case False
    then obtain bs bs' where "x = Some bs" "y = Some bs'" by auto
    then show ?thesis
      using eq byte.entries_split [of bs bs' r s] by (simp add: list.pred_True)
  qed
qed

section \<open>The whole text\<close>

lemma match_repr_split:
  assumes "valid_texts es m" "valid_texts es' m'" "match_repr table es m = match_repr table es' m'"
  shows "transport m = transport m' \<and> address m = address m' \<and> response m = response m' \<and> es = es'"
proof -
  let ?rest2 = "\<lambda>es m. '', response='' @ debug_response (response m) @ '', info='' @ debug_map table es @ '')''"
  let ?rest1 = "\<lambda>es m. '', address='' @ debug_str table (address m) @ ?rest2 es m"
  have "debug_transport (transport m) @ ?rest1 es m = debug_transport (transport m') @ ?rest1 es' m'"
    using assms(3) by (simp only: match_repr_def append_assoc same_append_eq)
  then have 1: "transport m = transport m' \<and> ?rest1 es m = ?rest1 es' m'"
    by (intro transport.split) simp_all
  then have "debug_str table (address m) @ ?rest2 es m = debug_str table (address m') @ ?rest2 es' m'"
    by (simp only: same_append_eq)
  then have 2: "address m = address m' \<and> ?rest2 es m = ?rest2 es' m'"
    using assms(1,2) by (intro str.split) (simp_all add: valid_texts_def)
  then have "debug_response (response m) @ '', info='' @ debug_map table es @ '')'' =
      debug_response (response m') @ '', info='' @ debug_map table es' @ '')''"
    by (simp only: same_append_eq)
  then have 3: "response m = response m' \<and>
      '', info='' @ debug_map table es @ '')'' = '', info='' @ debug_map table es' @ '')''"
    by (intro response.split) simp_all
  then have "debug_map table es @ '')'' = debug_map table es' @ '')''"
    by (simp only: same_append_eq)
  then have "debug_entries (debug_pair table) [CHR 0x7D] es @ '')'' = debug_entries (debug_pair table) [CHR 0x7D] es' @ '')''"
    by (simp only: debug_map_def append_assoc same_append_eq)
  then have "es = es' \<and> '')'' = '')''"
    using assms(1,2) by (intro pair.entries_split) (simp_all add: valid_texts_def)
  with 1 2 3 show ?thesis by blast
qed

definition one_line :: "string \<Rightarrow> bool" where
  "one_line s = list_all (\<lambda>b. 0x20 \<le> (of_char b :: nat) \<and> of_char b \<noteq> (0x7F :: nat)) s"

lemma one_line_simps [simp]:
  "one_line []" "one_line (b # s) = (0x20 \<le> (of_char b :: nat) \<and> of_char b \<noteq> (0x7F :: nat) \<and> one_line s)"
  "one_line (s @ t) = (one_line s \<and> one_line t)"
  by (auto simp: one_line_def)

lemma one_line_more: "list_all (one_line \<circ> pr) xs \<Longrightarrow> one_line close \<Longrightarrow> one_line (more_entries pr close xs)"
  by (induction xs) simp_all

lemma one_line_entries: "list_all (one_line \<circ> pr) xs \<Longrightarrow> one_line close \<Longrightarrow> one_line (debug_entries pr close xs)"
  by (cases xs) (simp_all add: one_line_more)

lemma match_repr_one_line:
  assumes "valid_texts es m"
  shows "one_line (match_repr table es m)"
proof -
  have str: "one_line (debug_str table s)" if "valid_str s" for s
    using debug_str_bytes [OF that] by (auto simp: one_line_def list_all_iff)
  have "one_line (debug_u8 b)" for b
    using show_dec_neq [of _ "unat b"] by (force simp: one_line_def list_all_iff debug_u8_def)
  then have "one_line (debug_response (response m))"
    by (cases "response m") (simp_all add: one_line_entries list.pred_True comp_def)
  moreover have "one_line (debug_transport (transport m))"
    by (cases "transport m") simp_all
  moreover have "one_line (debug_map table es)"
  proof -
    have "list_all (one_line \<circ> debug_pair table) es"
      using assms str by (auto simp: valid_texts_def list_all_iff debug_pair_def)
    then show ?thesis
      by (simp add: debug_map_def one_line_entries)
  qed
  ultimately show ?thesis
    using assms str by (simp add: match_repr_def valid_texts_def)
qed

text \<open>
  C28.  The \<open>repr\<close> of a match determines it: two matches that print the same text, each with its details
  in some iteration order of the hash map, have the same transport, address, response and details,
  so that they are equal and have the same hash, whatever quotes, brackets or control characters a
  device name contains.  The text is a single line without control characters.
\<close>

theorem repr_determines_match:
  assumes "iterates es m" "iterates es' m'" "valid_texts es m" "valid_texts es' m'"
    and "match_repr table es m = match_repr table es' m'"
  shows "match_eq m m' \<and> es = es' \<and> match_hash hasher m = match_hash hasher m' \<and>
    list_all (\<lambda>b. 0x20 \<le> (of_char b :: nat) \<and> of_char b \<noteq> (0x7F :: nat)) (match_repr table es m)"
  using match_repr_split [OF assms(3-5)] match_repr_one_line [OF assms(3), of table] assms(1,2)
  by (simp add: match_eq_def match_hash_def iterates_def one_line_def)


definition quoted_match :: device_match where
  "quoted_match = device_match_new Serial [CHR ''a'', CHR 0x22, CHR 0x0A, CHR 0xC3, CHR 0xA9] (Some [79, 75])
     (Some [''baud'' \<mapsto> ''9600''])"

lemma quoted_match_repr:
  "match_repr (\<lambda>_. True) [(''baud'', ''9600'')] quoted_match =
     ''DeviceMatch(transport=Serial, address='' @
     [CHR 0x22, CHR ''a'', CHR 0x5C, CHR 0x22, CHR 0x5C, CHR ''n'', CHR 0xC3, CHR 0xA9, CHR 0x22] @
     '', response=Some([79, 75]), info='' @ [CHR 0x7B, CHR 0x22] @ ''baud'' @
     [CHR 0x22, CHR '':'', CHR '' '', CHR 0x22] @ ''9600'' @ [CHR 0x22, CHR 0x7D] @ '')''"
  by code_simp

lemma repr_determines_match_witness:
  "match_eq quoted_match quoted_match \<and> [(''baud'', ''9600'')] = [(''baud'', ''9600'')] \<and>
    match_hash id quoted_match = match_hash id quoted_match \<and>
    list_all (\<lambda>b. 0x20 \<le> (of_char b :: nat) \<and> of_char b \<noteq> (0x7F :: nat))
      (match_repr (\<lambda>_. False) [(''baud'', ''9600'')] quoted_match)"
proof -
  have "iterates [(''baud'', ''9600'')] quoted_match"
    by (simp add: iterates_def quoted_match_def device_match_new_def)
  moreover have "str_chars (address quoted_match) = [97, 34, 10, 233]" "str_chars ''baud'' = [98, 97, 117, 100]"
    "str_chars ''9600'' = [57, 54, 48, 48]"
    by code_simp+
  then have "valid_texts [(''baud'', ''9600'')] quoted_match"
    by (simp add: valid_texts_def valid_str_def scalar_value_def utf8_encode_def)
      (simp add: quoted_match_def device_match_new_def char_of_def bit_iff_odd)
  ultimately show ?thesis
    using repr_determines_match [of _ quoted_match _ quoted_match "\<lambda>_. False" id] by blast
qed

end
