(* ===== verification/Watch.thy ===== *)
theory Watch
  imports Device_Match
begin

text \<open>
  \<open>src/watch.rs\<close>: the difference between two polls and the polling loop that reports it through
  two callbacks, and \<open>src/streaming.rs\<close>: one callback per match.  The interface at the end of the
  first section is what every watcher of the library promises about its callbacks.
\<close>

section \<open>Callbacks and what their receiver knows\<close>

datatype callback = Added device_match | Removed device_match

text \<open>
  A watcher is a state machine: a step takes an observation and yields the callbacks to make and
  the next state.  \<open>run_steps\<close> collects the callbacks of a run.
\<close>

fun run_steps :: "('s \<Rightarrow> 'e \<Rightarrow> 'c list \<times> 's) \<Rightarrow> 's \<Rightarrow> 'e list \<Rightarrow> 'c list \<times> 's" where
  "run_steps step s [] = ([], s)"
| "run_steps step s (e # es) =
     (let (cbs, s') = step s e; (cbs', s'') = run_steps step s' es in (cbs @ cbs', s''))"

text \<open>
  The contract: whoever applies the callbacks, one at a time, to what it knows always knows the
  watcher's state (through \<open>view\<close>), and no callback contradicts what is known (\<open>legal\<close>).
\<close>

fun legal_log :: "('c \<Rightarrow> 'v \<Rightarrow> bool) \<Rightarrow> ('c \<Rightarrow> 'v \<Rightarrow> 'v) \<Rightarrow> 'v \<Rightarrow> 'c list \<Rightarrow> bool" where
  "legal_log legal upd v [] = True"
| "legal_log legal upd v (c # cs) = (legal c v \<and> legal_log legal upd (upd c v) cs)"

lemma legal_log_append:
  "legal_log legal upd v (xs @ ys) \<longleftrightarrow>
     legal_log legal upd v xs \<and> legal_log legal upd (fold upd xs v) ys"
  by (induction xs arbitrary: v) auto

locale callback_feed =
  fixes step :: "'s \<Rightarrow> 'e \<Rightarrow> 'c list \<times> 's"
    and view :: "'s \<Rightarrow> 'v"
    and upd :: "'c \<Rightarrow> 'v \<Rightarrow> 'v"
    and legal :: "'c \<Rightarrow> 'v \<Rightarrow> bool"
    and inv :: "'s \<Rightarrow> bool"
    and obs :: "'e \<Rightarrow> bool"
  assumes step_view: "inv s \<Longrightarrow> obs e \<Longrightarrow> step s e = (cbs, s') \<Longrightarrow> fold upd cbs (view s) = view s'"
    and step_legal: "inv s \<Longrightarrow> obs e \<Longrightarrow> step s e = (cbs, s') \<Longrightarrow> legal_log legal upd (view s) cbs"
    and step_inv: "inv s \<Longrightarrow> obs e \<Longrightarrow> step s e = (cbs, s') \<Longrightarrow> inv s'"
begin

lemma run_view_legal:
  assumes "inv s" "\<forall>e \<in> set es. obs e" "run_steps step s es = (cbs, s')"
  shows "fold upd cbs (view s) = view s' \<and> legal_log legal upd (view s) cbs \<and> inv s'"
  using assms
proof (induction es arbitrary: s cbs)
  case Nil
  then show ?case by simp
next
  case (Cons e es)
  obtain c1 s1 where 1: "step s e = (c1, s1)" by force
  obtain c2 where 2: "run_steps step s1 es = (c2, s')" "cbs = c1 @ c2"
    using Cons.prems(3) 1 by (auto split: prod.splits)
  have "inv s1" "fold upd c1 (view s) = view s1" "legal_log legal upd (view s) c1"
    using Cons.prems(1,2) 1 step_inv step_view step_legal by auto
  with Cons.IH [of s1 c2] Cons.prems(2) 2 show ?case
    by (auto simp: legal_log_append)
qed

end

section \<open>The difference of two polls\<close>

definition compute_diff ::
  "device_match list \<Rightarrow> device_match list \<Rightarrow> device_match list \<times> device_match list" where
  "compute_diff prev current =
     (let prev_addrs = address ` set prev;
          current_addrs = address ` set current;
          added = filter (\<lambda>m. address m \<notin> prev_addrs) current;
          removed = filter (\<lambda>m. address m \<notin> current_addrs) prev
      in (added, removed))"

section \<open>The polling loop\<close>

text \<open>
  One turn of the loop as the environment sees it: the token read at its top, what the discovery
  pass returns, and the token reads of the sleep that follows, which stops at the wake-up time.
\<close>

record poll =
  cancelled_at_top :: bool
  tick :: "py_err + device_match list"
  sleep_reads :: "bool list"

datatype watch_end = Stopped | Failed py_err | StillRunning

text \<open>
  Invoking the callbacks in order: each invocation is logged, and the first one that raises an
  exception ends the sequence.  \<open>raises n\<close> is the exception of the \<open>n\<close>-th invocation, if any.
\<close>

fun fire :: "(nat \<Rightarrow> string option) \<Rightarrow> callback list \<Rightarrow> callback list \<Rightarrow> callback list \<times> py_err option" where
  "fire raises log [] = (log, None)"
| "fire raises log (c # cs) =
     (case raises (length log) of
        None \<Rightarrow> fire raises (log @ [c]) cs
      | Some e \<Rightarrow> (log @ [c], Some (CallbackError e)))"

fun poll_watch ::
  "(nat \<Rightarrow> string option) \<Rightarrow> device_match list \<Rightarrow> callback list \<Rightarrow> poll list \<Rightarrow>
   callback list \<times> watch_end" where
  "poll_watch raises prev log [] = (log, StillRunning)"
| "poll_watch raises prev log (p # ps) =
     (if cancelled_at_top p then (log, Stopped)
      else (case tick p of
              Inl e \<Rightarrow> (log, Failed e)
            | Inr current \<Rightarrow>
                (let (added, removed) = compute_diff prev current
                 in (case fire raises log (map Added added @ map Removed removed) of
                       (log', Some e) \<Rightarrow> (log', Failed e)
                     | (log', None) \<Rightarrow>
                         if True \<in> set (sleep_reads p) then (log', Stopped)
                         else poll_watch raises current log' ps))))"

section \<open>Streaming a finished discovery\<close>

fun stream_calls :: "(nat \<Rightarrow> string option) \<Rightarrow> device_match list \<Rightarrow> device_match list \<Rightarrow>
    device_match list \<times> py_err option" where
  "stream_calls raises log [] = (log, None)"
| "stream_calls raises log (m # ms) =
     (case raises (length log) of
        None \<Rightarrow> stream_calls raises (log @ [m]) ms
      | Some e \<Rightarrow> (log @ [m], Some (CallbackError e)))"

definition run_streaming ::
  "(nat \<Rightarrow> string option) \<Rightarrow> py_err + device_match list \<Rightarrow>
   device_match list \<times> (py_err + device_match list)" where
  "run_streaming raises discover =
     (case discover of
        Inl e \<Rightarrow> ([], Inl e)
      | Inr matches \<Rightarrow>
          (case stream_calls raises [] matches of
             (log, Some e) \<Rightarrow> (log, Inl e)
           | (log, None) \<Rightarrow> (log, Inr matches)))"

section \<open>The polling watcher keeps the contract\<close>

definition poll_step :: "device_match list \<Rightarrow> device_match list \<Rightarrow> callback list \<times> device_match list" where
  "poll_step prev current =
     (let (added, removed) = compute_diff prev current
      in (map Added added @ map Removed removed, current))"

definition addresses :: "device_match list \<Rightarrow> string set" where
  "addresses ms = address ` set ms"

fun know_addr :: "callback \<Rightarrow> string set \<Rightarrow> string set" where
  "know_addr (Added m) A = insert (address m) A"
| "know_addr (Removed m) A = A - {address m}"

fun fresh_addr :: "callback \<Rightarrow> string set \<Rightarrow> bool" where
  "fresh_addr (Added m) A = (address m \<notin> A)"
| "fresh_addr (Removed m) A = (address m \<in> A)"

definition distinct_addrs :: "device_match list \<Rightarrow> bool" where
  "distinct_addrs ms = distinct (map address ms)"

lemma fold_know_added: "fold know_addr (map Added ms) A = A \<union> addresses ms"
  by (induction ms arbitrary: A) (auto simp: addresses_def)

lemma fold_know_removed: "fold know_addr (map Removed ms) A = A - addresses ms"
  by (induction ms arbitrary: A) (auto simp: addresses_def)

text \<open>
  The difference of two polls is exact on addresses: what is added was absent, what is removed
  was present and is gone, applying both turns the old address set into the new one, and nothing
  is reported when the address sets agree, whatever else about the matches changed.
\<close>

theorem compute_diff_exact:
  "case compute_diff prev current of (added, removed) \<Rightarrow>
     set added \<subseteq> set current \<and> addresses added \<inter> addresses prev = {} \<and>
     set removed \<subseteq> set prev \<and> addresses removed \<inter> addresses current = {} \<and>
     (addresses prev \<union> addresses added) - addresses removed = addresses current \<and>
     (added = [] \<and> removed = [] \<longleftrightarrow> addresses prev = addresses current)"
  by (simp add: compute_diff_def addresses_def Let_def filter_empty_conv) (auto simp: image_iff)

lemma compute_diff_addresses:
  assumes "compute_diff prev current = (added, removed)"
  shows "addresses added = addresses current - addresses prev"
    and "addresses removed = addresses prev - addresses current"
  using assms by (auto simp: compute_diff_def addresses_def Let_def)

lemma poll_step_view:
  assumes "poll_step prev e = (cbs, s')"
  shows "fold know_addr cbs (addresses prev) = addresses s'"
proof -
  obtain a r where d: "compute_diff prev e = (a, r)" by force
  show ?thesis
    using assms compute_diff_addresses [OF d]
    by (auto simp: poll_step_def d fold_know_added fold_know_removed)
qed

lemma legal_added:
  "legal_log fresh_addr know_addr A (map Added ms) \<longleftrightarrow> distinct_addrs ms \<and> addresses ms \<inter> A = {}"
  by (induction ms arbitrary: A) (auto simp: distinct_addrs_def addresses_def)

lemma legal_removed:
  "distinct_addrs ms \<Longrightarrow> addresses ms \<subseteq> A \<Longrightarrow> legal_log fresh_addr know_addr A (map Removed ms)"
proof (induction ms arbitrary: A)
  case Nil
  then show ?case by simp
next
  case (Cons m ms)
  have "addresses ms \<subseteq> A - {address m}"
    using Cons.prems by (auto simp: distinct_addrs_def addresses_def image_iff)
  then have "legal_log fresh_addr know_addr (A - {address m}) (map Removed ms)"
    using Cons.prems(1) by (intro Cons.IH) (auto simp: distinct_addrs_def)
  then show ?case
    using Cons.prems(2) by (simp add: addresses_def)
qed

lemma distinct_addrs_filter: "distinct_addrs ms \<Longrightarrow> distinct_addrs (filter P ms)"
  by (simp add: distinct_addrs_def distinct_map_filter)

lemma distinct_addrs_only:
  "distinct_addrs ms \<Longrightarrow> m \<in> set ms \<Longrightarrow> address m = a \<Longrightarrow> filter (\<lambda>m. address m = a) ms = [m]"
proof (induction ms)
  case Nil
  then show ?case by simp
next
  case (Cons x xs)
  have "filter (\<lambda>m. address m = a) xs = []" if "address x = a"
    using Cons.prems(1) that by (auto simp: distinct_addrs_def filter_empty_conv image_iff)
  then show ?case
    using Cons by (cases "x = m") (force simp: distinct_addrs_def)+
qed

lemma poll_step_legal:
  assumes "distinct_addrs prev" "distinct_addrs e" "poll_step prev e = (cbs, s')"
  shows "legal_log fresh_addr know_addr (addresses prev) cbs"
proof -
  obtain a r where d: "compute_diff prev e = (a, r)" by force
  have "distinct_addrs a" "distinct_addrs r"
    using d assms(1,2) by (auto simp: compute_diff_def Let_def distinct_addrs_filter)
  then show ?thesis
    using assms(3) compute_diff_addresses [OF d]
    by (auto simp: poll_step_def d legal_log_append legal_added fold_know_added intro!: legal_removed)
qed

interpretation poll_feed: callback_feed poll_step addresses know_addr fresh_addr distinct_addrs distinct_addrs
  by unfold_locales
    (auto simp: poll_step_view poll_step_legal, auto simp: poll_step_def split: prod.splits)

section \<open>Runs of the loop\<close>

text \<open>The results of the discovery passes a run performs, as long as no callback raises.\<close>

fun polled :: "poll list \<Rightarrow> device_match list list" where
  "polled [] = []"
| "polled (p # ps) =
     (if cancelled_at_top p then []
      else (case tick p of
              Inl e \<Rightarrow> []
            | Inr current \<Rightarrow> current # (if True \<in> set (sleep_reads p) then [] else polled ps)))"

lemma fire_log: "\<exists>k. fst (fire raises log cs) = log @ take k cs \<and> (snd (fire raises log cs) = None \<longrightarrow> k = length cs)"
proof (induction cs arbitrary: log)
  case Nil
  then show ?case by simp
next
  case (Cons c cs)
  show ?case
  proof (cases "raises (length log)")
    case None
    obtain k where "fst (fire raises (log @ [c]) cs) = (log @ [c]) @ take k cs"
      "snd (fire raises (log @ [c]) cs) = None \<longrightarrow> k = length cs"
      using Cons.IH by blast
    with None show ?thesis by (intro exI [of _ "Suc k"]) simp
  next
    case (Some e)
    then show ?thesis by (intro exI [of _ 1]) simp
  qed
qed

definition callback_raised :: "watch_end \<Rightarrow> bool" where
  "callback_raised e = (\<exists>msg. e = Failed (CallbackError msg))"

lemma fire_error: "snd (fire raises log cs) = Some e \<Longrightarrow> \<exists>msg. e = CallbackError msg"
  by (induction cs arbitrary: log) (auto split: option.splits)

text \<open>A turn either ends the run with a callback that raised, or makes all its callbacks.\<close>

lemma poll_watch_turn:
  assumes "\<not> cancelled_at_top p" "tick p = Inr current" "fst (poll_step prev current) = cbs"
  obtains (raised) k msg where
      "poll_watch raises prev log (p # ps) = (log @ take k cbs, Failed (CallbackError msg))"
  | (quiet) "poll_watch raises prev log (p # ps) =
      (if True \<in> set (sleep_reads p) then (log @ cbs, Stopped) else poll_watch raises current (log @ cbs) ps)"
proof -
  obtain a r where d: "compute_diff prev current = (a, r)" by force
  then have cbs: "map Added a @ map Removed r = cbs"
    using assms(3) by (simp add: poll_step_def)
  obtain log' err where f: "fire raises log cbs = (log', err)" by force
  obtain k where k: "log' = log @ take k cbs" "err = None \<longrightarrow> k = length cbs"
    using fire_log [of raises log cbs] f by auto
  show thesis
  proof (cases err)
    case None
    then show thesis
      using assms(1,2) d f k cbs by (intro quiet) simp
  next
    case (Some e)
    then obtain msg where "e = CallbackError msg"
      using fire_error [of raises log cbs e] f by auto
    then show thesis
      using assms(1,2) d f Some k(1) cbs by (intro raised [of k msg]) simp
  qed
qed

lemma poll_watch_log:
  "prefix (fst (poll_watch raises prev log ps)) (log @ fst (run_steps poll_step prev (polled ps))) \<and>
   (\<not> callback_raised (snd (poll_watch raises prev log ps)) \<longrightarrow>
     fst (poll_watch raises prev log ps) = log @ fst (run_steps poll_step prev (polled ps)))"
proof (induction ps arbitrary: prev log)
  case Nil
  then show ?case by simp
next
  case (Cons p ps)
  show ?case
  proof (cases "cancelled_at_top p \<or> (\<exists>e. tick p = Inl e)")
    case True
    then show ?thesis by auto
  next
    case False
    then obtain current where c: "\<not> cancelled_at_top p" "tick p = Inr current"
      by (cases "tick p") auto
    let ?cbs = "fst (poll_step prev current)"
    have run: "fst (run_steps poll_step prev (polled (p # ps))) =
        ?cbs @ fst (run_steps poll_step current (if True \<in> set (sleep_reads p) then [] else polled ps))"
      using c by (simp add: poll_step_def split_def Let_def)
    consider (raised) k msg where
        "poll_watch raises prev log (p # ps) = (log @ take k ?cbs, Failed (CallbackError msg))"
      | (quiet) "poll_watch raises prev log (p # ps) =
          (if True \<in> set (sleep_reads p) then (log @ ?cbs, Stopped)
           else poll_watch raises current (log @ ?cbs) ps)"
      by (rule poll_watch_turn [OF c refl])
    then show ?thesis
    proof cases
      case (raised k msg)
      have "prefix (take k ?cbs) (?cbs @ xs)" for xs
        by (meson prefix_prefix take_is_prefix)
      then show ?thesis
        unfolding run raised by (simp add: callback_raised_def)
    next
      case quiet
      then show ?thesis
        unfolding run quiet using Cons.IH [of current "log @ ?cbs"] by simp
    qed
  qed
qed

lemma fire_quiet: "(\<And>n. raises n = None) \<Longrightarrow> fire raises log cs = (log @ cs, None)"
  by (induction cs arbitrary: log) simp_all

lemma poll_watch_quiet:
  "(\<And>n. raises n = None) \<Longrightarrow> (\<forall>p \<in> set ps. \<exists>ms. tick p = Inr ms) \<Longrightarrow>
     \<not> callback_raised (snd (poll_watch raises prev log ps))"
  by (induction ps arbitrary: prev log) (auto simp: fire_quiet callback_raised_def split_def Let_def split: if_splits)

lemma run_poll_step:
  "snd (run_steps poll_step prev ps) = last (prev # ps)"
  by (induction ps arbitrary: prev) (simp_all add: poll_step_def split_def Let_def)

lemma run_poll_view:
  "fold know_addr (fst (run_steps poll_step prev ps)) (addresses prev) = addresses (last (prev # ps))"
proof (induction ps arbitrary: prev)
  case Nil
  then show ?case by simp
next
  case (Cons p ps)
  have "fold know_addr (fst (poll_step prev p)) (addresses prev) = addresses p"
    using poll_step_view [of prev p "fst (poll_step prev p)" p]
    by (simp add: poll_step_def split_def Let_def)
  moreover have "snd (poll_step prev p) = p"
    by (simp add: poll_step_def split_def Let_def)
  ultimately show ?case
    using Cons.IH [of p] by (simp add: split_def Let_def)
qed

lemma poll_watch_stopped:
  "snd (poll_watch raises prev log ps) = Stopped \<Longrightarrow>
     \<exists>p \<in> set ps. cancelled_at_top p \<or> True \<in> set (sleep_reads p)"
proof (induction raises prev log ps rule: poll_watch.induct)
  case (1 raises prev log)
  then show ?case by simp
next
  case (2 raises prev log p ps)
  show ?case
  proof (cases "cancelled_at_top p \<or> True \<in> set (sleep_reads p)")
    case True
    then show ?thesis by auto
  next
    case False
    obtain current where c: "tick p = Inr current"
      using 2(2) False by (cases "tick p") auto
    obtain a r where d: "compute_diff prev current = (a, r)" by force
    obtain log' err where f: "fire raises log (map Added a @ map Removed r) = (log', err)" by force
    have "err = None" "snd (poll_watch raises current log' ps) = Stopped"
      using 2(2) False c d f by (auto split: option.splits)
    then show ?thesis
      using 2(1) [OF _ c refl d [symmetric] f [symmetric]] False by auto
  qed
qed

text \<open>
  C33.  Whoever applies the callbacks of the polling watcher to an empty set of addresses knows, at
  the end, the addresses of the last poll, unless a callback raised; and then it has seen a
  beginning of these callbacks.  The watcher returns normally only because the token was read set.
\<close>

theorem poll_watch_reports:
  "case poll_watch raises [] [] ps of (log, e) \<Rightarrow>
     (\<not> callback_raised e \<longrightarrow> fold know_addr log {} = addresses (last ([] # polled ps))) \<and>
     prefix log (fst (run_steps poll_step [] (polled ps))) \<and>
     (e = Stopped \<longrightarrow> (\<exists>p \<in> set ps. cancelled_at_top p \<or> True \<in> set (sleep_reads p)))"
  using poll_watch_log [of raises "[]" "[]" ps] poll_watch_stopped [of raises "[]" "[]" ps]
    run_poll_view [of "[]" "polled ps"]
  by (auto simp: split_def addresses_def)

definition sample_match :: "string \<Rightarrow> device_match" where
  "sample_match a = device_match_new Serial a None None"

definition sample_polls :: "poll list" where
  "sample_polls =
     [\<lparr>cancelled_at_top = False, tick = Inr [sample_match ''a'', sample_match ''b''], sleep_reads = []\<rparr>,
      \<lparr>cancelled_at_top = False, tick = Inr [sample_match ''b'', sample_match ''c''],
       sleep_reads = [False, True]\<rparr>]"

theorem poll_watch_reports_witness:
  "fold know_addr (fst (poll_watch (\<lambda>_. None) [] [] sample_polls)) {} = {''b'', ''c''} \<and>
   snd (poll_watch (\<lambda>_. None) [] [] sample_polls) = Stopped"
proof -
  have e: "snd (poll_watch (\<lambda>_. None) [] [] sample_polls) = Stopped"
    by (simp add: sample_polls_def compute_diff_def sample_match_def device_match_new_def Let_def)
  moreover have "polled sample_polls = [[sample_match ''a'', sample_match ''b''],
      [sample_match ''b'', sample_match ''c'']]"
    by (simp add: sample_polls_def)
  moreover have "\<not> callback_raised Stopped"
    by (simp add: callback_raised_def)
  ultimately show ?thesis
    using poll_watch_reports [where raises = "\<lambda>_. None" and ps = sample_polls]
    by (auto simp: split_def addresses_def sample_match_def device_match_new_def)
qed

text \<open>An address that every poll has is added with the first poll and never mentioned again.\<close>

fun callback_addr :: "callback \<Rightarrow> string" where
  "callback_addr (Added m) = address m"
| "callback_addr (Removed m) = address m"

lemma poll_step_steady:
  assumes "a \<in> addresses prev" "a \<in> addresses e"
  shows "\<forall>c \<in> set (fst (poll_step prev e)). callback_addr c \<noteq> a"
  using assms by (auto simp: poll_step_def compute_diff_def addresses_def Let_def image_iff)

lemma run_steps_steady:
  assumes "\<forall>e \<in> set es. a \<in> addresses e" "a \<in> addresses prev"
  shows "\<forall>c \<in> set (fst (run_steps poll_step prev es)). callback_addr c \<noteq> a"
  using assms
proof (induction es arbitrary: prev)
  case Nil
  then show ?case by simp
next
  case (Cons e es)
  have "snd (poll_step prev e) = e"
    by (simp add: poll_step_def split_def Let_def)
  then show ?case
    using Cons.IH [of e] Cons.prems poll_step_steady [of a prev e] by (auto simp: split_def Let_def)
qed

lemma poll_step_gone:
  assumes "distinct_addrs prev" "a \<in> addresses prev" "a \<notin> addresses e"
  obtains m where "address m = a" "filter (\<lambda>c. callback_addr c = a) (fst (poll_step prev e)) = [Removed m]"
proof -
  obtain m where m: "m \<in> set prev" "address m = a"
    using assms(2) by (auto simp: addresses_def)
  have "filter (\<lambda>c. callback_addr c = a) (map Added (filter (\<lambda>m. address m \<notin> address ` set prev) e)) = []"
    using assms(3) by (auto simp: filter_empty_conv addresses_def)
  moreover have "filter (\<lambda>m. address m = a) (filter (\<lambda>m. address m \<notin> address ` set e) prev) = [m]"
    using distinct_addrs_only [OF assms(1) m] assms(3)
    by (simp add: addresses_def) (metis (mono_tags, lifting) filter_cong)
  ultimately show thesis
    using m(2) by (intro that [of m])
      (simp_all add: poll_step_def compute_diff_def Let_def filter_map comp_def)
qed

lemma run_poll_append:
  "fst (run_steps poll_step prev (xs @ ys)) =
     fst (run_steps poll_step prev xs) @ fst (run_steps poll_step (last (prev # xs)) ys)"
proof (induction xs arbitrary: prev)
  case Nil
  then show ?case by simp
next
  case (Cons x xs)
  have "snd (poll_step prev x) = x"
    by (simp add: poll_step_def split_def Let_def)
  then show ?case
    using Cons.IH [of x] by (simp add: split_def Let_def)
qed

lemma polled_append: "polled (ps @ ending) = polled ps \<or> polled (ps @ ending) = polled ps @ polled ending"
  by (induction ps) (auto split: sum.split)

text \<open>
  A device that every pass but perhaps the last finds: added once, and removed only by a last pass
  that returns without it.
\<close>

lemma poll_watch_steady:
  assumes "\<not> callback_raised (snd (poll_watch raises [] [] (ps @ ending)))" "polled ps = e # es"
    and "\<forall>ms \<in> set (e # es). a \<in> addresses ms \<and> distinct_addrs ms" "length ending \<le> 1"
  obtains m where "m \<in> set e" "address m = a"
    "filter (\<lambda>c. callback_addr c = a) (fst (poll_watch raises [] [] (ps @ ending))) = [Added m] \<or>
     (\<exists>c ms m'. ending = [c] \<and> \<not> cancelled_at_top c \<and> tick c = Inr ms \<and> a \<notin> addresses ms \<and> address m' = a \<and>
        filter (\<lambda>c. callback_addr c = a) (fst (poll_watch raises [] [] (ps @ ending))) = [Added m, Removed m'])"
proof -
  let ?f = "filter (\<lambda>c. callback_addr c = a)" and ?prev = "last (e # es)"
  obtain m where m: "m \<in> set e" "address m = a"
    using assms(3) by (auto simp: addresses_def)
  have first: "poll_step [] e = (map Added e, e)"
    by (simp add: poll_step_def compute_diff_def)
  have "?f (fst (run_steps poll_step e es)) = []"
    using run_steps_steady [of es a e] assms(3) by (simp add: filter_empty_conv)
  moreover have "?f (map Added e) = map Added (filter (\<lambda>m. address m = a) e)"
    by (simp add: filter_map comp_def)
  moreover have "filter (\<lambda>m. address m = a) e = [m]"
    using assms(3) m by (intro distinct_addrs_only) simp_all
  ultimately have steady: "?f (fst (run_steps poll_step [] (e # es))) = [Added m]"
    using first by (simp add: split_def Let_def)
  have log: "fst (poll_watch raises [] [] (ps @ ending)) = fst (run_steps poll_step [] (polled (ps @ ending)))"
    using poll_watch_log [of raises "[]" "[]" "ps @ ending"] assms(1) by simp
  show thesis
  proof (cases "polled (ps @ ending) = polled ps")
    case True
    then show thesis
      using that [OF m] log steady assms(2) by simp
  next
    case False
    then have run: "polled (ps @ ending) = (e # es) @ polled ending" "polled ending \<noteq> []"
      using polled_append [of ps ending] assms(2) by auto
    then obtain c where c: "ending = [c]"
      using assms(4) by (cases ending) auto
    then obtain ms where ms: "\<not> cancelled_at_top c" "tick c = Inr ms" "polled ending = [ms]"
      using run(2) by (cases "tick c") (auto split: if_splits)
    have final: "?f (fst (poll_watch raises [] [] (ps @ ending))) = Added m # ?f (fst (poll_step ?prev ms))"
      unfolding log run(1) run_poll_append filter_append steady by (simp add: ms(3) split_def Let_def)
    have prev: "a \<in> addresses ?prev" "distinct_addrs ?prev"
      using assms(3) last_in_set [of "e # es"] by auto
    show thesis
    proof (cases "a \<in> addresses ms")
      case True
      then show thesis
        using that [OF m] final poll_step_steady [OF prev(1) True] by (simp add: filter_empty_conv)
    next
      case False
      obtain m' where "address m' = a" "?f (fst (poll_step ?prev ms)) = [Removed m']"
        using prev(2,1) False by (rule poll_step_gone)
      then show thesis
        using that [OF m] final c ms False by auto
    qed
  qed
qed

text \<open>A pass that is cut short is compared like any other: what it did not get to is reported removed.\<close>

lemma poll_watch_lost:
  "poll_watch (\<lambda>_. None) [] []
     [\<lparr>cancelled_at_top = False, tick = Inr e, sleep_reads = [False]\<rparr>,
      \<lparr>cancelled_at_top = False, tick = Inr [], sleep_reads = [True]\<rparr>] =
     (map Added e @ map Removed e, Stopped)"
  by (simp add: compute_diff_def fire_quiet)

lemma legal_log_prefix:
  "prefix xs ys \<Longrightarrow> legal_log legal upd v ys \<Longrightarrow> legal_log legal upd v xs"
  by (auto simp: prefix_def legal_log_append)

lemma polled_ticks: "ms \<in> set (polled ps) \<Longrightarrow> \<exists>p \<in> set ps. tick p = Inr ms"
  by (induction ps) (auto split: if_splits sum.splits)

lemma poll_watch_legal:
  assumes "\<forall>p \<in> set ps. \<forall>ms. tick p = Inr ms \<longrightarrow> distinct_addrs ms"
  shows "legal_log fresh_addr know_addr {} (fst (poll_watch raises [] [] ps))"
proof -
  obtain cbs s' where r: "run_steps poll_step [] (polled ps) = (cbs, s')" by force
  have "\<forall>ms \<in> set (polled ps). distinct_addrs ms"
    using assms polled_ticks by blast
  moreover have "distinct_addrs []"
    by (simp add: distinct_addrs_def)
  ultimately have "legal_log fresh_addr know_addr (addresses []) (fst (run_steps poll_step [] (polled ps)))"
    using poll_feed.run_view_legal [OF _ _ r] r by simp
  moreover have "prefix (fst (poll_watch raises [] [] ps)) (fst (run_steps poll_step [] (polled ps)))"
    using poll_watch_log [of raises "[]" "[]" ps] by simp
  ultimately show ?thesis
    by (simp add: legal_log_prefix addresses_def)
qed

text \<open>
  When no discovery pass reports one address twice, the callbacks of a run, raising or not,
  never contradict each other: an address is added only while absent and removed only while
  present.
\<close>

theorem poll_watch_alternates:
  assumes "\<forall>p \<in> set ps. \<forall>ms. tick p = Inr ms \<longrightarrow> distinct_addrs ms"
  shows "legal_log fresh_addr know_addr {} (fst (poll_watch raises [] [] ps))"
  using assms by (rule poll_watch_legal)

theorem poll_watch_alternates_witness:
  "legal_log fresh_addr know_addr {} (fst (poll_watch (\<lambda>_. None) [] [] sample_polls))"
proof (rule poll_watch_alternates)
  show "\<forall>p \<in> set sample_polls. \<forall>ms. tick p = Inr ms \<longrightarrow> distinct_addrs ms"
    by (simp add: sample_polls_def distinct_addrs_def sample_match_def device_match_new_def)
qed

lemma poll_watch_cut:
  assumes "cancelled_at_top p \<or> True \<in> set (sleep_reads p)"
  shows "poll_watch raises prev log (ps @ p # qs) = poll_watch raises prev log (ps @ [p])"
proof (induction ps arbitrary: prev log)
  case Nil
  show ?case using assms by (cases "cancelled_at_top p") (simp_all split: sum.split option.split prod.split)
next
  case (Cons a ps)
  then show ?case by (simp split: sum.split option.split prod.split)
qed

lemma poll_watch_cut_ends:
  assumes "cancelled_at_top p \<or> True \<in> set (sleep_reads p)"
  shows "snd (poll_watch raises prev log (ps @ [p])) \<noteq> StillRunning"
proof (induction ps arbitrary: prev log)
  case Nil
  show ?case using assms by (auto split: sum.split option.split prod.split)
next
  case (Cons a ps)
  then show ?case by (simp split: sum.split option.split prod.split)
qed

text \<open>
  The polling watcher stops at the first turn in which it reads the token as set: nothing
  that would come later is looked at, so there is no later pass and no later callback.
\<close>

theorem poll_watch_stops:
  assumes "cancelled_at_top p \<or> True \<in> set (sleep_reads p)"
  shows "poll_watch raises prev log (ps @ p # qs) = poll_watch raises prev log (ps @ [p]) \<and>
    snd (poll_watch raises prev log (ps @ p # qs)) \<noteq> StillRunning"
  unfolding poll_watch_cut [OF assms, of raises prev log ps qs]
  using poll_watch_cut_ends [OF assms] by simp

theorem poll_watch_stops_witness:
  "fst (poll_watch (\<lambda>_. None) [] [] (sample_polls @ sample_polls)) =
   fst (poll_watch (\<lambda>_. None) [] [] sample_polls)"
  using poll_watch_stops [of "sample_polls ! 1" "\<lambda>_. None" "[]" "[]" "[sample_polls ! 0]" sample_polls]
  by (simp add: sample_polls_def)

section \<open>Streaming\<close>

lemma stream_calls_eq:
  "stream_calls raises log ms =
     (case find (\<lambda>i. raises i \<noteq> None) [length log..<length log + length ms] of
        None \<Rightarrow> (log @ ms, None)
      | Some i \<Rightarrow> (log @ take (Suc i - length log) ms, Some (CallbackError (the (raises i)))))"
proof (induction raises log ms rule: stream_calls.induct)
  case (1 raises log)
  then show ?case by simp
next
  case (2 raises log m ms)
  have up: "[length log..<length log + length (m # ms)] =
      length log # [Suc (length log)..<Suc (length log) + length ms]"
    by (simp add: upt_conv_Cons del: upt_Suc)
  show ?case
  proof (cases "raises (length log)")
    case None
    have "take (Suc i - length log) (m # ms) = m # take (i - length log) ms"
      if "find (\<lambda>i. raises i \<noteq> None) [Suc (length log)..<Suc (length log) + length ms] = Some i" for i
    proof -
      have "i \<in> set [Suc (length log)..<Suc (length log) + length ms]"
        using that by (metis find_Some_iff nth_mem)
      then show ?thesis by (simp add: Suc_diff_le del: upt_Suc)
    qed
    with None 2 show ?thesis
      unfolding up by (auto split: option.splits)
  next
    case (Some e)
    then show ?thesis unfolding up by simp
  qed
qed

text \<open>
  \<open>run_streaming\<close> calls the callback once per match of a successful discovery, in its order,
  and returns them all; a failed discovery calls nothing; the first invocation that raises is the
  last one and its exception is the result.
\<close>

theorem run_streaming_exact:
  "run_streaming raises discover =
     (case discover of
        Inl e \<Rightarrow> ([], Inl e)
      | Inr ms \<Rightarrow>
          (case find (\<lambda>i. raises i \<noteq> None) [0..<length ms] of
             None \<Rightarrow> (ms, Inr ms)
           | Some i \<Rightarrow> (take (Suc i) ms, Inl (CallbackError (the (raises i))))))"
  by (auto simp: run_streaming_def stream_calls_eq split: sum.splits option.splits)

end
