(* ===== verification/Usb.thy ===== *)
theory Usb
  imports Watch
begin

text \<open>
  \<open>src/usb/mod.rs\<close>: filtering the devices of the bus, the match built for a device, the one-shot
  discovery and the watcher, whose background thread passes hot-plug events to the Python thread
  through a bounded channel.  The operating system's device list and event stream (\<open>nusb\<close>) are
  arguments.
\<close>

section \<open>Devices and filters\<close>

text \<open>What \<open>nusb::DeviceInfo\<close> tells about a device.\<close>

record usb_device =
  dev_id :: nat
  dev_vendor :: u16
  dev_product :: u16
  dev_manufacturer_string :: "string option"
  dev_product_string :: "string option"
  dev_serial_number :: "string option"
  dev_class :: u8

record usb_discovery =
  ud_vid :: "u16 option"
  ud_pid :: "u16 option"
  ud_manufacturer :: "string option"
  ud_product_string :: "string option"
  ud_serial_number :: "string option"
  ud_device_class :: "u8 option"
  ud_token :: "token option"

text \<open>\<open>UsbDiscovery::new\<close>, and the object of a call without arguments.\<close>

definition ud_new ::
  "u16 option \<Rightarrow> u16 option \<Rightarrow> string option \<Rightarrow> string option \<Rightarrow> string option \<Rightarrow> u8 option \<Rightarrow>
   token option \<Rightarrow> usb_discovery" where
  "ud_new vid pid manufacturer product_string serial_number device_class cancellation_token =
     \<lparr>ud_vid = vid, ud_pid = pid, ud_manufacturer = manufacturer, ud_product_string = product_string,
      ud_serial_number = serial_number, ud_device_class = device_class,
      ud_token = cancellation_token\<rparr>"

definition ud_default :: usb_discovery where
  "ud_default = ud_new None None None None None None None"

text \<open>\<open>o.is_some_and(p)\<close>.\<close>

definition is_some_and :: "'a option \<Rightarrow> ('a \<Rightarrow> bool) \<Rightarrow> bool" where
  "is_some_and x p = (case x of None \<Rightarrow> False | Some a \<Rightarrow> p a)"

definition apply_filters ::
  "usb_device \<Rightarrow> u16 option \<Rightarrow> u16 option \<Rightarrow> string option \<Rightarrow> string option \<Rightarrow> string option \<Rightarrow>
   u8 option \<Rightarrow> bool" where
  "apply_filters d vid pid mfg_f prod_f sn_f class_f =
     (if is_some_and vid (\<lambda>v. dev_vendor d \<noteq> v) then False
      else if is_some_and pid (\<lambda>p. dev_product d \<noteq> p) then False
      else if is_some_and mfg_f
                (\<lambda>f. \<not> is_some_and (dev_manufacturer_string d) (\<lambda>m. str_contains f m)) then False
      else if is_some_and prod_f
                (\<lambda>f. \<not> is_some_and (dev_product_string d) (\<lambda>p. str_contains f p)) then False
      else if is_some_and sn_f
                (\<lambda>f. \<not> is_some_and (dev_serial_number d) (\<lambda>s. str_contains f s)) then False
      else if is_some_and class_f (\<lambda>c. dev_class d \<noteq> c) then False
      else True)"

definition set_opt :: "string \<Rightarrow> string option \<Rightarrow> str_map \<Rightarrow> str_map" where
  "set_opt k x m = (case x of None \<Rightarrow> m | Some v \<Rightarrow> m(k \<mapsto> v))"

definition usb_address :: "usb_device \<Rightarrow> string" where
  "usb_address d =
     (case dev_serial_number d of
        None \<Rightarrow> fmt_06x (dev_vendor d) @ '':'' @ fmt_06x (dev_product d)
      | Some sn \<Rightarrow> fmt_06x (dev_vendor d) @ '':'' @ fmt_06x (dev_product d) @ '':'' @ sn)"

definition build_device_match :: "usb_device \<Rightarrow> device_match" where
  "build_device_match d =
     (let i = Map.empty(''vendor_id'' \<mapsto> fmt_06x (dev_vendor d));
          i = i(''product_id'' \<mapsto> fmt_06x (dev_product d));
          i = i(''device_class'' \<mapsto> show_dec (unat (dev_class d)));
          i = set_opt ''manufacturer'' (dev_manufacturer_string d) i;
          i = set_opt ''product'' (dev_product_string d) i;
          i = set_opt ''serial_number'' (dev_serial_number d) i
      in \<lparr>transport = Usb, address = usb_address d, response = None, info = i\<rparr>)"

definition passes :: "usb_discovery \<Rightarrow> usb_device \<Rightarrow> bool" where
  "passes self d =
     apply_filters d (ud_vid self) (ud_pid self) (ud_manufacturer self) (ud_product_string self)
       (ud_serial_number self) (ud_device_class self)"

section \<open>One-shot discovery\<close>

text \<open>\<open>listing\<close> is the result of \<open>nusb::list_devices\<close>: the error's text or the devices.\<close>

definition usb_discover ::
  "usb_discovery \<Rightarrow> string + usb_device list \<Rightarrow> py_err + device_match list" where
  "usb_discover self listing =
     (case listing of
        Inl e \<Rightarrow> Inl (error_to_pyerr (UsbErr e))
      | Inr devices \<Rightarrow> Inr (map build_device_match (filter (passes self) devices)))"

definition usb_discover_async ::
  "usb_discovery \<Rightarrow> string + usb_device list \<Rightarrow> py_err + device_match list" where
  "usb_discover_async self listing =
     (case map_sum (\<lambda>e. error_to_pyerr (UsbErr e)) id listing of
        Inl e \<Rightarrow> Inl e
      | Inr devices \<Rightarrow> Inr (map build_device_match (filter (passes self) devices)))"

definition usb_discover_streaming ::
  "usb_discovery \<Rightarrow> (nat \<Rightarrow> string option) \<Rightarrow> string + usb_device list \<Rightarrow>
   device_match list \<times> (py_err + device_match list)" where
  "usb_discover_streaming self raises listing = run_streaming raises (usb_discover self listing)"

section \<open>Watching\<close>

datatype hotplug = Connected usb_device | Disconnected nat

text \<open>
  \<open>tracked\<close>, the \<open>HashMap\<close> from device ids to matches, is an association list with one entry per
  id; the order of its entries carries no meaning, and iterating it picks an arbitrary order.
\<close>

type_synonym tracked = "(nat \<times> device_match) list"

text \<open>Collecting pairs into the \<open>HashMap\<close>: a later pair replaces an earlier one.\<close>

definition collect_tracked :: "(nat \<times> device_match) list \<Rightarrow> tracked" where
  "collect_tracked ps = fold (\<lambda>(k, v) t. AList.update k v t) ps []"

definition initial_tracked :: "usb_discovery \<Rightarrow> string + usb_device list \<Rightarrow> tracked" where
  "initial_tracked self listing =
     (case listing of
        Inl _ \<Rightarrow> []
      | Inr devices \<Rightarrow>
          collect_tracked (map (\<lambda>d. (dev_id d, build_device_match d)) (filter (passes self) devices)))"

fun usb_step :: "usb_discovery \<Rightarrow> tracked \<Rightarrow> hotplug \<Rightarrow> callback list \<times> tracked" where
  "usb_step self t (Connected d) =
     (if \<not> passes self d then ([], t)
      else (case map_of t (dev_id d) of
              Some _ \<Rightarrow> ([], t)
            | None \<Rightarrow>
                (let m = build_device_match d in ([Added m], AList.update (dev_id d) m t))))"
| "usb_step self t (Disconnected k) =
     (case map_of t k of
        None \<Rightarrow> ([], t)
      | Some m \<Rightarrow> ([Removed m], AList.delete k t))"

text \<open>
  One turn of the event loop: the token read at its top and what \<open>recv_timeout\<close> returns.
\<close>

datatype received = Event hotplug | RecvTimeout | RecvDisconnected

record usb_turn =
  cancelled :: bool
  received :: received

fun usb_loop ::
  "usb_discovery \<Rightarrow> (nat \<Rightarrow> string option) \<Rightarrow> tracked \<Rightarrow> callback list \<Rightarrow> usb_turn list \<Rightarrow>
   callback list \<times> watch_end" where
  "usb_loop self raises t log [] = (log, StillRunning)"
| "usb_loop self raises t log (u # us) =
     (if cancelled u then (log, Stopped)
      else (case received u of
              RecvTimeout \<Rightarrow> usb_loop self raises t log us
            | RecvDisconnected \<Rightarrow> (log, Stopped)
            | Event ev \<Rightarrow>
                (let (cbs, t') = usb_step self t ev
                 in (case fire raises log cbs of
                       (log', Some e) \<Rightarrow> (log', Failed e)
                     | (log', None) \<Rightarrow> usb_loop self raises t' log' us))))"

text \<open>
  The whole of \<open>watch\<close>: \<open>starting\<close> is the error of \<open>nusb::watch_devices\<close>, if any, and \<open>order\<close> the
  iteration order of the initial map.
\<close>

definition usb_watch ::
  "usb_discovery \<Rightarrow> (nat \<Rightarrow> string option) \<Rightarrow> string option \<Rightarrow> string + usb_device list \<Rightarrow>
   nat list \<Rightarrow> usb_turn list \<Rightarrow> callback list \<times> watch_end" where
  "usb_watch self raises starting listing order turns =
     (case ud_token self of
        None \<Rightarrow> ([], Failed (PyValueError ''UsbDiscovery.watch() requires a cancellation_token''))
      | Some _ \<Rightarrow>
          (case starting of
             Some e \<Rightarrow> ([], Failed (error_to_pyerr (UsbErr e)))
           | None \<Rightarrow>
               (let t = initial_tracked self listing
                in (case fire raises [] (map Added (pick_order order (map snd t))) of
                      (log, Some e) \<Rightarrow> (log, Failed e)
                    | (log, None) \<Rightarrow> usb_loop self raises t log turns))))"

section \<open>Facts about filters and matches\<close>

lemma is_some_and_iff [simp]: "is_some_and x p \<longleftrightarrow> (\<exists>a. x = Some a \<and> p a)"
  by (cases x) (auto simp: is_some_and_def)

lemma apply_filters_iff:
  "apply_filters d vid pid mfg prd sn cls \<longleftrightarrow>
     (\<forall>v. vid = Some v \<longrightarrow> dev_vendor d = v) \<and>
     (\<forall>p. pid = Some p \<longrightarrow> dev_product d = p) \<and>
     (\<forall>f. mfg = Some f \<longrightarrow> (\<exists>s. dev_manufacturer_string d = Some s \<and> sublist f s)) \<and>
     (\<forall>f. prd = Some f \<longrightarrow> (\<exists>s. dev_product_string d = Some s \<and> sublist f s)) \<and>
     (\<forall>f. sn = Some f \<longrightarrow> (\<exists>s. dev_serial_number d = Some s \<and> sublist f s)) \<and>
     (\<forall>c. cls = Some c \<longrightarrow> dev_class d = c)"
  unfolding apply_filters_def str_contains_iff [symmetric] by auto

lemma set_opt_lookup [simp]:
  "set_opt k x m k' = (if k = k' \<and> x \<noteq> None then x else m k')"
  by (auto simp: set_opt_def split: option.split)

lemma usb_match_fields [simp]:
  "transport (build_device_match d) = Usb"
  "address (build_device_match d) = usb_address d"
  "response (build_device_match d) = None"
  by (simp_all add: build_device_match_def Let_def)

lemma usb_match_info:
  "info (build_device_match d) ''device_class'' = Some (show_dec (unat (dev_class d)))"
  "info (build_device_match d) ''serial_number'' = dev_serial_number d"
  by (auto simp: build_device_match_def Let_def)

lemma fmt_06x_no_colon: "CHR '':'' \<notin> set (fmt_06x w)"
  using hex_pad_no_char [of "CHR '':''" 4 "unat w"] by (simp add: fmt_06x_def)

lemma trim_fmt_06x: "trim_start_0x (fmt_06x w) = hex_pad 4 (unat w)"
proof -
  have "CHR ''x'' \<notin> set (hex_pad 4 (unat w))"
    by (rule hex_pad_no_char) simp
  then show ?thesis
    by (simp add: fmt_06x_def trim_start_0x_id)
qed

lemma u16_fmt_06x: "u16_from_str 16 (trim_start_0x (fmt_06x w)) = Some w"
  by (simp add: trim_fmt_06x u16_hex_pad)

definition serial_suffix :: "usb_device \<Rightarrow> string" where
  "serial_suffix d = (case dev_serial_number d of None \<Rightarrow> [] | Some sn \<Rightarrow> '':'' @ sn)"

lemma usb_address_eq:
  "usb_address d = fmt_06x (dev_vendor d) @ '':'' @ fmt_06x (dev_product d) @ serial_suffix d"
  by (simp add: usb_address_def serial_suffix_def split: option.split)

lemma vendor_id_built: "vendor_id (build_device_match d) = Some (dev_vendor d)"
  by (simp add: vendor_id_def usb_address_eq split_once_sep [OF fmt_06x_no_colon, simplified] u16_fmt_06x)

lemma splitn_usb_address:
  "\<exists>rest. splitn 3 (CHR '':'') (usb_address d) = fmt_06x (dev_vendor d) # fmt_06x (dev_product d) # rest"
  by (cases "dev_serial_number d")
    (auto simp: usb_address_eq serial_suffix_def numeral_3_eq_3 split_once_none fmt_06x_no_colon
      split_once_sep [OF fmt_06x_no_colon, simplified])

lemma product_id_built: "product_id (build_device_match d) = Some (dev_product d)"
proof -
  obtain rest where
    "splitn 3 (CHR '':'') (usb_address d) = fmt_06x (dev_vendor d) # fmt_06x (dev_product d) # rest"
    using splitn_usb_address by blast
  then show ?thesis
    by (simp add: product_id_def u16_fmt_06x)
qed

lemma is_hid_built: "is_hid (build_device_match d) \<longleftrightarrow> dev_class d = 3"
  by (simp add: is_hid_def usb_match_info u8_show_dec)

text \<open>
  The match of a USB device identifies it: the getters parse the vendor id, the product id
  and the HID flag back from the printed fields, whatever the serial number contains, and the bus
  arguments are exactly the vendor, the product and the serial number if there is one.
\<close>

theorem usb_match_identity:
  "vendor_id (build_device_match d) = Some (dev_vendor d) \<and>
   product_id (build_device_match d) = Some (dev_product d) \<and>
   is_hid (build_device_match d) = (dev_class d = 3) \<and>
   bus_params (build_device_match d) =
     [(''vendor'', PyInt (uint (dev_vendor d))), (''product'', PyInt (uint (dev_product d)))] @
     (case dev_serial_number d of None \<Rightarrow> [] | Some sn \<Rightarrow> [(''serial_number'', PyStr sn)])"
  by (simp add: vendor_id_built product_id_built is_hid_built bus_params_usb usb_match_info)

lemma opt_value: "(\<forall>v. x = Some v \<longrightarrow> d = v) \<longleftrightarrow> x \<in> {None, Some d}"
  by (cases x) auto

lemma opt_substring:
  "(\<forall>f. x = Some f \<longrightarrow> (\<exists>s. y = Some s \<and> sublist f s)) \<longleftrightarrow>
     (x \<noteq> None \<longrightarrow> y \<noteq> None \<and> sublist (the x) (the y))"
  by (cases x; cases y) auto

text \<open>
  Discovery answers with one match per device of the list that satisfies every filter, in the
  order of the list, and the asynchronous variant answers the same; it fails exactly when the
  list cannot be read, as a runtime error with the system's text.  The string filters ask for a
  substring of a string the device has.
\<close>

theorem usb_discover_exact:
  "usb_discover self listing =
     (case listing of
        Inl e \<Rightarrow> Inl (PyRuntimeError e)
      | Inr ds \<Rightarrow> Inr (map build_device_match
          [d \<leftarrow> ds. ud_vid self \<in> {None, Some (dev_vendor d)} \<and>
                   ud_pid self \<in> {None, Some (dev_product d)} \<and>
                   ud_device_class self \<in> {None, Some (dev_class d)} \<and>
                   (\<forall>(f, s) \<in> {(ud_manufacturer self, dev_manufacturer_string d),
                              (ud_product_string self, dev_product_string d),
                              (ud_serial_number self, dev_serial_number d)}.
                      f \<noteq> None \<longrightarrow> s \<noteq> None \<and> sublist (the f) (the s))])) \<and>
   usb_discover_async self listing = usb_discover self listing"
proof -
  have "passes self d \<longleftrightarrow>
      ud_vid self \<in> {None, Some (dev_vendor d)} \<and> ud_pid self \<in> {None, Some (dev_product d)} \<and>
      ud_device_class self \<in> {None, Some (dev_class d)} \<and>
      (\<forall>(f, s) \<in> {(ud_manufacturer self, dev_manufacturer_string d),
                 (ud_product_string self, dev_product_string d),
                 (ud_serial_number self, dev_serial_number d)}.
         f \<noteq> None \<longrightarrow> s \<noteq> None \<and> sublist (the f) (the s))" for d
    unfolding passes_def apply_filters_iff opt_value opt_substring by simp blast
  then have "passes self = (\<lambda>d.
      ud_vid self \<in> {None, Some (dev_vendor d)} \<and> ud_pid self \<in> {None, Some (dev_product d)} \<and>
      ud_device_class self \<in> {None, Some (dev_class d)} \<and>
      (\<forall>(f, s) \<in> {(ud_manufacturer self, dev_manufacturer_string d),
                 (ud_product_string self, dev_product_string d),
                 (ud_serial_number self, dev_serial_number d)}.
         f \<noteq> None \<longrightarrow> s \<noteq> None \<and> sublist (the f) (the s)))"
    by (rule ext)
  then show ?thesis
    by (cases listing) (simp_all add: usb_discover_def usb_discover_async_def)
qed

definition sample_usb :: usb_device where
  "sample_usb =
     \<lparr>dev_id = 1, dev_vendor = 0x1234, dev_product = 0x5678, dev_manufacturer_string = Some ''Acme'',
      dev_product_string = None, dev_serial_number = Some ''A:1'', dev_class = 3\<rparr>"

text \<open>An object built without arguments reports every device.\<close>

lemma ud_default_all:
  "usb_discover ud_default (Inr ds) = Inr (map build_device_match ds)"
  by (simp add: usb_discover_def ud_default_def ud_new_def passes_def apply_filters_def)

definition any_usb :: "token option \<Rightarrow> usb_discovery" where
  "any_usb t =
     \<lparr>ud_vid = None, ud_pid = None, ud_manufacturer = None, ud_product_string = None,
      ud_serial_number = None, ud_device_class = None, ud_token = t\<rparr>"

theorem usb_discover_exact_witness:
  "usb_discover ((any_usb None)\<lparr>ud_manufacturer := Some ''cm''\<rparr>)
     (Inr [sample_usb, sample_usb\<lparr>dev_manufacturer_string := None\<rparr>]) =
   Inr [build_device_match sample_usb]"
proof -
  have "sublist ''cm'' ''Acme''"
    by (simp add: str_contains_iff [symmetric])
  then show ?thesis
    using usb_discover_exact [of "(any_usb None)\<lparr>ud_manufacturer := Some ''cm''\<rparr>"
        "Inr [sample_usb, sample_usb\<lparr>dev_manufacturer_string := None\<rparr>]"]
    by (simp add: any_usb_def sample_usb_def)
qed

section \<open>The watcher keeps the contract\<close>

text \<open>What the receiver of the callbacks knows is a multiset of matches.\<close>

fun know_match :: "callback \<Rightarrow> device_match multiset \<Rightarrow> device_match multiset" where
  "know_match (Added m) M = add_mset m M"
| "know_match (Removed m) M = M - {#m#}"

fun known_match :: "callback \<Rightarrow> device_match multiset \<Rightarrow> bool" where
  "known_match (Added m) M = True"
| "known_match (Removed m) M = (m \<in># M)"

definition tracked_matches :: "tracked \<Rightarrow> device_match multiset" where
  "tracked_matches t = mset (map snd t)"

definition tracked_ok :: "tracked \<Rightarrow> bool" where
  "tracked_ok t = distinct (map fst t)"

lemma tracked_matches_update:
  "map_of t k = None \<Longrightarrow> tracked_matches (AList.update k m t) = add_mset m (tracked_matches t)"
  by (induction t) (auto simp: tracked_matches_def split: if_splits)

lemma tracked_matches_delete:
  assumes "tracked_ok t" "map_of t k = Some m"
  shows "tracked_matches t = add_mset m (tracked_matches (AList.delete k t))"
  using assms
proof (induction t)
  case Nil
  then show ?case by simp
next
  case (Cons p t)
  show ?case
  proof (cases "fst p = k")
    case True
    then have "AList.delete k t = t"
      using Cons.prems(1) True by (auto simp: AList.delete_eq tracked_ok_def filter_id_conv image_iff)
    then show ?thesis
      using Cons.prems True by (auto simp: tracked_matches_def)
  next
    case False
    then show ?thesis
      using Cons by (auto simp: tracked_matches_def tracked_ok_def)
  qed
qed

lemma tracked_ok_update: "tracked_ok t \<Longrightarrow> tracked_ok (AList.update k m t)"
  by (simp add: tracked_ok_def distinct_update)

lemma tracked_ok_delete: "tracked_ok t \<Longrightarrow> tracked_ok (AList.delete k t)"
  by (simp add: tracked_ok_def distinct_delete)

lemma usb_step_keeps:
  assumes "tracked_ok t" "usb_step self t e = (cbs, t')"
  shows "fold know_match cbs (tracked_matches t) = tracked_matches t' \<and>
    legal_log known_match know_match (tracked_matches t) cbs \<and> tracked_ok t'"
proof (cases e)
  case (Connected d)
  then show ?thesis
    using assms
    by (auto simp: Let_def tracked_matches_update tracked_ok_update split: if_splits option.splits)
next
  case (Disconnected k)
  then show ?thesis
    using assms tracked_matches_delete [OF assms(1), of k]
    by (auto simp: tracked_ok_delete split: option.splits)
qed

interpretation usb_feed: callback_feed "usb_step self" tracked_matches know_match known_match
    tracked_ok "\<lambda>_. True" for self
  by unfold_locales (use usb_step_keeps in blast)+

section \<open>Runs of the event loop\<close>

text \<open>The events a run takes from the channel, as long as no callback raises.\<close>

fun taken :: "usb_turn list \<Rightarrow> hotplug list" where
  "taken [] = []"
| "taken (u # us) =
     (if cancelled u then []
      else (case received u of
              RecvTimeout \<Rightarrow> taken us
            | RecvDisconnected \<Rightarrow> []
            | Event ev \<Rightarrow> ev # taken us))"

lemma usb_loop_log:
  "prefix (fst (usb_loop self raises t log us)) (log @ fst (run_steps (usb_step self) t (taken us))) \<and>
   (\<not> callback_raised (snd (usb_loop self raises t log us)) \<longrightarrow>
     fst (usb_loop self raises t log us) = log @ fst (run_steps (usb_step self) t (taken us)))"
proof (induction us arbitrary: t log)
  case Nil
  then show ?case by simp
next
  case (Cons u us)
  show ?case
  proof (cases "cancelled u \<or> (\<forall>ev. received u \<noteq> Event ev)")
    case True
    then show ?thesis
      using Cons.IH [of t log] by (auto split: received.split)
  next
    case False
    then obtain ev where ev: "received u = Event ev" "\<not> cancelled u" by auto
    obtain cbs t' where st: "usb_step self t ev = (cbs, t')" by force
    obtain log' err where f: "fire raises log cbs = (log', err)" by force
    obtain k where k: "log' = log @ take k cbs" "err = None \<longrightarrow> k = length cbs"
      using fire_log [of raises log cbs] f by auto
    have run: "fst (run_steps (usb_step self) t (taken (u # us))) =
        cbs @ fst (run_steps (usb_step self) t' (taken us))"
      using ev st by (simp add: split_def Let_def)
    show ?thesis
    proof (cases err)
      case None
      then have "usb_loop self raises t log (u # us) = usb_loop self raises t' (log @ cbs) us"
        using ev st f k by simp
      then show ?thesis
        using Cons.IH [of t' "log @ cbs"] unfolding run by simp
    next
      case (Some e)
      then obtain msg where "e = CallbackError msg"
        using fire_error [of raises log cbs e] f by auto
      moreover have "prefix (take k cbs) (cbs @ xs)" for xs
        by (meson prefix_prefix take_is_prefix)
      moreover have "usb_loop self raises t log (u # us) = (log', Failed e)"
        using ev st f Some by simp
      ultimately show ?thesis
        unfolding run using k(1) by (simp add: callback_raised_def del: take_append)
    qed
  qed
qed

lemma fold_know_initial: "fold know_match (map Added ms) M = mset ms + M"
  by (induction ms arbitrary: M) auto

lemma legal_initial: "legal_log known_match know_match M (map Added ms)"
  by (induction ms arbitrary: M) auto

lemma collect_tracked_snoc: "collect_tracked (ps @ [(k, v)]) = AList.update k v (collect_tracked ps)"
  by (simp add: collect_tracked_def)

lemma collect_tracked_facts:
  "tracked_ok (collect_tracked ps) \<and> map_of (collect_tracked ps) = map_of (rev ps)"
  by (induction ps rule: rev_induct)
    (auto simp: collect_tracked_def tracked_ok_def distinct_update update_conv')

lemma initial_tracked_ok: "tracked_ok (initial_tracked self listing)"
  using collect_tracked_facts
  by (auto simp: initial_tracked_def tracked_ok_def split: sum.split)

text \<open>All callbacks a watch makes when none raises: the initial ones, then those of the events.\<close>

definition usb_callbacks :: "usb_discovery \<Rightarrow> string + usb_device list \<Rightarrow> nat list \<Rightarrow> hotplug list \<Rightarrow> callback list" where
  "usb_callbacks self listing order evs =
     (let t = initial_tracked self listing
      in map Added (pick_order order (map snd t)) @ fst (run_steps (usb_step self) t evs))"

definition tracked_after :: "usb_discovery \<Rightarrow> string + usb_device list \<Rightarrow> hotplug list \<Rightarrow> tracked" where
  "tracked_after self listing evs = snd (run_steps (usb_step self) (initial_tracked self listing) evs)"

lemma usb_watch_log:
  assumes "ud_token self = Some tok"
  shows "prefix (fst (usb_watch self raises None listing order turns))
           (usb_callbacks self listing order (taken turns)) \<and>
    (\<not> callback_raised (snd (usb_watch self raises None listing order turns)) \<longrightarrow>
      fst (usb_watch self raises None listing order turns) =
        usb_callbacks self listing order (taken turns))"
proof -
  let ?t = "initial_tracked self listing"
  let ?init = "map Added (pick_order order (map snd ?t))"
  obtain log err where f: "fire raises [] ?init = (log, err)" by force
  obtain k where k: "log = take k ?init" "err = None \<longrightarrow> k = length ?init"
    using fire_log [of raises "[]" ?init] f by auto
  show ?thesis
  proof (cases err)
    case None
    then have "usb_watch self raises None listing order turns = usb_loop self raises ?t ?init turns"
      using assms f k by (simp add: usb_watch_def Let_def)
    then show ?thesis
      using usb_loop_log [of self raises ?t ?init turns] by (simp add: usb_callbacks_def Let_def)
  next
    case (Some e)
    then obtain msg where "e = CallbackError msg"
      using fire_error [of raises "[]" ?init e] f by auto
    moreover have "prefix (take k ?init) (?init @ xs)" for xs
      by (meson prefix_prefix take_is_prefix)
    moreover have "usb_watch self raises None listing order turns = (log, Failed e)"
      using assms f Some by (simp add: usb_watch_def Let_def)
    ultimately show ?thesis
      using k(1) by (simp add: callback_raised_def usb_callbacks_def Let_def del: take_append)
  qed
qed

lemma usb_callbacks_facts:
  "fold know_match (usb_callbacks self listing order evs) {#} =
     tracked_matches (tracked_after self listing evs) \<and>
   legal_log known_match know_match {#} (usb_callbacks self listing order evs) \<and>
   tracked_ok (tracked_after self listing evs)"
proof -
  let ?t = "initial_tracked self listing"
  obtain cbs t' where r: "run_steps (usb_step self) ?t evs = (cbs, t')" by force
  have "fold know_match (map Added (pick_order order (map snd ?t))) {#} = tracked_matches ?t"
    by (simp add: fold_know_initial tracked_matches_def)
  then show ?thesis
    using usb_feed.run_view_legal [OF initial_tracked_ok _ r] r
    by (simp add: usb_callbacks_def tracked_after_def Let_def legal_log_append legal_initial)
qed

text \<open>
  The USB watcher tells the truth about the devices it tracks: applied to an empty multiset of
  matches, its callbacks yield exactly the tracked matches at the end, unless a callback raised;
  in every case no match is removed that was not added before.
\<close>

theorem usb_watch_reports:
  assumes "ud_token self = Some tok"
  shows "case usb_watch self raises None listing order turns of (log, e) \<Rightarrow>
    legal_log known_match know_match {#} log \<and>
    (\<not> callback_raised e \<longrightarrow>
      fold know_match log {#} = tracked_matches (tracked_after self listing (taken turns)))"
proof -
  obtain log e where w: "usb_watch self raises None listing order turns = (log, e)" by force
  have "prefix log (usb_callbacks self listing order (taken turns))"
    using usb_watch_log [OF assms, of raises listing order turns] w by simp
  then have "legal_log known_match know_match {#} log"
    using usb_callbacks_facts [of self listing order "taken turns"]
    by (simp add: legal_log_prefix)
  moreover have "\<not> callback_raised e \<Longrightarrow> log = usb_callbacks self listing order (taken turns)"
    using usb_watch_log [OF assms, of raises listing order turns] w by simp
  ultimately show ?thesis
    using usb_callbacks_facts [of self listing order "taken turns"] w by simp
qed

definition sample_turns :: "usb_turn list" where
  "sample_turns =
     [\<lparr>cancelled = False, received = RecvTimeout\<rparr>,
      \<lparr>cancelled = False, received = Event (Disconnected 1)\<rparr>,
      \<lparr>cancelled = False, received = Event (Connected (sample_usb\<lparr>dev_id := 2\<rparr>))\<rparr>,
      \<lparr>cancelled = True, received = RecvTimeout\<rparr>]"

lemma passes_any [simp]: "passes (any_usb t) d"
  by (simp add: passes_def any_usb_def apply_filters_iff)

theorem usb_watch_reports_witness:
  "legal_log known_match know_match {#}
     (fst (usb_watch (any_usb (Some 0)) (\<lambda>_. None) None (Inr [sample_usb]) [] sample_turns))"
  using usb_watch_reports [where self = "any_usb (Some 0)" and tok = 0 and raises = "\<lambda>_. None" and
    listing = "Inr [sample_usb]" and order = "[]" and turns = sample_turns]
  by (simp add: any_usb_def split_def)

section \<open>Agreement with the bus\<close>

text \<open>
  The specification side: the devices on the bus, by id, and what an event says about them.  The
  system announces a device only while its id is free, and its removal only while it is there.
\<close>

type_synonym bus = "nat \<rightharpoonup> usb_device"

fun bus_event :: "hotplug \<Rightarrow> bus \<Rightarrow> bus" where
  "bus_event (Connected d) b = b(dev_id d \<mapsto> d)"
| "bus_event (Disconnected k) b = b(k := None)"

fun bus_allows :: "bus \<Rightarrow> hotplug \<Rightarrow> bool" where
  "bus_allows b (Connected d) = (b (dev_id d) = None)"
| "bus_allows b (Disconnected k) = (b k \<noteq> None)"

fun plausible :: "bus \<Rightarrow> hotplug list \<Rightarrow> bool" where
  "plausible b [] = True"
| "plausible b (e # es) = (bus_allows b e \<and> plausible (bus_event e b) es)"

definition wanted :: "usb_discovery \<Rightarrow> usb_device option \<Rightarrow> device_match option" where
  "wanted self x = (case x of None \<Rightarrow> None
     | Some d \<Rightarrow> if passes self d then Some (build_device_match d) else None)"

lemma wanted_simps [simp]:
  "wanted self None = None"
  "wanted self (Some d) = (if passes self d then Some (build_device_match d) else None)"
  by (simp_all add: wanted_def)

lemma map_of_delete_if:
  "map_of (AList.delete k t) k' = (if k = k' then None else map_of t k')"
  by (simp add: delete_conv')

lemma usb_step_map:
  "map_of (snd (usb_step self t e)) k =
     (case e of
        Connected d \<Rightarrow> (if dev_id d = k \<and> map_of t k = None then wanted self (Some d) else map_of t k)
      | Disconnected k' \<Rightarrow> (if k' = k then None else map_of t k))"
  by (cases e) (auto simp: Let_def update_conv' map_of_delete_if split: option.split)

lemma run_steps_snd:
  "snd (run_steps step s (e # es)) = snd (run_steps step (snd (step s e)) es)"
  by (simp add: split_def Let_def)

lemma agree_in_step:
  assumes "plausible b es" "map_of t k = wanted self (b k)"
  shows "map_of (snd (run_steps (usb_step self) t es)) k = wanted self (fold bus_event es b k)"
  using assms
proof (induction es arbitrary: b t)
  case Nil
  then show ?case by simp
next
  case (Cons e es)
  have "map_of (snd (usb_step self t e)) k = wanted self (bus_event e b k)"
    using Cons.prems by (cases e) (auto simp: usb_step_map simp del: usb_step.simps)
  with Cons show ?case
    by (simp add: run_steps_snd del: run_steps.simps)
qed

text \<open>Events that a later snapshot has already taken into account do no harm.\<close>

lemma agree_ahead:
  assumes "plausible b es" "map_of t k = wanted self (fold bus_event es b k)"
  shows "map_of (snd (run_steps (usb_step self) t es)) k = wanted self (fold bus_event es b k)"
  using assms
proof (induction es arbitrary: b t)
  case Nil
  then show ?case by simp
next
  case (Cons e es)
  have pl: "plausible (bus_event e b) es"
    using Cons.prems(1) by simp
  have now: "map_of (snd (usb_step self t e)) k = wanted self (bus_event e b k) \<or>
      map_of (snd (usb_step self t e)) k = map_of t k"
    by (cases e) (auto simp: usb_step_map simp del: usb_step.simps)
  then show ?case
    using Cons.IH [OF pl] agree_in_step [OF pl] Cons.prems(2)
    by (auto simp: run_steps_snd simp del: run_steps.simps)
qed

lemma plausible_append:
  "plausible b (xs @ ys) \<longleftrightarrow> plausible b xs \<and> plausible (fold bus_event xs b) ys"
  by (induction xs arbitrary: b) auto

lemma run_steps_append_snd:
  "snd (run_steps step s (xs @ ys)) = snd (run_steps step (snd (run_steps step s xs)) ys)"
  by (induction xs arbitrary: s) (auto simp: run_steps_snd simp del: run_steps.simps(2))

definition lists_bus :: "usb_device list \<Rightarrow> bus \<Rightarrow> bool" where
  "lists_bus ds b = (distinct (map dev_id ds) \<and> map_of (map (\<lambda>d. (dev_id d, d)) ds) = b)"

lemma initial_tracked_map:
  assumes "lists_bus ds b"
  shows "map_of (initial_tracked self (Inr ds)) k = wanted self (b k)"
proof -
  let ?f = "\<lambda>d. (dev_id d, build_device_match d)"
  let ?ds = "filter (passes self) ds"
  have dist: "distinct (map fst (map ?f ?ds))"
    using assms by (simp add: lists_bus_def comp_def distinct_map_filter)
  have b: "b k = map_of (map (\<lambda>d. (dev_id d, d)) ds) k"
    using assms by (auto simp: lists_bus_def)
  have "map_of (rev (map ?f ?ds)) k = map_of (map ?f ?ds) k"
    using map_of_inject_set [of "rev (map ?f ?ds)" "map ?f ?ds"] dist by (simp add: rev_map [symmetric])
  also have "map_of (map ?f ?ds) k = wanted self (map_of (map (\<lambda>d. (dev_id d, d)) ds) k)"
    using assms [unfolded lists_bus_def, THEN conjunct1]
  proof (induction ds)
    case Nil
    then show ?case by simp
  next
    case (Cons d ds)
    then show ?case by (auto simp: map_of_eq_None_iff)
  qed
  finally show ?thesis
    using collect_tracked_facts by (simp add: initial_tracked_def b)
qed

lemma tracked_after_bus:
  assumes "plausible b0 (before @ later)" "lists_bus ds (fold bus_event before b0)"
  shows "map_of (tracked_after self (Inr ds) (before @ later)) k =
    wanted self (fold bus_event (before @ later) b0 k)"
proof -
  let ?t = "initial_tracked self (Inr ds)"
  have "map_of (snd (run_steps (usb_step self) ?t before)) k = wanted self (fold bus_event before b0 k)"
    using assms initial_tracked_map by (intro agree_ahead) (auto simp: plausible_append)
  then show ?thesis
    using assms agree_in_step [of "fold bus_event before b0" later]
    by (simp add: tracked_after_def run_steps_append_snd plausible_append)
qed

text \<open>
  C7.  The watcher converges to the bus, although the event stream starts before the list is read
  and events already visible in the list are delivered again: when it has taken all events,
  replaying its callbacks yields the matches of exactly the devices on the bus that pass the
  filters, one for each id.
\<close>

theorem usb_watch_converges:
  assumes "ud_token self = Some tok"
    and "plausible b0 (before @ later)"
    and "lists_bus ds (fold bus_event before b0)"
    and "taken turns = before @ later"
    and "usb_watch self raises None (Inr ds) order turns = (log, e)"
    and "\<not> callback_raised e"
  shows "\<exists>t. fold know_match log {#} = mset (map snd t) \<and> distinct (map fst t) \<and>
    (\<forall>k. map_of t k =
      (case fold bus_event (before @ later) b0 k of
         Some d \<Rightarrow> if passes self d then Some (build_device_match d) else None
       | None \<Rightarrow> None))"
proof (intro exI conjI allI)
  let ?t = "tracked_after self (Inr ds) (before @ later)"
  have log: "log = usb_callbacks self (Inr ds) order (before @ later)"
    using usb_watch_log [OF assms(1), of raises "Inr ds" order turns] assms(4-6) by simp
  show "fold know_match log {#} = mset (map snd ?t)"
    using usb_callbacks_facts [of self "Inr ds" order "before @ later"]
    by (simp add: log tracked_matches_def)
  show "distinct (map fst ?t)"
    using usb_callbacks_facts [of self "Inr ds" order "before @ later"]
    by (simp add: tracked_ok_def)
  show "map_of ?t k =
      (case fold bus_event (before @ later) b0 k of
         Some d \<Rightarrow> if passes self d then Some (build_device_match d) else None
       | None \<Rightarrow> None)" for k
    using tracked_after_bus [OF assms(2,3)] by (simp add: wanted_def)
qed

definition race_turns :: "usb_turn list" where
  "race_turns =
     [\<lparr>cancelled = False, received = Event (Connected sample_usb)\<rparr>,
      \<lparr>cancelled = False, received = Event (Connected (sample_usb\<lparr>dev_id := 2\<rparr>))\<rparr>,
      \<lparr>cancelled = False, received = Event (Disconnected 1)\<rparr>,
      \<lparr>cancelled = True, received = RecvTimeout\<rparr>]"

lemma race_run:
  "usb_watch (any_usb (Some 0)) (\<lambda>_. None) None (Inr [sample_usb]) [] race_turns =
     ([Added (build_device_match sample_usb), Added (build_device_match (sample_usb\<lparr>dev_id := 2\<rparr>)),
       Removed (build_device_match sample_usb)], Stopped)"
  by (simp add: usb_watch_def initial_tracked_def collect_tracked_def race_turns_def any_usb_def
      passes_any [unfolded any_usb_def] sample_usb_def Let_def)

theorem usb_watch_converges_witness:
  "\<exists>t :: tracked. fold know_match
        (fst (usb_watch (any_usb (Some 0)) (\<lambda>_. None) None (Inr [sample_usb]) [] race_turns)) {#} =
      mset (map snd t) \<and> distinct (map fst t) \<and>
      map_of t 2 = Some (build_device_match (sample_usb\<lparr>dev_id := 2\<rparr>)) \<and> map_of t 1 = None"
proof -
  let ?before = "[Connected sample_usb]"
  let ?later = "[Connected (sample_usb\<lparr>dev_id := 2\<rparr>), Disconnected 1]"
  have h: "plausible Map.empty (?before @ ?later)"
    "lists_bus [sample_usb] (fold bus_event ?before Map.empty)"
    "taken race_turns = ?before @ ?later" "\<not> callback_raised Stopped"
    "ud_token (any_usb (Some 0)) = Some 0"
    by (auto simp: sample_usb_def lists_bus_def race_turns_def callback_raised_def any_usb_def)
  obtain t where t: "fold know_match
        (fst (usb_watch (any_usb (Some 0)) (\<lambda>_. None) None (Inr [sample_usb]) [] race_turns)) {#} =
      mset (map snd t)" "distinct (map fst t)"
    "\<forall>k. map_of t k =
      (case fold bus_event (?before @ ?later) Map.empty k of
         Some d \<Rightarrow> if passes (any_usb (Some 0)) d then Some (build_device_match d) else None
       | None \<Rightarrow> None)"
    using usb_watch_converges [OF h(5) h(1) h(2) h(3) race_run h(4)]
    unfolding race_run fst_conv by blast
  have "map_of t 2 = Some (build_device_match (sample_usb\<lparr>dev_id := 2\<rparr>))" "map_of t 1 = None"
    using t(3) by (simp_all add: sample_usb_def)
  with t(1,2) show ?thesis by blast
qed

section \<open>The two threads and the channel between them\<close>

text \<open>
  The background thread moves events from the system's stream into a channel of capacity 64; the
  Python thread takes them out and handles them.  Both read the token at the top of their loops.
  \<open>arrived\<close> and \<open>handled\<close> are ghost fields: all events the system has produced and all events
  the Python thread has taken.
\<close>

datatype bg_phase = BgTop | BgPoll | BgSend hotplug | BgDone
datatype main_phase = MainTop | MainRecv | MainDone

record pipe =
  os_stream :: "hotplug list"
  os_closed :: bool
  token_set :: bool
  bg :: bg_phase
  chan :: "hotplug list"
  main_thread :: main_phase
  held :: tracked
  calls :: "callback list"
  arrived :: "hotplug list"
  handled :: "hotplug list"

definition channel_cap :: nat where
  "channel_cap = 64"

inductive env_step :: "pipe \<Rightarrow> pipe \<Rightarrow> bool" where
  arrive: "\<not> os_closed s \<Longrightarrow>
     env_step s (s\<lparr>os_stream := os_stream s @ [ev], arrived := arrived s @ [ev]\<rparr>)"
| close: "env_step s (s\<lparr>os_closed := True\<rparr>)"
| set_token: "env_step s (s\<lparr>token_set := True\<rparr>)"

inductive prog_step :: "usb_discovery \<Rightarrow> pipe \<Rightarrow> pipe \<Rightarrow> bool" for self where
  bg_continue: "bg s = BgTop \<Longrightarrow> \<not> token_set s \<Longrightarrow> prog_step self s (s\<lparr>bg := BgPoll\<rparr>)"
| bg_stop: "bg s = BgTop \<Longrightarrow> token_set s \<Longrightarrow> prog_step self s (s\<lparr>bg := BgDone\<rparr>)"
| bg_next: "bg s = BgPoll \<Longrightarrow> os_stream s = ev # rest \<Longrightarrow>
     prog_step self s (s\<lparr>bg := BgSend ev, os_stream := rest\<rparr>)"
| bg_end: "bg s = BgPoll \<Longrightarrow> os_stream s = [] \<Longrightarrow> os_closed s \<Longrightarrow> prog_step self s (s\<lparr>bg := BgDone\<rparr>)"
| bg_timeout: "bg s = BgPoll \<Longrightarrow> prog_step self s (s\<lparr>bg := BgTop\<rparr>)"
| bg_send: "bg s = BgSend ev \<Longrightarrow> main_thread s \<noteq> MainDone \<Longrightarrow> length (chan s) < channel_cap \<Longrightarrow>
     prog_step self s (s\<lparr>bg := BgTop, chan := chan s @ [ev]\<rparr>)"
| bg_refused: "bg s = BgSend ev \<Longrightarrow> main_thread s = MainDone \<Longrightarrow> prog_step self s (s\<lparr>bg := BgDone\<rparr>)"
| main_continue: "main_thread s = MainTop \<Longrightarrow> \<not> token_set s \<Longrightarrow>
     prog_step self s (s\<lparr>main_thread := MainRecv\<rparr>)"
| main_stop: "main_thread s = MainTop \<Longrightarrow> token_set s \<Longrightarrow>
     prog_step self s (s\<lparr>main_thread := MainDone\<rparr>)"
| main_event: "main_thread s = MainRecv \<Longrightarrow> chan s = ev # rest \<Longrightarrow>
     usb_step self (held s) ev = (cbs, t') \<Longrightarrow>
     prog_step self s (s\<lparr>main_thread := MainTop, chan := rest, held := t',
       calls := calls s @ cbs, handled := handled s @ [ev]\<rparr>)"
| main_raised: "main_thread s = MainRecv \<Longrightarrow> chan s = ev # rest \<Longrightarrow>
     usb_step self (held s) ev = (cbs, t') \<Longrightarrow> cbs \<noteq> [] \<Longrightarrow>
     prog_step self s (s\<lparr>main_thread := MainDone, chan := rest, held := t',
       calls := calls s @ cbs, handled := handled s @ [ev]\<rparr>)"
| main_timeout: "main_thread s = MainRecv \<Longrightarrow> prog_step self s (s\<lparr>main_thread := MainTop\<rparr>)"
| main_closed: "main_thread s = MainRecv \<Longrightarrow> chan s = [] \<Longrightarrow> bg s = BgDone \<Longrightarrow>
     prog_step self s (s\<lparr>main_thread := MainDone\<rparr>)"

inductive_cases env_stepE: "env_step s s'"
inductive_cases prog_stepE: "prog_step self s s'"

definition pipe_step :: "usb_discovery \<Rightarrow> pipe \<Rightarrow> pipe \<Rightarrow> bool" where
  "pipe_step self s s' = (env_step s s' \<or> prog_step self s s')"

definition pipe_start :: "tracked \<Rightarrow> pipe" where
  "pipe_start t = \<lparr>os_stream = [], os_closed = False, token_set = False, bg = BgTop, chan = [],
     main_thread = MainTop, held = t, calls = [], arrived = [], handled = []\<rparr>"

fun in_hand :: "bg_phase \<Rightarrow> hotplug list" where
  "in_hand (BgSend ev) = [ev]"
| "in_hand _ = []"

definition pipe_inv :: "usb_discovery \<Rightarrow> tracked \<Rightarrow> pipe \<Rightarrow> bool" where
  "pipe_inv self t s =
     (prefix (handled s @ chan s) (arrived s) \<and>
      (main_thread s \<noteq> MainDone \<or> bg s \<noteq> BgDone \<longrightarrow>
        arrived s = handled s @ chan s @ in_hand (bg s) @ os_stream s) \<and>
      length (chan s) \<le> channel_cap \<and>
      run_steps (usb_step self) t (handled s) = (calls s, held s))"

lemma run_steps_snoc:
  assumes "run_steps step s es = (cbs, t)" "step t e = (c, t')"
  shows "run_steps step s (es @ [e]) = (cbs @ c, t')"
  using assms
proof (induction es arbitrary: s cbs)
  case Nil
  then show ?case by simp
next
  case (Cons a es)
  obtain c1 s1 where 1: "step s a = (c1, s1)" by force
  obtain c2 where 2: "run_steps step s1 es = (c2, t)" "cbs = c1 @ c2"
    using Cons.prems(1) 1 by (auto split: prod.splits)
  show ?case
    using Cons.IH [OF 2(1) Cons.prems(2)] 1 2(2) by simp
qed

lemma pipe_inv_start: "pipe_inv self t (pipe_start t)"
  by (simp add: pipe_inv_def pipe_start_def)

lemma env_step_inv: "env_step s s' \<Longrightarrow> pipe_inv self t s \<Longrightarrow> pipe_inv self t s'"
  by (elim env_stepE) (auto simp: pipe_inv_def prefix_def)

lemma prog_step_inv: "prog_step self s s' \<Longrightarrow> pipe_inv self t s \<Longrightarrow> pipe_inv self t s'"
proof (induction rule: prog_step.induct)
  case (main_event s ev rest cbs t')
  then show ?case
    using run_steps_snoc by (fastforce simp: pipe_inv_def)
next
  case (main_raised s ev rest cbs t')
  then show ?case
    using run_steps_snoc by (fastforce simp: pipe_inv_def)
qed (auto simp: pipe_inv_def)

lemma pipe_inv_reachable: "(pipe_step self)\<^sup>*\<^sup>* (pipe_start t) s \<Longrightarrow> pipe_inv self t s"
  by (induction rule: rtranclp_induct)
    (auto simp: pipe_inv_start pipe_step_def intro: env_step_inv prog_step_inv)

text \<open>
  C32.  In every interleaving of the two threads, the operating system and the caller, the channel
  holds at most 64 events, the Python thread handles the events in the order they arrived,
  without loss or repetition while it runs, and the callbacks made so far are those of the
  sequential event loop on the events handled so far.
\<close>

theorem usb_pipe_fifo:
  assumes "(pipe_step self)\<^sup>*\<^sup>* (pipe_start t) s"
  shows "length (chan s) \<le> 64 \<and>
    prefix (handled s @ chan s) (arrived s) \<and>
    (main_thread s \<noteq> MainDone \<longrightarrow>
      arrived s = handled s @ chan s @ in_hand (bg s) @ os_stream s) \<and>
    run_steps (usb_step self) t (handled s) = (calls s, held s)"
  using pipe_inv_reachable [OF assms] by (simp add: pipe_inv_def channel_cap_def)

theorem usb_pipe_fifo_witness:
  "length (chan ((pipe_start [])\<lparr>bg := BgPoll\<rparr>)) \<le> 64"
proof -
  have "prog_step (any_usb (Some 0)) (pipe_start []) ((pipe_start [])\<lparr>bg := BgPoll\<rparr>)"
    by (rule bg_continue) (simp_all add: pipe_start_def)
  then have "(pipe_step (any_usb (Some 0)))\<^sup>*\<^sup>* (pipe_start []) ((pipe_start [])\<lparr>bg := BgPoll\<rparr>)"
    by (auto simp: pipe_step_def)
  then show ?thesis
    using usb_pipe_fifo by blast
qed

text \<open>How many steps each thread can still make once the token is set.\<close>

definition bg_left :: "bg_phase \<Rightarrow> nat" where
  "bg_left p = (case p of BgTop \<Rightarrow> 1 | BgPoll \<Rightarrow> 3 | BgSend _ \<Rightarrow> 2 | BgDone \<Rightarrow> 0)"

definition main_left :: "main_phase \<Rightarrow> nat" where
  "main_left p = (case p of MainTop \<Rightarrow> 1 | MainRecv \<Rightarrow> 2 | MainDone \<Rightarrow> 0)"

definition events_left :: "main_phase \<Rightarrow> nat" where
  "events_left p = (case p of MainRecv \<Rightarrow> 1 | _ \<Rightarrow> 0)"

definition steps_left :: "pipe \<Rightarrow> nat" where
  "steps_left s = bg_left (bg s) + main_left (main_thread s)"

lemma cancelled_step:
  assumes "prog_step self s s'" "token_set s"
  shows "token_set s' \<and> steps_left s' < steps_left s \<and>
    length (handled s') + events_left (main_thread s') \<le> length (handled s) + events_left (main_thread s)"
  using assms
  by (induction rule: prog_step.induct)
    (auto simp: steps_left_def bg_left_def main_left_def events_left_def split: bg_phase.split main_phase.split)

lemma cancelled_progress:
  assumes "token_set s" "length (chan s) \<le> channel_cap" "bg s \<noteq> BgDone \<or> main_thread s \<noteq> MainDone"
  shows "\<exists>s'. prog_step self s s'"
proof (cases "main_thread s")
  case MainTop
  then show ?thesis using assms(1) main_stop by blast
next
  case MainRecv
  then show ?thesis using main_timeout by blast
next
  case MainDone
  then show ?thesis
    using assms(1,3) bg_stop bg_timeout bg_refused [of s] by (cases "bg s") blast+
qed

text \<open>
  C9.  Once the token is set, both threads finish, whatever the interleaving: the program has at
  most five steps left, it is never stuck before both are done, not even with a full channel, and
  at most one more event is handled.
\<close>

theorem usb_pipe_cancel:
  assumes "token_set s" "length (chan s) \<le> 64"
  shows "((prog_step self ^^ n) s s' \<longrightarrow> n \<le> 5 \<and> length (handled s') \<le> length (handled s) + 1) \<and>
    (bg s \<noteq> BgDone \<or> main_thread s \<noteq> MainDone \<longrightarrow> (\<exists>s'. prog_step self s s'))"
proof (intro conjI impI)
  assume run: "(prog_step self ^^ n) s s'"
  have "token_set s' \<and> n + steps_left s' \<le> steps_left s \<and>
    length (handled s') + events_left (main_thread s') \<le> length (handled s) + events_left (main_thread s)"
    using run
  proof (induction n arbitrary: s')
    case 0
    then show ?case using assms(1) by simp
  next
    case (Suc n)
    then obtain y where "(prog_step self ^^ n) s y" "prog_step self y s'" by auto
    then show ?case using Suc.IH [of y] cancelled_step [of self y s'] by fastforce
  qed
  moreover have "steps_left s \<le> 5" "events_left (main_thread s) \<le> 1"
    by (auto simp: steps_left_def bg_left_def main_left_def events_left_def
        split: bg_phase.split main_phase.split)
  ultimately show "n \<le> 5" "length (handled s') \<le> length (handled s) + 1"
    by linarith+
next
  assume "bg s \<noteq> BgDone \<or> main_thread s \<noteq> MainDone"
  then show "\<exists>s'. prog_step self s s'"
    using assms cancelled_progress by (simp add: channel_cap_def)
qed

theorem usb_pipe_cancel_witness:
  "\<exists>s'. prog_step (any_usb (Some 0)) ((pipe_start [])\<lparr>token_set := True\<rparr>) s'"
  using usb_pipe_cancel [where self = "any_usb (Some 0)" and s = "(pipe_start [])\<lparr>token_set := True\<rparr>"]
  by (simp add: pipe_start_def)

end
