(* ===== verification/Batch.thy ===== *)
theory Batch
  imports Watch
begin

text \<open>
  What the serial sweep and the TCP scan share: tasks spawned into a \<open>JoinSet\<close> and collected in
  the order they complete, the response filter, the bounded channel to the streaming thread, and
  the contract of a probe from which the facts about whole batches follow.
\<close>

section \<open>Probe results\<close>

text \<open>
  What awaiting a probe delivers: a panic, or the code's \<open>Result<Option<DeviceMatch>>\<close>.
\<close>

type_synonym probe_result = "(dafydd_error + device_match option) outcome"

text \<open>\<open>if let Some(f) = response_filter { if !response.windows(f.len()).any(|w| w == f) ... }\<close>.\<close>

definition filter_accepts :: "bytes option \<Rightarrow> bytes \<Rightarrow> bool outcome" where
  "filter_accepts response_filter resp =
     (case response_filter of None \<Rightarrow> Returns True | Some f \<Rightarrow> window_match f resp)"

definition satisfies :: "bytes option \<Rightarrow> bytes \<Rightarrow> bool" where
  "satisfies response_filter resp = (\<forall>f. response_filter = Some f \<longrightarrow> f \<noteq> [] \<and> sublist f resp)"

lemma filter_accepts_True: "filter_accepts flt resp = Returns True \<longleftrightarrow> satisfies flt resp"
  by (cases flt; cases "the flt = []")
    (auto simp: filter_accepts_def satisfies_def window_match_nil window_match_nonempty str_contains_iff)

lemma filter_accepts_False:
  "filter_accepts flt resp = Returns False \<longleftrightarrow> (\<exists>f. flt = Some f \<and> f \<noteq> [] \<and> \<not> sublist f resp)"
  by (cases flt; cases "the flt = []")
    (auto simp: filter_accepts_def window_match_nil window_match_nonempty str_contains_iff)

lemma filter_accepts_Panics: "filter_accepts flt resp = Panics \<longleftrightarrow> flt = Some []"
  by (cases flt; cases "the flt = []")
    (auto simp: filter_accepts_def window_match_nil window_match_nonempty)

section \<open>Reads\<close>

text \<open>
  A call of \<open>read\<close> takes some time, in milliseconds, and returns bytes (none at the end of the
  stream) or an error.  When the list of reads is exhausted the peer stays silent.
\<close>

datatype read_result = ReadOk bytes | ReadErr

type_synonym reads = "(nat \<times> read_result) list"

section \<open>Collecting a \<open>JoinSet\<close>\<close>

text \<open>\<open>if let Ok(Ok(Some(m))) = result\<close>: errors and panics of a task are dropped.\<close>

fun joined_match :: "probe_result \<Rightarrow> device_match option" where
  "joined_match (Returns (Inr (Some m))) = Some m"
| "joined_match _ = None"

definition join_all :: "nat list \<Rightarrow> probe_result list \<Rightarrow> device_match list" where
  "join_all order results = List.map_filter joined_match (pick_order order results)"

lemma joined_match_Some: "joined_match r = Some m \<longleftrightarrow> r = Returns (Inr (Some m))"
  by (cases r rule: joined_match.cases) auto

lemma join_all_set: "set (join_all order rs) = {m. Returns (Inr (Some m)) \<in> set rs}"
  by (force simp: join_all_def List.map_filter_def joined_match_Some image_iff)

lemma join_all_mset: "mset (join_all order rs) = mset (List.map_filter joined_match rs)"
proof -
  have "mset (map (the \<circ> joined_match) (filter (\<lambda>r. joined_match r \<noteq> None) xs)) =
      image_mset (the \<circ> joined_match) (filter_mset (\<lambda>r. joined_match r \<noteq> None) (mset xs))" for xs
    by simp
  then show ?thesis
    by (simp add: join_all_def List.map_filter_def)
qed

section \<open>The contract of a probe\<close>

text \<open>
  A probe of an endpoint that reports a match reports that endpoint, over its transport, with a
  response that passes the filter.  What batches of probes report follows from this alone.
\<close>

locale endpoint_probe =
  fixes probe :: "'w \<Rightarrow> 'e \<Rightarrow> probe_result"
    and name_of :: "'e \<Rightarrow> string"
    and kind :: transport
    and good :: "bytes option \<Rightarrow> bool"
  assumes found: "probe w e = Returns (Inr (Some m)) \<Longrightarrow>
    transport m = kind \<and> address m = name_of e \<and> good (response m)"
begin

definition reports :: "('w \<times> 'e) list \<Rightarrow> probe_result list" where
  "reports tasks = map (\<lambda>(w, e). probe w e) tasks"

lemma batch_sound:
  assumes "m \<in> set (join_all order (reports tasks))"
  shows "\<exists>(w, e) \<in> set tasks. probe w e = Returns (Inr (Some m)) \<and>
    transport m = kind \<and> address m = name_of e \<and> good (response m)"
  using assms found by (force simp: join_all_set reports_def)

lemma batch_complete:
  assumes "(w, e) \<in> set tasks" "probe w e = Returns (Inr (Some m))"
  shows "m \<in> set (join_all order (reports tasks))"
  using assms by (force simp: join_all_set reports_def)

lemma batch_distinct:
  assumes "distinct (map (name_of \<circ> snd) tasks)"
  shows "distinct_addrs (join_all order (reports tasks))"
proof -
  have addr: "map address (List.map_filter joined_match (reports ts)) =
      map (name_of \<circ> snd) (filter (\<lambda>(w, e). joined_match (probe w e) \<noteq> None) ts)" for ts
  proof (induction ts)
    case Nil
    then show ?case by (simp add: reports_def List.map_filter_def)
  next
    case (Cons t ts)
    then show ?case
      using found by (auto simp: reports_def List.map_filter_def joined_match_Some)
  qed
  have "distinct (map (name_of \<circ> snd) (filter (\<lambda>(w, e). joined_match (probe w e) \<noteq> None) tasks))"
    using assms by (rule distinct_map_filter)
  then have "distinct (map address (List.map_filter joined_match (reports tasks)))"
    unfolding addr .
  moreover have "mset (map address (join_all order (reports tasks))) =
      mset (map address (List.map_filter joined_match (reports tasks)))"
    by (simp add: join_all_mset)
  ultimately show ?thesis
    unfolding distinct_addrs_def using mset_eq_imp_distinct_iff by blast
qed

end

section \<open>The channel to a streaming caller\<close>

text \<open>
  \<open>tx.try_send(m)\<close> on a bounded channel: it delivers unless the channel is full or the receiver
  is gone, and its result is ignored.  \<open>room n\<close> tells whether the \<open>n\<close>-th attempt finds room.
  Without a sender nothing happens.
\<close>

record sender =
  attempts :: nat
  delivered :: "device_match list"

definition sender_new :: sender where
  "sender_new = \<lparr>attempts = 0, delivered = []\<rparr>"

definition try_send :: "(nat \<Rightarrow> bool) option \<Rightarrow> device_match \<Rightarrow> sender \<Rightarrow> sender" where
  "try_send tx m s =
     (case tx of
        None \<Rightarrow> s
      | Some room \<Rightarrow>
          s\<lparr>attempts := Suc (attempts s),
            delivered := delivered s @ (if room (attempts s) then [m] else [])\<rparr>)"

definition send_all :: "(nat \<Rightarrow> bool) option \<Rightarrow> device_match list \<Rightarrow> sender \<Rightarrow> sender" where
  "send_all tx ms s = fold (try_send tx) ms s"

lemma send_all_None [simp]: "send_all None ms s = s"
  by (induction ms arbitrary: s) (simp_all add: send_all_def try_send_def)

lemma send_all_append: "send_all tx (xs @ ys) s = send_all tx ys (send_all tx xs s)"
  by (simp add: send_all_def)

lemma send_all_delivered:
  "\<exists>ys. subseq ys ms \<and> delivered (send_all tx ms s) = delivered s @ ys"
proof (induction ms arbitrary: s)
  case Nil
  then show ?case by (simp add: send_all_def)
next
  case (Cons m ms)
  obtain ys where ys: "subseq ys ms"
    "delivered (send_all tx ms (try_send tx m s)) = delivered (try_send tx m s) @ ys"
    using Cons.IH by blast
  let ?zs = "case tx of None \<Rightarrow> [] | Some room \<Rightarrow> if room (attempts s) then [m] else []"
  obtain zs where zs: "subseq zs [m]" "delivered (try_send tx m s) = delivered s @ zs"
  proof
    show "subseq ?zs [m]" "delivered (try_send tx m s) = delivered s @ ?zs"
      by (auto simp: try_send_def split: option.split)
  qed
  have "subseq (zs @ ys) ([m] @ ms)"
    using zs(1) ys(1) by (rule list_emb_append_mono)
  with ys(2) zs(2) show ?case
    by (intro exI [of _ "zs @ ys"]) (simp add: send_all_def)
qed

lemma send_all_room:
  "(\<And>n. room n) \<Longrightarrow> delivered (send_all (Some room) ms s) = delivered s @ ms"
  by (induction ms arbitrary: s) (simp_all add: send_all_def try_send_def)

text \<open>
  The streaming caller: it invokes the callback on every match that was delivered, then joins the
  discovery thread, and answers with the matches it received.
\<close>

definition receive_stream ::
  "(nat \<Rightarrow> string option) \<Rightarrow> device_match list \<Rightarrow>
   (dafydd_error + device_match list) outcome \<Rightarrow> device_match list \<times> (py_err + device_match list)" where
  "receive_stream raises received joined =
     (case stream_calls raises [] received of
        (log, Some e) \<Rightarrow> (log, Inl e)
      | (log, None) \<Rightarrow>
          (log, (case joined of
                   Panics \<Rightarrow> Inl (PyRuntimeError ''discovery thread panicked'')
                 | Returns (Inl e) \<Rightarrow> Inl (error_to_pyerr e)
                 | Returns (Inr _) \<Rightarrow> Inr received)))"

text \<open>\<open>block_on\<close> of a discovery on the calling thread, as PyO3 hands it to Python.\<close>

definition block_on_result ::
  "(dafydd_error + device_match list) outcome \<Rightarrow> py_err + device_match list" where
  "block_on_result r =
     (case r of
        Panics \<Rightarrow> Inl PanicException
      | Returns (Inl e) \<Rightarrow> Inl (error_to_pyerr e)
      | Returns (Inr ms) \<Rightarrow> Inr ms)"

section \<open>Reading the token\<close>

text \<open>\<open>cancel.is_some_and(CancellationToken::is_cancelled)\<close>; the flag may change at any time,
  so the value read is part of the environment.\<close>

definition cancel_seen :: "token option \<Rightarrow> bool \<Rightarrow> bool" where
  "cancel_seen tok flag = (case tok of None \<Rightarrow> False | Some _ \<Rightarrow> flag)"

lemma cancel_seen_None [simp]: "\<not> cancel_seen None b"
  by (simp add: cancel_seen_def)

lemma cancel_seen_Some [simp]: "cancel_seen (Some t) b = b"
  by (simp add: cancel_seen_def)

end
