(* ===== verification/Serial_Probe.thy ===== *)
theory Serial_Probe
  imports Batch
begin

text \<open>
  \<open>src/serial/probe.rs\<close>: building the port settings, reading a response, the three probes of a
  port (one baud rate, all baud rates asynchronously, all baud rates on a blocking thread), the
  port list and the sweep over all ports.  The operating system's serial ports are the
  environment: when each read returns and with what, which calls succeed, what the token reads.
  Times are in milliseconds.
\<close>

section \<open>Port settings\<close>

datatype data_bits = DataFive | DataSix | DataSeven | DataEight
datatype parity = ParityNone | ParityOdd | ParityEven
datatype stop_bits = StopOne | StopTwo
datatype flow_control = FlowNone | FlowSoftware | FlowHardware

record port_builder =
  pb_path :: string
  pb_baud :: u32
  pb_data_bits :: data_bits
  pb_parity :: parity
  pb_stop_bits :: stop_bits
  pb_flow_control :: flow_control

definition unwrap_or :: "'a \<Rightarrow> 'a option \<Rightarrow> 'a" where
  "unwrap_or d x = (case x of None \<Rightarrow> d | Some a \<Rightarrow> a)"

fun data_bits_of :: "u8 option \<Rightarrow> data_bits option" where
  "data_bits_of None = Some DataEight"
| "data_bits_of (Some n) =
     (if n = 5 then Some DataFive else if n = 6 then Some DataSix
      else if n = 7 then Some DataSeven else if n = 8 then Some DataEight else None)"

definition parity_of :: "string option \<Rightarrow> parity option" where
  "parity_of p =
     (let s = unwrap_or ''none'' p
      in if s = ''even'' then Some ParityEven else if s = ''odd'' then Some ParityOdd
         else if s = ''none'' then Some ParityNone else None)"

fun stop_bits_of :: "u8 option \<Rightarrow> stop_bits option" where
  "stop_bits_of None = Some StopOne"
| "stop_bits_of (Some n) = (if n = 1 then Some StopOne else if n = 2 then Some StopTwo else None)"

definition flow_control_of :: "string option \<Rightarrow> flow_control option" where
  "flow_control_of f =
     (let s = unwrap_or ''none'' f
      in if s = ''hardware'' then Some FlowHardware else if s = ''software'' then Some FlowSoftware
         else if s = ''none'' then Some FlowNone else None)"

text \<open>The parameters of a probe that every function of the file passes along.\<close>

record serial_params =
  sp_bauds :: "u32 list"
  sp_probe :: bytes
  sp_timeout :: nat
  sp_data_bits :: "u8 option"
  sp_parity :: "string option"
  sp_stop_bits :: "u8 option"
  sp_flow_control :: "string option"
  sp_token :: "token option"
  sp_terminator :: "bytes option"
  sp_filter :: "bytes option"

definition quoted :: "string \<Rightarrow> string" where
  "quoted s = CHR 0x27 # s @ [CHR 0x27]"

definition build_builder ::
  "string \<Rightarrow> u32 \<Rightarrow> u8 option \<Rightarrow> string option \<Rightarrow> u8 option \<Rightarrow> string option \<Rightarrow>
   dafydd_error + port_builder" where
  "build_builder path baud db par sb fc =
     (case data_bits_of db of
        None \<Rightarrow> Inl (SerialErr ''invalid data bits: must be 5, 6, 7, or 8'')
      | Some d \<Rightarrow>
     (case parity_of par of
        None \<Rightarrow> Inl (SerialErr (''invalid parity: must be '' @ quoted ''none'' @ '', '' @ quoted ''even'' @
                 '', or '' @ quoted ''odd''))
      | Some p \<Rightarrow>
     (case stop_bits_of sb of
        None \<Rightarrow> Inl (SerialErr ''invalid stop bits: must be 1 or 2'')
      | Some s \<Rightarrow>
     (case flow_control_of fc of
        None \<Rightarrow> Inl (SerialErr (''invalid flow control: must be '' @ quoted ''none'' @ '', '' @
                 quoted ''hardware'' @ '', or '' @ quoted ''software''))
      | Some f \<Rightarrow>
          Inr \<lparr>pb_path = path, pb_baud = baud, pb_data_bits = d, pb_parity = p, pb_stop_bits = s,
               pb_flow_control = f\<rparr>))))"

section \<open>Reading a response\<close>

definition terminated :: "bytes option \<Rightarrow> bytes \<Rightarrow> bool" where
  "terminated trm resp = (case trm of None \<Rightarrow> False | Some t \<Rightarrow> ends_with resp t)"

text \<open>The asynchronous loop under one timeout for the whole response; \<open>left\<close> is what remains of it.\<close>

fun read_response :: "nat \<Rightarrow> bytes option \<Rightarrow> bytes \<Rightarrow> reads \<Rightarrow> bytes" where
  "read_response left trm acc [] = acc"
| "read_response left trm acc ((d, r) # rs) =
     (if left < d then acc
      else (case r of
              ReadErr \<Rightarrow> acc
            | ReadOk bs \<Rightarrow>
                (if bs = [] then acc
                 else (let acc' = acc @ bs
                       in if terminated trm acc' then acc'
                          else read_response (left - d) trm acc' rs))))"

text \<open>
  The blocking loop: every read has the port's current timeout, which the loop shortens to 50 ms
  once data arrives, if the port accepts it.  The result is the response, the timeout the port is
  left with and the time spent.
\<close>

fun read_blocking ::
  "bool \<Rightarrow> nat \<Rightarrow> bytes option \<Rightarrow> bytes \<Rightarrow> nat \<Rightarrow> reads \<Rightarrow> bytes \<times> nat \<times> nat" where
  "read_blocking settable cur trm acc spent [] = (acc, cur, spent + cur)"
| "read_blocking settable cur trm acc spent ((d, r) # rs) =
     (if cur < d then (acc, cur, spent + cur)
      else (case r of
              ReadErr \<Rightarrow> (acc, cur, spent + d)
            | ReadOk bs \<Rightarrow>
                (if bs = [] then (acc, cur, spent + d)
                 else (let acc' = acc @ bs
                       in if terminated trm acc' then (acc', cur, spent + d)
                          else read_blocking settable (if settable then 50 else cur) trm acc'
                                 (spent + d) rs))))"

section \<open>The match of a port\<close>

definition insert_unless ::
  "string \<Rightarrow> 'a \<Rightarrow> ('a \<Rightarrow> string) \<Rightarrow> 'a option \<Rightarrow> str_map \<Rightarrow> str_map" where
  "insert_unless k dflt show_it x m =
     (case x of None \<Rightarrow> m | Some v \<Rightarrow> if v \<noteq> dflt then m(k \<mapsto> show_it v) else m)"

definition serial_info ::
  "u32 \<Rightarrow> u8 option \<Rightarrow> string option \<Rightarrow> u8 option \<Rightarrow> string option \<Rightarrow> str_map" where
  "serial_info baud db par sb fc =
     (let i = Map.empty(''baud_rate'' \<mapsto> show_dec (unat baud));
          i = insert_unless ''data_bits'' 8 (\<lambda>n. show_dec (unat n)) db i;
          i = insert_unless ''parity'' ''none'' (\<lambda>s. s) par i;
          i = insert_unless ''stop_bits'' 1 (\<lambda>n. show_dec (unat n)) sb i
      in insert_unless ''flow_control'' ''none'' (\<lambda>s. s) fc i)"

definition serial_match :: "serial_params \<Rightarrow> string \<Rightarrow> u32 \<Rightarrow> bytes \<Rightarrow> device_match" where
  "serial_match p path baud resp =
     \<lparr>transport = Serial, address = path, response = Some resp,
      info = serial_info baud (sp_data_bits p) (sp_parity p) (sp_stop_bits p) (sp_flow_control p)\<rparr>"

text \<open>
  What follows the read in all three probes: an empty response and a response the filter refuses
  are no match.
\<close>

definition response_to_match ::
  "serial_params \<Rightarrow> string \<Rightarrow> u32 \<Rightarrow> bytes \<Rightarrow> device_match option outcome" where
  "response_to_match p path baud resp =
     (if resp = [] then Returns None
      else (case filter_accepts (sp_filter p) resp of
              Panics \<Rightarrow> Panics
            | Returns ok \<Rightarrow> Returns (if ok then Some (serial_match p path baud resp) else None)))"

section \<open>Probing one port\<close>

text \<open>
  The port as its probes meet it.  The index counts the attempts on the open handle; what the
  device answers depends on the attempt, on the rate the line really has, and on what was written.
\<close>

record port_env =
  open_error :: "string option"
  open_ms :: nat
  token_read :: "nat \<Rightarrow> bool"
  rate_ok :: "nat \<Rightarrow> bool"
  write_ok :: "nat \<Rightarrow> bool"
  write_ms :: "nat \<Rightarrow> nat"
  settable :: "nat \<Rightarrow> bool"
  answer :: "nat \<Rightarrow> u32 \<Rightarrow> bytes \<Rightarrow> reads"

definition probe_port ::
  "port_env \<Rightarrow> serial_params \<Rightarrow> string \<Rightarrow> u32 \<Rightarrow> probe_result" where
  "probe_port env p path baud =
     (case build_builder path baud (sp_data_bits p) (sp_parity p) (sp_stop_bits p) (sp_flow_control p) of
        Inl e \<Rightarrow> Returns (Inl e)
      | Inr b \<Rightarrow>
     (case open_error env of
        Some e \<Rightarrow> Returns (Inl (SerialErr e))
      | None \<Rightarrow>
          if \<not> write_ok env 0 then Returns (Inr None)
          else outcome_map Inr (response_to_match p path baud
                 (read_response (sp_timeout p) (sp_terminator p) []
                   (answer env 0 (pb_baud b) (sp_probe p))))))"

text \<open>
  The loop over the baud rates on one open handle: \<open>line\<close> is the rate the handle has, \<open>i\<close> the
  number of the attempt.
\<close>

fun try_bauds ::
  "port_env \<Rightarrow> serial_params \<Rightarrow> string \<Rightarrow> u32 \<Rightarrow> u32 \<Rightarrow> nat \<Rightarrow> u32 list \<Rightarrow> probe_result" where
  "try_bauds env p path first line i [] = Returns (Inr None)"
| "try_bauds env p path first line i (baud # bauds) =
     (if cancel_seen (sp_token p) (token_read env i) then Returns (Inr None)
      else if baud \<noteq> first \<and> \<not> rate_ok env i then try_bauds env p path first line (Suc i) bauds
      else
        (let line' = (if baud \<noteq> first then baud else line)
         in if \<not> write_ok env i then try_bauds env p path first line' (Suc i) bauds
            else
              (case response_to_match p path baud
                      (read_response (sp_timeout p) (sp_terminator p) []
                        (answer env i line' (sp_probe p))) of
                 Panics \<Rightarrow> Panics
               | Returns None \<Rightarrow> try_bauds env p path first line' (Suc i) bauds
               | Returns (Some m) \<Rightarrow> Returns (Inr (Some m)))))"

definition probe_port_all_bauds :: "port_env \<Rightarrow> serial_params \<Rightarrow> string \<Rightarrow> probe_result" where
  "probe_port_all_bauds env p path =
     (case sp_bauds p of
        [] \<Rightarrow> Returns (Inr None)
      | first # _ \<Rightarrow>
          (case build_builder path first (sp_data_bits p) (sp_parity p) (sp_stop_bits p)
                  (sp_flow_control p) of
             Inl e \<Rightarrow> Returns (Inl e)
           | Inr b \<Rightarrow>
          (case open_error env of
             Some e \<Rightarrow> Returns (Inl (SerialErr e))
           | None \<Rightarrow> try_bauds env p path first (pb_baud b) 0 (sp_bauds p))))"

text \<open>
  The same on a blocking thread: \<open>cur\<close> is the timeout the port has, \<open>spent\<close> the time since the
  task began, which is part of the result because the caller gives up after a while.
\<close>

fun try_bauds_sync ::
  "port_env \<Rightarrow> serial_params \<Rightarrow> string \<Rightarrow> u32 \<Rightarrow> u32 \<Rightarrow> nat \<Rightarrow> nat \<Rightarrow> nat \<Rightarrow> u32 list \<Rightarrow>
   probe_result \<times> nat" where
  "try_bauds_sync env p path first line cur spent i [] = (Returns (Inr None), spent)"
| "try_bauds_sync env p path first line cur spent i (baud # bauds) =
     (if cancel_seen (sp_token p) (token_read env i) then (Returns (Inr None), spent)
      else if baud \<noteq> first \<and> \<not> rate_ok env i then
        try_bauds_sync env p path first line cur spent (Suc i) bauds
      else
        (let line' = (if baud \<noteq> first then baud else line)
         in if \<not> write_ok env i then
              try_bauds_sync env p path first line' cur (spent + write_ms env i) (Suc i) bauds
            else
              (case read_blocking (settable env i) cur (sp_terminator p) [] (spent + write_ms env i)
                      (answer env i line' (sp_probe p)) of
                 (resp, cur', spent') \<Rightarrow>
                   (case response_to_match p path baud resp of
                      Panics \<Rightarrow> (Panics, spent')
                    | Returns None \<Rightarrow>
                        try_bauds_sync env p path first line' cur' spent' (Suc i) bauds
                    | Returns (Some m) \<Rightarrow> (Returns (Inr (Some m)), spent')))))"

definition probe_port_all_bauds_sync ::
  "port_env \<Rightarrow> serial_params \<Rightarrow> string \<Rightarrow> probe_result \<times> nat" where
  "probe_port_all_bauds_sync env p path =
     (case sp_bauds p of
        [] \<Rightarrow> (Returns (Inr None), 0)
      | first # _ \<Rightarrow>
          (case build_builder path first (sp_data_bits p) (sp_parity p) (sp_stop_bits p)
                  (sp_flow_control p) of
             Inl e \<Rightarrow> (Returns (Inl e), 0)
           | Inr b \<Rightarrow>
          (case open_error env of
             Some e \<Rightarrow> (Returns (Inl (SerialErr e)), open_ms env)
           | None \<Rightarrow>
               try_bauds_sync env p path first (pb_baud b) (sp_timeout p) (open_ms env) 0 (sp_bauds p))))"

section \<open>The port list\<close>

datatype port_type = UsbPort | PciPort | BluetoothPort | UnknownPort

record port_info =
  port_name :: string
  port_type :: port_type

text \<open>The \<open>tty\<close> device of a port whose \<open>cu\<close> device is listed is dropped on macOS.\<close>

definition drop_tty_twins :: "port_info list \<Rightarrow> port_info list" where
  "drop_tty_twins ports =
     (let cu_suffixes = set (List.map_filter (\<lambda>p. strip_prefix ''/dev/cu.'' (port_name p)) ports)
      in filter (\<lambda>p. case strip_prefix ''/dev/tty.'' (port_name p) of
                       None \<Rightarrow> True
                     | Some sfx \<Rightarrow> sfx \<notin> cu_suffixes) ports)"

definition select_ports :: "bool \<Rightarrow> bool \<Rightarrow> string option \<Rightarrow> port_info list \<Rightarrow> port_info list" where
  "select_ports macos include_bluetooth port_filter ports =
     (let ports = (if \<not> include_bluetooth then filter (\<lambda>p. port_type p \<noteq> BluetoothPort) ports else ports);
          ports = (if macos then drop_tty_twins ports else ports)
      in (case port_filter of
            None \<Rightarrow> ports
          | Some f \<Rightarrow> filter (\<lambda>p. str_contains f (port_name p)) ports))"

text \<open>\<open>available\<close> is the result of \<open>serialport::available_ports\<close>.\<close>

definition list_all_ports ::
  "bool \<Rightarrow> string + port_info list \<Rightarrow> bool \<Rightarrow> string option \<Rightarrow> dafydd_error + device_match list" where
  "list_all_ports macos available include_bluetooth port_filter =
     (case available of
        Inl e \<Rightarrow> Inl (SerialErr e)
      | Inr ports \<Rightarrow>
          Inr (map (\<lambda>p. \<lparr>transport = Serial, address = port_name p, response = None, info = Map.empty\<rparr>)
                 (select_ports macos include_bluetooth port_filter ports)))"

section \<open>The sweep\<close>

text \<open>
  One task: the blocking probe of a port, given up after the read timeout plus one second; a panic
  of the blocking thread is no match either.
\<close>

definition open_budget :: "serial_params \<Rightarrow> nat" where
  "open_budget p = sp_timeout p + 1000"

definition sweep_task :: "serial_params \<Rightarrow> port_env \<Rightarrow> string \<Rightarrow> probe_result" where
  "sweep_task p env path =
     (case probe_port_all_bauds_sync env p path of
        (r, spent) \<Rightarrow>
          if spent \<le> open_budget p then (case r of Returns x \<Rightarrow> Returns x | Panics \<Rightarrow> Returns (Inr None))
          else Returns (Inr None))"

text \<open>Tasks are spawned until the token is seen; the \<open>n\<close>-th read is the one before the \<open>n\<close>-th port.\<close>

fun spawn_until :: "token option \<Rightarrow> (nat \<Rightarrow> bool) \<Rightarrow> nat \<Rightarrow> 'a list \<Rightarrow> 'a list" where
  "spawn_until tok reads n [] = []"
| "spawn_until tok reads n (x # xs) =
     (if cancel_seen tok (reads n) then [] else x # spawn_until tok reads (Suc n) xs)"

text \<open>Results are taken as they complete; the token is read after each, before it is looked at.\<close>

fun drain_until ::
  "token option \<Rightarrow> (nat \<Rightarrow> bool) \<Rightarrow> (nat \<Rightarrow> bool) option \<Rightarrow> nat \<Rightarrow> probe_result list \<Rightarrow>
   device_match list \<Rightarrow> sender \<Rightarrow> device_match list \<times> sender" where
  "drain_until tok reads tx n [] ms s = (ms, s)"
| "drain_until tok reads tx n (r # rs) ms s =
     (if cancel_seen tok (reads n) then (ms, s)
      else (case joined_match r of
              None \<Rightarrow> drain_until tok reads tx (Suc n) rs ms s
            | Some m \<Rightarrow> drain_until tok reads tx (Suc n) rs (ms @ [m]) (try_send tx m s)))"

record sweep_env =
  available :: "string + port_info list"
  port_at :: "string \<Rightarrow> port_env"
  spawn_reads :: "nat \<Rightarrow> bool"
  drain_reads :: "nat \<Rightarrow> bool"
  join_order :: "nat list"

definition sweep_all_ports ::
  "bool \<Rightarrow> sweep_env \<Rightarrow> serial_params \<Rightarrow> bool \<Rightarrow> string option \<Rightarrow> (nat \<Rightarrow> bool) option \<Rightarrow> sender \<Rightarrow>
   (dafydd_error + device_match list) \<times> sender" where
  "sweep_all_ports macos env p include_bluetooth port_filter tx s =
     (case available env of
        Inl e \<Rightarrow> (Inl (SerialErr e), s)
      | Inr ports \<Rightarrow>
          (let selected = select_ports macos include_bluetooth port_filter ports;
               spawned = spawn_until (sp_token p) (spawn_reads env) 0 selected;
               results = map (\<lambda>q. sweep_task p (port_at env (port_name q)) (port_name q)) spawned;
               (ms, s') = drain_until (sp_token p) (drain_reads env) tx 0
                            (pick_order (join_order env) results) [] s
           in (Inr ms, s')))"

section \<open>Facts about settings and matches\<close>

lemma build_builder_iff:
  "build_builder path baud db par sb fc = Inr b \<longleftrightarrow>
     data_bits_of db = Some (pb_data_bits b) \<and> parity_of par = Some (pb_parity b) \<and>
     stop_bits_of sb = Some (pb_stop_bits b) \<and> flow_control_of fc = Some (pb_flow_control b) \<and>
     pb_path b = path \<and> pb_baud b = baud"
  by (cases b) (auto simp: build_builder_def split: option.split)

lemma build_builder_error:
  "(\<exists>e. build_builder path baud db par sb fc = Inl e) \<longleftrightarrow>
     data_bits_of db = None \<or> parity_of par = None \<or> stop_bits_of sb = None \<or>
     flow_control_of fc = None"
  by (auto simp: build_builder_def split: option.split)

text \<open>
  The settings of a port are accepted exactly when the data bits are 5 to 8, the parity
  \<open>none\<close>, \<open>even\<close> or \<open>odd\<close>, the stop bits 1 or 2 and the flow control \<open>none\<close>, \<open>hardware\<close> or
  \<open>software\<close>, each possibly absent; then the builder carries the path and the rate unchanged.
\<close>

theorem build_builder_accepts:
  "(case build_builder path baud db par sb fc of
      Inr b \<Rightarrow> pb_path b = path \<and> pb_baud b = baud | Inl e \<Rightarrow> (\<exists>msg. e = SerialErr msg)) \<and>
   ((\<exists>b. build_builder path baud db par sb fc = Inr b) =
     (db \<in> {None, Some 5, Some 6, Some 7, Some 8} \<and>
      par \<in> {None, Some ''none'', Some ''even'', Some ''odd''} \<and>
      sb \<in> {None, Some 1, Some 2} \<and>
      fc \<in> {None, Some ''none'', Some ''hardware'', Some ''software''}))"
proof
  show "case build_builder path baud db par sb fc of
      Inr b \<Rightarrow> pb_path b = path \<and> pb_baud b = baud | Inl e \<Rightarrow> (\<exists>msg. e = SerialErr msg)"
    by (auto simp: build_builder_def split: option.split)
  have 0: "(\<exists>b. build_builder path baud db par sb fc = Inr b) \<longleftrightarrow>
      data_bits_of db \<noteq> None \<and> parity_of par \<noteq> None \<and> stop_bits_of sb \<noteq> None \<and>
      flow_control_of fc \<noteq> None"
    by (auto simp: build_builder_def split: option.split)
  have 1: "data_bits_of db \<noteq> None \<longleftrightarrow> db \<in> {None, Some 5, Some 6, Some 7, Some 8}"
    by (cases db) auto
  have 2: "parity_of par \<noteq> None \<longleftrightarrow> par \<in> {None, Some ''none'', Some ''even'', Some ''odd''}"
    by (cases par) (auto simp: parity_of_def unwrap_or_def)
  have 3: "stop_bits_of sb \<noteq> None \<longleftrightarrow> sb \<in> {None, Some 1, Some 2}"
    by (cases sb) auto
  have 4: "flow_control_of fc \<noteq> None \<longleftrightarrow>
      fc \<in> {None, Some ''none'', Some ''hardware'', Some ''software''}"
    by (cases fc) (auto simp: flow_control_of_def unwrap_or_def)
  show "(\<exists>b. build_builder path baud db par sb fc = Inr b) =
     (db \<in> {None, Some 5, Some 6, Some 7, Some 8} \<and>
      par \<in> {None, Some ''none'', Some ''even'', Some ''odd''} \<and>
      sb \<in> {None, Some 1, Some 2} \<and>
      fc \<in> {None, Some ''none'', Some ''hardware'', Some ''software''})"
    by (simp only: 0 1 2 3 4)
qed

lemma insert_unless_lookup [simp]:
  "insert_unless k d f x m k' =
     (if k = k' \<and> x \<noteq> None \<and> x \<noteq> Some d then Some (f (the x)) else m k')"
  by (auto simp: insert_unless_def split: option.split)

lemma serial_match_fields [simp, match_simps]:
  "transport (serial_match p path baud resp) = Serial"
  "address (serial_match p path baud resp) = path"
  "response (serial_match p path baud resp) = Some resp"
  by (simp_all add: serial_match_def)

lemma serial_match_info:
  "info (serial_match p path baud resp) ''baud_rate'' = Some (show_dec (unat baud))"
  "info (serial_match p path baud resp) ''data_bits'' =
     (if sp_data_bits p \<in> {None, Some 8} then None
      else Some (show_dec (unat (the (sp_data_bits p)))))"
  "info (serial_match p path baud resp) ''parity'' =
     (if sp_parity p \<in> {None, Some ''none''} then None else sp_parity p)"
  "info (serial_match p path baud resp) ''stop_bits'' =
     (if sp_stop_bits p \<in> {None, Some 1} then None
      else Some (show_dec (unat (the (sp_stop_bits p)))))"
  by (auto simp: serial_match_def serial_info_def Let_def)

lemma baud_rate_match: "baud_rate (serial_match p path baud resp) = Some baud"
  by (simp add: baud_rate_def serial_match_info u32_show_dec)

text \<open>
  The bus arguments of a serial match reopen the port as it was probed: the port and the baud
  rate always, and the data bits, parity and stop bits exactly when they differ from 8-N-1.
\<close>

theorem serial_bus_params:
  "bus_params (serial_match p path baud resp) =
     [(''port'', PyStr path), (''baudrate'', PyInt (uint baud))] @
     (case sp_data_bits p of None \<Rightarrow> []
      | Some n \<Rightarrow> if n = 8 then [] else [(''bytesize'', PyInt (uint n))]) @
     (case sp_parity p of None \<Rightarrow> []
      | Some s \<Rightarrow> if s = ''none'' then [] else [(''parity'', PyStr (parity_char s))]) @
     (case sp_stop_bits p of None \<Rightarrow> []
      | Some n \<Rightarrow> if n = 1 then [] else [(''stopbits'', PyInt (uint n))])"
  by (simp add: bus_params_serial baud_rate_match serial_match_info u8_show_dec split: option.split)

section \<open>Facts about reading\<close>

definition data_of :: "nat \<times> read_result \<Rightarrow> bytes" where
  "data_of dr = (case snd dr of ReadOk bs \<Rightarrow> bs | ReadErr \<Rightarrow> [])"

text \<open>
  Reading from \<open>acc\<close> stops after \<open>k\<close> reads: they all bring data in time and none but the last completes
  the terminator; and there is a reason to stop there.
\<close>

definition stops_after :: "nat \<Rightarrow> bytes option \<Rightarrow> bytes \<Rightarrow> reads \<Rightarrow> nat \<Rightarrow> bool" where
  "stops_after left trm acc rs k =
     (k \<le> length rs \<and> sum_list (map fst (take k rs)) \<le> left \<and>
      (\<forall>j < k. data_of (rs ! j) \<noteq> [] \<and>
         (0 < j \<longrightarrow> \<not> terminated trm (acc @ concat (map data_of (take j rs))))) \<and>
      (k = length rs \<or> (0 < k \<and> terminated trm (acc @ concat (map data_of (take k rs)))) \<or>
       (k < length rs \<and> (data_of (rs ! k) = [] \<or> left < sum_list (map fst (take (Suc k) rs))))))"

lemma stops_after_Cons:
  assumes "stops_after (left - d) trm (acc @ bs) rs k" "d \<le> left" "bs \<noteq> []" "\<not> terminated trm (acc @ bs)"
  shows "stops_after left trm acc ((d, ReadOk bs) # rs) (Suc k)"
proof -
  have "data_of (((d, ReadOk bs) # rs) ! j) \<noteq> [] \<and>
      (0 < j \<longrightarrow> \<not> terminated trm (acc @ concat (map data_of (take j ((d, ReadOk bs) # rs)))))" if "j < Suc k" for j
  proof (cases j)
    case 0
    then show ?thesis using assms(3) by (simp add: data_of_def)
  next
    case (Suc i)
    then show ?thesis using that assms by (cases i) (auto simp: stops_after_def data_of_def)
  qed
  then show ?thesis
    using assms(1,2) by (auto simp: stops_after_def data_of_def)
qed

lemma read_response_stops:
  "\<exists>k. stops_after left trm acc rs k \<and> read_response left trm acc rs = acc @ concat (map data_of (take k rs))"
proof (induction left trm acc rs rule: read_response.induct)
  case (1 left trm acc)
  then show ?case by (simp add: stops_after_def)
next
  case (2 left trm acc d r rs)
  show ?case
  proof (cases "left < d \<or> data_of (d, r) = []")
    case True
    then show ?thesis
      by (intro exI [of _ 0]) (auto simp: stops_after_def data_of_def split: read_result.split)
  next
    case False
    then obtain bs where r: "r = ReadOk bs" "bs \<noteq> []" "data_of (d, r) = bs" "\<not> left < d"
      by (cases r) (auto simp: data_of_def)
    show ?thesis
    proof (cases "terminated trm (acc @ bs)")
      case True
      then show ?thesis
        using r by (intro exI [of _ 1]) (simp add: stops_after_def)
    next
      case t: False
      obtain k where "stops_after (left - d) trm (acc @ bs) rs k"
        "read_response (left - d) trm (acc @ bs) rs = (acc @ bs) @ concat (map data_of (take k rs))"
        using 2 [OF r(4) r(1) r(2) refl t] by blast
      then show ?thesis
        using r t stops_after_Cons [of left d trm acc bs rs k] by (intro exI [of _ "Suc k"]) simp
    qed
  qed
qed

text \<open>
  C30.  A response is the data of the first reads, unchanged and in order, all of which arrive within
  the timeout; reading stops at the first position where it must: the response ends with the
  terminator, or the next read brings no data, comes too late or never comes.
\<close>

theorem read_response_exact:
  "\<exists>k \<le> length rs. read_response timeout trm [] rs = concat (map data_of (take k rs)) \<and>
     sum_list (map fst (take k rs)) \<le> timeout \<and>
     (\<forall>j < k. data_of (rs ! j) \<noteq> [] \<and>
        (0 < j \<longrightarrow> \<not> terminated trm (concat (map data_of (take j rs))))) \<and>
     (k = length rs \<or> (0 < k \<and> terminated trm (concat (map data_of (take k rs)))) \<or>
      (k < length rs \<and> (data_of (rs ! k) = [] \<or> timeout < sum_list (map fst (take (Suc k) rs)))))"
  using read_response_stops [of timeout trm "[]" rs] unfolding stops_after_def append_Nil by blast

definition sample_reads :: reads where
  "sample_reads = [(10, ReadOk [65, 66]), (20, ReadOk [67, 13]), (5, ReadOk [68])]"

theorem read_response_exact_witness:
  "read_response 500 (Some [13]) [] sample_reads = [65, 66, 67, 13] \<and>
   (\<exists>k \<le> length sample_reads.
      read_response 500 (Some [13]) [] sample_reads = concat (map data_of (take k sample_reads)))"
proof
  show "read_response 500 (Some [13]) [] sample_reads = [65, 66, 67, 13]"
    by (simp add: sample_reads_def terminated_def ends_with_def Let_def)
  show "\<exists>k \<le> length sample_reads.
      read_response 500 (Some [13]) [] sample_reads = concat (map data_of (take k sample_reads))"
    using read_response_exact [of sample_reads 500 "Some [13]"] by blast
qed

section \<open>Which baud rate is reported\<close>

text \<open>What an attempt reads when the line has the rate of the attempt.\<close>

definition heard_at :: "port_env \<Rightarrow> serial_params \<Rightarrow> nat \<Rightarrow> u32 \<Rightarrow> bytes" where
  "heard_at env p i line =
     read_response (sp_timeout p) (sp_terminator p) [] (answer env i line (sp_probe p))"

definition attempt_works :: "port_env \<Rightarrow> serial_params \<Rightarrow> nat \<Rightarrow> bool" where
  "attempt_works env p i =
     ((i = 0 \<or> rate_ok env i) \<and> write_ok env i \<and>
      heard_at env p i (sp_bauds p ! i) \<noteq> [] \<and>
      satisfies (sp_filter p) (heard_at env p i (sp_bauds p ! i)))"

lemma response_to_match_cases:
  assumes "sp_filter p \<noteq> Some []"
  shows "response_to_match p path baud resp =
    Returns (if resp \<noteq> [] \<and> satisfies (sp_filter p) resp then Some (serial_match p path baud resp)
             else None)"
proof (cases "filter_accepts (sp_filter p) resp")
  case Panics
  then show ?thesis using assms by (simp add: filter_accepts_Panics)
next
  case (Returns ok)
  then have "ok = satisfies (sp_filter p) resp"
    using filter_accepts_True [of "sp_filter p" resp] by (cases ok) auto
  with Returns show ?thesis by (simp add: response_to_match_def)
qed

lemma response_to_match_Some:
  "response_to_match p path baud resp = Returns (Some m) \<Longrightarrow>
     m = serial_match p path baud resp \<and> resp \<noteq> [] \<and> satisfies (sp_filter p) resp"
  by (auto simp: response_to_match_def filter_accepts_True split: if_splits outcome.splits)

lemma response_to_match_accepted:
  "resp \<noteq> [] \<Longrightarrow> satisfies (sp_filter p) resp \<Longrightarrow>
     response_to_match p path baud resp = Returns (Some (serial_match p path baud resp))"
  by (simp add: response_to_match_def filter_accepts_True [THEN iffD2])

lemma try_bauds_find:
  assumes "first \<notin> set bauds" "sp_filter p \<noteq> Some []"
    and "\<And>i. \<not> cancel_seen (sp_token p) (token_read env i)"
    and "distinct bauds" "0 < i" "\<And>j. j < length bauds \<Longrightarrow> sp_bauds p ! (i + j) = bauds ! j"
  shows "try_bauds env p path first line i bauds =
    Returns (Inr (map_option (\<lambda>k. serial_match p path (sp_bauds p ! k) (heard_at env p k (sp_bauds p ! k)))
      (find (attempt_works env p) [i..<i + length bauds])))"
  using assms(1,4-6)
proof (induction bauds arbitrary: i line)
  case Nil
  then show ?case by simp
next
  case (Cons b bs)
  have b: "sp_bauds p ! i = b" "b \<noteq> first"
    using Cons.prems(1) Cons.prems(4) [of 0] by auto
  have up: "[i..<i + length (b # bs)] = i # [Suc i..<Suc i + length bs]"
    by (simp add: upt_conv_Cons del: upt_Suc)
  have IH: "try_bauds env p path first l (Suc i) bs =
    Returns (Inr (map_option (\<lambda>k. serial_match p path (sp_bauds p ! k) (heard_at env p k (sp_bauds p ! k)))
      (find (attempt_works env p) [Suc i..<Suc i + length bs])))" for l
  proof (rule Cons.IH)
    show "sp_bauds p ! (Suc i + j) = bs ! j" if "j < length bs" for j
      using Cons.prems(4) [of "Suc j"] that by simp
  qed (use Cons.prems in auto)
  show ?case
  proof (cases "attempt_works env p i")
    case True
    then show ?thesis
      unfolding up
      using b assms(2,3) Cons.prems(3)
      by (simp add: response_to_match_cases attempt_works_def heard_at_def Let_def)
  next
    case False
    have "\<exists>l. try_bauds env p path first line i (b # bs) = try_bauds env p path first l (Suc i) bs"
      using False b assms(2,3) Cons.prems(3)
      by (auto simp: response_to_match_cases attempt_works_def [of env p i] heard_at_def Let_def)
    with False show ?thesis
      unfolding up using IH by auto
  qed
qed

text \<open>
  C11.  On a port that opens, without cancellation and with distinct baud rates, the asynchronous
  probe reports the first baud rate, in the configured order, whose attempt works: the rate is
  accepted, the probe is written, and the device answers at that rate with something the filter
  accepts.  The match carries that rate and that answer; without such a rate there is no match.
\<close>

theorem probe_all_bauds_first:
  assumes "distinct (sp_bauds p)" "sp_filter p \<noteq> Some []"
    and "\<And>i. \<not> cancel_seen (sp_token p) (token_read env i)" "open_error env = None"
    and "build_builder path (hd (sp_bauds p)) (sp_data_bits p) (sp_parity p) (sp_stop_bits p)
      (sp_flow_control p) = Inr b"
  shows "probe_port_all_bauds env p path =
    Returns (Inr (map_option (\<lambda>i. serial_match p path (sp_bauds p ! i) (heard_at env p i (sp_bauds p ! i)))
      (find (attempt_works env p) [0..<length (sp_bauds p)])))"
proof (cases "sp_bauds p")
  case Nil
  then show ?thesis by (simp add: probe_port_all_bauds_def)
next
  case (Cons f bs)
  have up: "[0..<length (sp_bauds p)] = 0 # [1..<1 + length bs]"
    by (simp add: Cons upt_conv_Cons del: upt_Suc)
  have pb: "pb_baud b = f"
    using assms(5) Cons by (simp add: build_builder_iff)
  have rest: "try_bauds env p path f f (Suc 0) bs =
    Returns (Inr (map_option (\<lambda>k. serial_match p path (sp_bauds p ! k) (heard_at env p k (sp_bauds p ! k)))
      (find (attempt_works env p) [Suc 0..<Suc 0 + length bs])))"
    using assms(1) Cons by (intro try_bauds_find [OF _ assms(2,3)]) auto
  show ?thesis
  proof (cases "attempt_works env p 0")
    case True
    then show ?thesis
      unfolding up using assms(2-5) Cons pb
      by (simp add: probe_port_all_bauds_def response_to_match_cases attempt_works_def heard_at_def)
  next
    case False
    have "probe_port_all_bauds env p path = try_bauds env p path f f (Suc 0) bs"
      using False assms(2-5) Cons pb
      by (auto simp: probe_port_all_bauds_def response_to_match_cases attempt_works_def [of env p 0]
          heard_at_def Let_def)
    with False show ?thesis
      unfolding up rest by simp
  qed
qed

definition sample_params :: "u32 list \<Rightarrow> serial_params" where
  "sample_params bauds =
     \<lparr>sp_bauds = bauds, sp_probe = [63], sp_timeout = 500, sp_data_bits = Some 7,
      sp_parity = Some ''even'', sp_stop_bits = None, sp_flow_control = None, sp_token = None,
      sp_terminator = None, sp_filter = Some [75]\<rparr>"

definition sample_port :: "(nat \<Rightarrow> u32 \<Rightarrow> reads) \<Rightarrow> port_env" where
  "sample_port ans =
     \<lparr>open_error = None, open_ms = 5, token_read = (\<lambda>_. False), rate_ok = (\<lambda>_. True),
      write_ok = (\<lambda>_. True), write_ms = (\<lambda>_. 1), settable = (\<lambda>_. True),
      answer = (\<lambda>i line _. ans i line)\<rparr>"

lemma sample_builder:
  "build_builder path baud (Some 7) (Some ''even'') None None =
     Inr \<lparr>pb_path = path, pb_baud = baud, pb_data_bits = DataSeven, pb_parity = ParityEven,
       pb_stop_bits = StopOne, pb_flow_control = FlowNone\<rparr>"
  by (simp add: build_builder_iff parity_of_def flow_control_of_def unwrap_or_def)

lemma sample_fields [simp]:
  "sp_bauds (sample_params bauds) = bauds" "sp_timeout (sample_params bauds) = 500"
  "sp_probe (sample_params bauds) = [63]" "sp_token (sample_params bauds) = None"
  "sp_terminator (sample_params bauds) = None" "sp_filter (sample_params bauds) = Some [75]"
  "open_error (sample_port ans) = None" "open_ms (sample_port ans) = 5"
  "rate_ok (sample_port ans) i" "write_ok (sample_port ans) i"
  "write_ms (sample_port ans) i = 1" "settable (sample_port ans) i"
  "answer (sample_port ans) i line w = ans i line"
  by (simp_all add: sample_params_def sample_port_def)

lemma sample_opens:
  "build_builder path (hd (sp_bauds (sample_params bauds))) (sp_data_bits (sample_params bauds))
     (sp_parity (sample_params bauds)) (sp_stop_bits (sample_params bauds))
     (sp_flow_control (sample_params bauds)) =
   Inr \<lparr>pb_path = path, pb_baud = hd bauds, pb_data_bits = DataSeven, pb_parity = ParityEven,
     pb_stop_bits = StopOne, pb_flow_control = FlowNone\<rparr>"
  by (simp add: sample_params_def sample_builder)

lemma satisfies_filter_eval:
  "satisfies (Some f) resp \<longleftrightarrow> f \<noteq> [] \<and> str_contains f resp"
  "satisfies None resp"
  by (auto simp: satisfies_def str_contains_iff)

definition only_fast :: "nat \<Rightarrow> u32 \<Rightarrow> reads" where
  "only_fast i line = (if line = 115200 then [(20, ReadOk [79, 75])] else [])"

theorem probe_all_bauds_first_witness:
  "probe_port_all_bauds (sample_port only_fast) (sample_params [9600, 115200]) ''ttyUSB0'' =
     Returns (Inr (Some (serial_match (sample_params [9600, 115200]) ''ttyUSB0'' 115200 [79, 75])))"
proof -
  let ?p = "sample_params [9600, 115200]" and ?e = "sample_port only_fast"
  have h: "heard_at ?e ?p 0 9600 = []" "heard_at ?e ?p (Suc 0) 115200 = [79, 75]"
    by (simp_all add: heard_at_def only_fast_def terminated_def Let_def)
  then have "\<not> attempt_works ?e ?p 0" "attempt_works ?e ?p (Suc 0)"
    by (simp_all add: attempt_works_def satisfies_filter_eval)
  then show ?thesis
    using probe_all_bauds_first
      [OF _ _ _ _ sample_opens [of "''ttyUSB0''" "[9600, 115200]"], where env = ?e] h
    by simp
qed

text \<open>
  A baud rate that repeats the first one is not set again: with rates \<open>a, b, a\<close> the third
  attempt runs with the line still at \<open>b\<close>, and an answer to it is reported as a match at rate
  \<open>a\<close>.
\<close>

theorem repeated_first_baud_mislabels:
  assumes "sp_bauds p = [a, b, a]" "a \<noteq> b" "sp_filter p \<noteq> Some []" "sp_token p = None"
    and "open_error env = None" "rate_ok env 1" "\<And>i. write_ok env i"
    and "build_builder path a (sp_data_bits p) (sp_parity p) (sp_stop_bits p) (sp_flow_control p) = Inr bld"
    and "heard_at env p 0 a = []" "heard_at env p 1 b = []"
    and "heard_at env p 2 b \<noteq> []" "satisfies (sp_filter p) (heard_at env p 2 b)"
  shows "\<exists>m. probe_port_all_bauds env p path = Returns (Inr (Some m)) \<and>
    baud_rate m = Some a \<and> response m = Some (heard_at env p 2 b)"
proof -
  have "pb_baud bld = a"
    using assms(8) by (simp add: build_builder_iff)
  then have "probe_port_all_bauds env p path =
      Returns (Inr (Some (serial_match p path a (heard_at env p 2 b))))"
    using assms(1-8) assms(9-12) [unfolded heard_at_def]
    by (simp add: probe_port_all_bauds_def response_to_match_cases heard_at_def numeral_2_eq_2 Let_def)
  then show ?thesis
    by (simp add: baud_rate_match)
qed

definition slow_boot :: "nat \<Rightarrow> u32 \<Rightarrow> reads" where
  "slow_boot i line = (if i = 2 \<and> line = 115200 then [(20, ReadOk [79, 75])] else [])"

theorem repeated_first_baud_mislabels_witness:
  "\<exists>m. probe_port_all_bauds (sample_port slow_boot) (sample_params [9600, 115200, 9600]) ''ttyUSB0'' =
     Returns (Inr (Some m)) \<and> baud_rate m = Some 9600 \<and> response m = Some [79, 75]"
proof -
  let ?p = "sample_params [9600, 115200, 9600]" and ?e = "sample_port slow_boot"
  have h: "heard_at ?e ?p 0 9600 = []" "heard_at ?e ?p 1 115200 = []" "heard_at ?e ?p 2 115200 = [79, 75]"
    by (simp_all add: heard_at_def slow_boot_def terminated_def Let_def)
  have "\<exists>m. probe_port_all_bauds ?e ?p ''ttyUSB0'' = Returns (Inr (Some m)) \<and>
      baud_rate m = Some 9600 \<and> response m = Some (heard_at ?e ?p 2 115200)"
    using h sample_opens [of "''ttyUSB0''" "[9600, 115200, 9600]"]
    by (intro repeated_first_baud_mislabels) (simp_all add: satisfies_filter_eval)
  then show ?thesis by (simp add: h)
qed

section \<open>The blocking probe\<close>

definition prompt :: "nat \<Rightarrow> reads \<Rightarrow> bool" where
  "prompt limit rs = ((\<forall>(d, r) \<in> set rs. d \<le> 50) \<and> sum_list (map fst rs) \<le> limit)"

lemma read_blocking_prompt:
  assumes "\<forall>(d, r) \<in> set rs. d \<le> 50" "sum_list (map fst rs) \<le> left" "50 \<le> cur"
  shows "\<exists>cur' spent'. read_blocking stb cur trm acc spent rs =
    (read_response left trm acc rs, cur', spent') \<and> 50 \<le> cur'"
  using assms
proof (induction left trm acc rs arbitrary: cur spent rule: read_response.induct)
  case (1 left trm acc)
  then show ?case by simp
next
  case (2 left trm acc d r rs)
  have d: "\<not> left < d" "\<not> cur < d"
    using 2(2-4) by auto
  show ?case
  proof (cases "r = ReadErr \<or> r = ReadOk [] \<or> (\<exists>bs. r = ReadOk bs \<and> terminated trm (acc @ bs))")
    case True
    then show ?thesis
      using d 2(4) by (auto simp: Let_def split: read_result.split)
  next
    case False
    then obtain bs where r: "r = ReadOk bs" "bs \<noteq> []" "\<not> terminated trm (acc @ bs)"
      by (cases r) auto
    have "\<exists>cur' spent'. read_blocking stb (if stb then 50 else cur) trm (acc @ bs) (spent + d) rs =
        (read_response (left - d) trm (acc @ bs) rs, cur', spent') \<and> 50 \<le> cur'"
      using 2(2-4) by (intro 2(1) [OF d(1) r(1,2) refl r(3)]) auto
    then show ?thesis
      using r d by simp
  qed
qed

lemma try_bauds_sync_prompt:
  assumes "\<And>i l. prompt (sp_timeout p) (answer env i l (sp_probe p))" "50 \<le> cur"
  shows "fst (try_bauds_sync env p path first line cur spent i bauds) =
    try_bauds env p path first line i bauds"
  using assms(2)
proof (induction bauds arbitrary: line cur spent i)
  case Nil
  then show ?case by simp
next
  case (Cons b bs)
  let ?line = "if b \<noteq> first then b else line"
  let ?rs = "answer env i ?line (sp_probe p)"
  obtain cur' spent' where rb: "read_blocking (settable env i) cur (sp_terminator p) []
      (spent + write_ms env i) ?rs =
      (read_response (sp_timeout p) (sp_terminator p) [] ?rs, cur', spent')" "50 \<le> cur'"
    using read_blocking_prompt [of ?rs "sp_timeout p" cur] assms(1) [of i ?line] Cons.prems
    by (fastforce simp: prompt_def)
  show ?case
  proof (cases "b = first")
    case True
    then show ?thesis
      using Cons.IH [OF Cons.prems] Cons.IH [OF rb(2)] rb(1)
      by (simp add: Let_def split: outcome.split option.split)
  next
    case False
    then show ?thesis
      using Cons.IH [OF Cons.prems] Cons.IH [OF rb(2)] rb(1)
      by (simp add: Let_def split: outcome.split option.split)
  qed
qed

text \<open>
  C29.  Where the device answers promptly, every read within 50 ms and each answer within the
  timeout, the blocking probe reports exactly what the asynchronous one reports.
\<close>

theorem sync_probe_agrees:
  assumes "\<And>i line. prompt (sp_timeout p) (answer env i line (sp_probe p))" "50 \<le> sp_timeout p"
  shows "fst (probe_port_all_bauds_sync env p path) = probe_port_all_bauds env p path"
  using try_bauds_sync_prompt [OF assms]
  by (simp add: probe_port_all_bauds_sync_def probe_port_all_bauds_def
      split: list.split sum.split option.split)

theorem sync_probe_agrees_witness:
  "fst (probe_port_all_bauds_sync (sample_port only_fast) (sample_params [9600, 115200]) ''ttyUSB0'') =
   probe_port_all_bauds (sample_port only_fast) (sample_params [9600, 115200]) ''ttyUSB0''"
  by (rule sync_probe_agrees)
    (simp_all add: prompt_def sample_port_def sample_params_def only_fast_def)

section \<open>The time a task has\<close>

lemma read_blocking_spent:
  "read_blocking stb cur trm acc spent rs = (resp, cur', spent') \<Longrightarrow> spent \<le> spent'"
proof (induction stb cur trm acc spent rs rule: read_blocking.induct)
  case (1 stb cur trm acc spent)
  then show ?case by simp
next
  case (2 stb cur trm acc spent d r rs)
  then show ?case
    by (fastforce simp: Let_def split: if_splits read_result.splits)
qed

lemma try_bauds_sync_spent:
  "spent \<le> snd (try_bauds_sync env p path first line cur spent i bauds)"
proof (induction bauds arbitrary: line cur spent i)
  case Nil
  then show ?case by simp
next
  case (Cons b bs)
  let ?line = "if b \<noteq> first then b else line"
  obtain resp cur' spent' where rb: "read_blocking (settable env i) cur (sp_terminator p) []
      (spent + write_ms env i) (answer env i ?line (sp_probe p)) = (resp, cur', spent')"
    by (metis prod_cases3)
  have le: "spent \<le> spent'"
    using read_blocking_spent [OF rb] by simp
  have 1: "spent \<le> snd (try_bauds_sync env p path first l c (spent + write_ms env i) j bs)" for l c j
    using Cons.IH order.trans le_add1 by blast
  have 2: "spent \<le> snd (try_bauds_sync env p path first l c spent' j bs)" for l c j
    using Cons.IH le order.trans by blast
  show ?case
  proof (cases "b = first")
    case True
    then show ?thesis
      using rb by (simp add: 1 2 le Cons.IH Let_def split: outcome.split option.split)
  next
    case False
    then show ?thesis
      using rb by (simp add: 1 2 le Cons.IH Let_def split: outcome.split option.split)
  qed
qed

lemma try_bauds_sync_silent:
  assumes "sp_token p = None" "k \<le> length bauds"
    and "\<And>j. i \<le> j \<Longrightarrow> j < i + k \<Longrightarrow> rate_ok env j \<and> write_ok env j \<and> (\<forall>l. answer env j l (sp_probe p) = [])"
  shows "spent + k * cur \<le> snd (try_bauds_sync env p path first line cur spent i bauds)"
  using assms(2,3)
proof (induction bauds arbitrary: line spent i k)
  case Nil
  then show ?case by simp
next
  case (Cons b bs)
  show ?case
  proof (cases k)
    case 0
    then show ?thesis
      by (simp add: try_bauds_sync_spent del: try_bauds_sync.simps)
  next
    case (Suc k')
    let ?line = "if b \<noteq> first then b else line"
    have now: "rate_ok env i" "write_ok env i" "answer env i ?line (sp_probe p) = []"
      using Cons.prems(2) [of i] Suc by auto
    have "spent + write_ms env i + cur + k' * cur \<le>
        snd (try_bauds_sync env p path first ?line cur (spent + write_ms env i + cur) (Suc i) bs)"
      using Cons.prems Suc by (intro Cons.IH) auto
    then show ?thesis
      using now Suc assms(1) by (auto simp: response_to_match_def Let_def)
  qed
qed

text \<open>
  C40.  The budget of a sweep task, the read timeout plus one second, covers all baud rates
  together: when the device is silent at the first \<open>k\<close> rates and \<open>k\<close> timeouts exceed the budget,
  the sweep reports nothing for the port, however the device answers at the later rates.
\<close>

theorem sweep_budget_cuts_late_bauds:
  assumes "sp_token p = None" "k \<le> length (sp_bauds p)" "sp_timeout p + 1000 < k * sp_timeout p"
    and "\<And>j. j < k \<Longrightarrow> rate_ok env j \<and> write_ok env j \<and> (\<forall>l. answer env j l (sp_probe p) = [])"
    and "open_error env = None"
    and "build_builder path (hd (sp_bauds p)) (sp_data_bits p) (sp_parity p) (sp_stop_bits p)
      (sp_flow_control p) = Inr b"
  shows "sweep_task p env path = Returns (Inr None)"
proof (cases "sp_bauds p")
  case Nil
  then show ?thesis using assms(2,3) by simp
next
  case (Cons f bs)
  have "probe_port_all_bauds_sync env p path =
      try_bauds_sync env p path f (pb_baud b) (sp_timeout p) (open_ms env) 0 (sp_bauds p)"
    using assms(5,6) Cons by (simp add: probe_port_all_bauds_sync_def)
  moreover have "open_ms env + k * sp_timeout p \<le>
      snd (try_bauds_sync env p path f (pb_baud b) (sp_timeout p) (open_ms env) 0 (sp_bauds p))"
    using assms(1,2,4) by (intro try_bauds_sync_silent) auto
  ultimately have "open_budget p < snd (probe_port_all_bauds_sync env p path)"
    using assms(3) by (simp add: open_budget_def)
  then show ?thesis
    by (simp add: sweep_task_def split_def)
qed

definition four_bauds :: "u32 list" where
  "four_bauds = [1200, 2400, 9600, 19200, 115200]"

definition at_last_rate :: "nat \<Rightarrow> u32 \<Rightarrow> reads" where
  "at_last_rate i line = (if i = 4 \<and> line = 115200 then [(20, ReadOk [79, 75])] else [])"

theorem sweep_budget_cuts_late_bauds_witness:
  "sweep_task (sample_params four_bauds) (sample_port at_last_rate) ''ttyUSB0'' = Returns (Inr None) \<and>
   probe_port_all_bauds (sample_port at_last_rate) (sample_params four_bauds) ''ttyUSB0'' =
     Returns (Inr (Some (serial_match (sample_params four_bauds) ''ttyUSB0'' 115200 [79, 75])))"
proof
  show "sweep_task (sample_params four_bauds) (sample_port at_last_rate) ''ttyUSB0'' = Returns (Inr None)"
    by (rule sweep_budget_cuts_late_bauds [where k = 4, OF _ _ _ _ _ sample_opens])
      (auto simp: four_bauds_def at_last_rate_def)
  show "probe_port_all_bauds (sample_port at_last_rate) (sample_params four_bauds) ''ttyUSB0'' =
     Returns (Inr (Some (serial_match (sample_params four_bauds) ''ttyUSB0'' 115200 [79, 75])))"
    using sample_opens [of "''ttyUSB0''" four_bauds]
    by (simp add: probe_port_all_bauds_def four_bauds_def response_to_match_cases at_last_rate_def
        satisfies_filter_eval terminated_def Let_def)
qed

lemma read_blocking_stream:
  assumes "\<forall>(d, r) \<in> set rs. d \<le> 50 \<and> (\<exists>bs. r = ReadOk bs \<and> bs \<noteq> [])" "50 \<le> cur"
  shows "spent + sum_list (map fst rs) \<le> snd (snd (read_blocking stb cur None acc spent rs))"
  using assms
proof (induction rs arbitrary: cur acc spent)
  case Nil
  then show ?case by simp
next
  case (Cons x rs)
  obtain d bs where x: "x = (d, ReadOk bs)" "bs \<noteq> []" "d \<le> 50"
    using Cons.prems(1) by (cases x) auto
  have "spent + d + sum_list (map fst rs) \<le>
      snd (snd (read_blocking stb (if stb then 50 else cur) None (acc @ bs) (spent + d) rs))"
    using Cons.prems by (intro Cons.IH) auto
  then show ?case
    using x Cons.prems(2) by (simp add: terminated_def Let_def add.assoc)
qed

lemma read_response_nonempty: "acc \<noteq> [] \<Longrightarrow> read_response left trm acc rs \<noteq> []"
  by (induction left trm acc rs rule: read_response.induct) (auto simp: Let_def split: read_result.split)

text \<open>
  A device that keeps sending, with pauses of at most 50 ms and for longer than the budget, is
  never found by a sweep without a terminator, because the blocking read does not end while data
  arrives; the asynchronous probe, which the preferred port gets, does report it.
\<close>

theorem sweep_misses_streaming_device:
  assumes "sp_bauds p = f # bs" "sp_token p = None" "sp_terminator p = None" "sp_filter p = None"
    and "open_error env = None" "write_ok env 0" "50 \<le> sp_timeout p"
    and "build_builder path f (sp_data_bits p) (sp_parity p) (sp_stop_bits p) (sp_flow_control p) = Inr b"
    and "answer env 0 f (sp_probe p) = rs" "rs \<noteq> []"
    and "\<forall>(d, r) \<in> set rs. d \<le> 50 \<and> (\<exists>bs. r = ReadOk bs \<and> bs \<noteq> [])"
    and "sp_timeout p + 1000 < sum_list (map fst rs)"
  shows "sweep_task p env path = Returns (Inr None) \<and>
    (\<exists>resp. probe_port_all_bauds env p path = Returns (Inr (Some (serial_match p path f resp))))"
proof
  have pb: "pb_baud b = f"
    using assms(8) by (simp add: build_builder_iff)
  let ?rb = "read_blocking (settable env 0) (sp_timeout p) None [] (open_ms env + write_ms env 0) rs"
  have "open_ms env + write_ms env 0 + sum_list (map fst rs) \<le> snd (snd ?rb)"
    using assms(7,11) by (rule read_blocking_stream [rotated])
  then have late: "open_budget p < snd (snd ?rb)"
    using assms(12) by (simp add: open_budget_def)
  have "snd (snd ?rb) \<le> snd (probe_port_all_bauds_sync env p path)"
    using assms(1-6,8,9) pb try_bauds_sync_spent
    by (auto simp: probe_port_all_bauds_sync_def response_to_match_cases split: prod.split)
  with late show "sweep_task p env path = Returns (Inr None)"
    by (simp add: sweep_task_def split_def)
  obtain d bs' rs' where rs: "rs = (d, ReadOk bs') # rs'" "bs' \<noteq> []" "d \<le> 50"
    using assms(10,11) by (cases rs) auto
  have "read_response (sp_timeout p) None [] rs \<noteq> []"
    using rs assms(7) read_response_nonempty [of bs'] by (simp add: terminated_def Let_def)
  then show "\<exists>resp. probe_port_all_bauds env p path = Returns (Inr (Some (serial_match p path f resp)))"
    using assms(1-6,8,9) pb
    by (auto simp: probe_port_all_bauds_def response_to_match_cases satisfies_filter_eval Let_def)
qed

definition gps_port :: "nat \<Rightarrow> u32 \<Rightarrow> reads" where
  "gps_port i line = replicate 100 (40, ReadOk [36])"

theorem sweep_misses_streaming_device_witness:
  "sweep_task ((sample_params [9600])\<lparr>sp_filter := None\<rparr>) (sample_port gps_port) ''ttyACM0'' =
     Returns (Inr None)"
proof -
  let ?p = "(sample_params [9600])\<lparr>sp_filter := None\<rparr>"
  obtain b where b: "build_builder ''ttyACM0'' 9600 (sp_data_bits ?p) (sp_parity ?p) (sp_stop_bits ?p)
      (sp_flow_control ?p) = Inr b"
    using sample_opens [of "''ttyACM0''" "[9600]"] by simp
  show ?thesis
    by (rule sweep_misses_streaming_device [OF _ _ _ _ _ _ _ b, THEN conjunct1])
      (auto simp: gps_port_def sum_list_replicate)
qed

end
