(* ===== verification/Serial_Sweep.thy ===== *)
theory Serial_Sweep
  imports Serial_Probe
begin

text \<open>
  The sweep over all serial ports: which ports are selected, what the matches of a sweep are, and
  what cancellation does to it.
\<close>

section \<open>Selected ports\<close>

lemma strip_prefix_case:
  "(case strip_prefix pre x of None \<Rightarrow> True | Some sfx \<Rightarrow> \<not> P sfx) \<longleftrightarrow> \<not> (\<exists>sfx. x = pre @ sfx \<and> P sfx)"
  unfolding strip_prefix_iff [symmetric] by (cases "strip_prefix pre x") auto

lemma drop_tty_twins_iff:
  "q \<in> set (drop_tty_twins ports) \<longleftrightarrow>
     q \<in> set ports \<and>
     \<not> (\<exists>sfx. port_name q = ''/dev/tty.'' @ sfx \<and> (\<exists>r \<in> set ports. port_name r = ''/dev/cu.'' @ sfx))"
proof -
  have "sfx \<in> set (List.map_filter (\<lambda>p. strip_prefix ''/dev/cu.'' (port_name p)) ports) \<longleftrightarrow>
      (\<exists>r \<in> set ports. port_name r = ''/dev/cu.'' @ sfx)" for sfx
    unfolding strip_prefix_iff [symmetric] by (force simp: List.map_filter_def image_iff)
  then show ?thesis
    unfolding drop_tty_twins_def Let_def by (simp only: set_filter mem_Collect_eq strip_prefix_case)
qed

lemma drop_tty_twins_subseq: "subseq (drop_tty_twins ports) ports"
  unfolding drop_tty_twins_def Let_def by (rule subseq_filter_left)

lemma select_ports_subseq: "subseq (select_ports macos bt flt ports) ports"
proof -
  let ?a = "if \<not> bt then filter (\<lambda>p. port_type p \<noteq> BluetoothPort) ports else ports"
  let ?b = "if macos then drop_tty_twins ?a else ?a"
  have "subseq ?a ports"
    by simp
  moreover have "subseq ?b ?a"
    using drop_tty_twins_subseq by simp
  moreover have "subseq (select_ports macos bt flt ports) ?b"
    by (cases flt) (simp_all add: select_ports_def Let_def)
  ultimately show ?thesis
    using subseq_order.trans by blast
qed

text \<open>
  A port is selected exactly when it is listed, is no Bluetooth port unless these are included,
  contains the filter if there is one, and on macOS is not the \<open>tty\<close> form of a port whose \<open>cu\<close>
  form is listed as well; the order of the list is kept.
\<close>

theorem select_ports_exact:
  "subseq (select_ports macos bt flt ports) ports \<and>
   set (select_ports macos bt flt ports) =
     {q \<in> set ports. (bt \<or> port_type q \<noteq> BluetoothPort) \<and>
        (\<forall>f. flt = Some f \<longrightarrow> sublist f (port_name q)) \<and>
        (macos \<longrightarrow> \<not> (\<exists>sfx. port_name q = ''/dev/tty.'' @ sfx \<and>
           (\<exists>r \<in> set ports. port_name r = ''/dev/cu.'' @ sfx \<and> (bt \<or> port_type r \<noteq> BluetoothPort))))}"
  using select_ports_subseq
  by (auto simp: select_ports_def Let_def drop_tty_twins_iff str_contains_iff split: option.split)

definition sample_ports :: "port_info list" where
  "sample_ports =
     [\<lparr>port_name = ''/dev/tty.usb1'', port_type = UsbPort\<rparr>,
      \<lparr>port_name = ''/dev/cu.usb1'', port_type = UsbPort\<rparr>,
      \<lparr>port_name = ''/dev/cu.bt'', port_type = BluetoothPort\<rparr>]"

theorem select_ports_exact_witness:
  "\<lparr>port_name = ''/dev/cu.usb1'', port_type = UsbPort\<rparr> \<in>
     set (select_ports True False (Some ''usb'') sample_ports)"
proof -
  have "sublist ''usb'' ''/dev/cu.usb1''"
    by (simp add: str_contains_iff [symmetric])
  then show ?thesis
    using select_ports_exact [of True False "Some ''usb''" sample_ports]
    by (simp add: sample_ports_def)
qed

section \<open>The probes keep their contract\<close>

definition good_response :: "serial_params \<Rightarrow> bytes option \<Rightarrow> bool" where
  "good_response p r = (\<exists>b. r = Some b \<and> b \<noteq> [] \<and> satisfies (sp_filter p) b)"

lemma response_to_match_not_Some:
  "response_to_match p path baud resp = Returns (Some m) \<Longrightarrow> baud \<in> B \<Longrightarrow>
     \<exists>baud \<in> B. \<exists>resp. m = serial_match p path baud resp \<and> resp \<noteq> [] \<and> satisfies (sp_filter p) resp"
  using response_to_match_Some by blast

lemma try_bauds_sound:
  "try_bauds env p path first line i bauds = Returns (Inr (Some m)) \<Longrightarrow> set bauds \<subseteq> B \<Longrightarrow>
     \<exists>baud \<in> B. \<exists>resp. m = serial_match p path baud resp \<and> resp \<noteq> [] \<and> satisfies (sp_filter p) resp"
proof (induction bauds arbitrary: line i)
  case Nil
  then show ?case by simp
next
  case (Cons b bs)
  let ?line = "if b \<noteq> first then b else line"
  let ?r = "response_to_match p path b
    (read_response (sp_timeout p) (sp_terminator p) [] (answer env i ?line (sp_probe p)))"
  have sub: "set bs \<subseteq> B" "b \<in> B"
    using Cons.prems(2) by auto
  consider "\<exists>l. try_bauds env p path first l (Suc i) bs = Returns (Inr (Some m))" | "?r = Returns (Some m)"
    using Cons.prems(1) unfolding try_bauds.simps Let_def
    by (cases ?r; cases "\<exists>x. ?r = Returns (Some x)") (auto split: if_splits option.splits)
  then show ?case
    using Cons.IH sub response_to_match_not_Some by cases blast+
qed

lemma try_bauds_sync_sound:
  "try_bauds_sync env p path first line cur spent i bauds = (Returns (Inr (Some m)), t) \<Longrightarrow>
   set bauds \<subseteq> B \<Longrightarrow>
     \<exists>baud \<in> B. \<exists>resp. m = serial_match p path baud resp \<and> resp \<noteq> [] \<and> satisfies (sp_filter p) resp"
proof (induction bauds arbitrary: line cur spent i)
  case Nil
  then show ?case by simp
next
  case (Cons b bs)
  let ?line = "if b \<noteq> first then b else line"
  obtain resp cur' spent' where rb: "read_blocking (settable env i) cur (sp_terminator p) []
      (spent + write_ms env i) (answer env i ?line (sp_probe p)) = (resp, cur', spent')"
    by (metis prod_cases3)
  let ?r = "response_to_match p path b resp"
  have sub: "set bs \<subseteq> B" "b \<in> B"
    using Cons.prems(2) by auto
  consider "\<exists>l c u. try_bauds_sync env p path first l c u (Suc i) bs = (Returns (Inr (Some m)), t)"
    | "?r = Returns (Some m)"
    using Cons.prems(1) unfolding try_bauds_sync.simps Let_def rb prod.case
    by (cases ?r; cases "\<exists>x. ?r = Returns (Some x)") (auto split: if_splits option.splits)
  then show ?case
    using Cons.IH sub response_to_match_not_Some by cases blast+
qed

lemma sweep_task_sound:
  assumes "sweep_task p env path = Returns (Inr (Some m))"
  shows "\<exists>baud \<in> set (sp_bauds p). \<exists>resp. m = serial_match p path baud resp \<and> resp \<noteq> [] \<and>
    satisfies (sp_filter p) resp"
proof -
  obtain t where "probe_port_all_bauds_sync env p path = (Returns (Inr (Some m)), t)"
    using assms by (auto simp: sweep_task_def split: prod.splits if_splits outcome.splits)
  then have "\<exists>f line cur spent. try_bauds_sync env p path f line cur spent 0 (sp_bauds p) =
      (Returns (Inr (Some m)), t)"
    by (auto simp: probe_port_all_bauds_sync_def simp del: try_bauds_sync.simps
        split: list.splits sum.splits option.splits)
  then show ?thesis
    using try_bauds_sync_sound by (metis order_refl)
qed

lemma probe_all_bauds_sound:
  assumes "probe_port_all_bauds env p path = Returns (Inr (Some m))"
  shows "\<exists>baud \<in> set (sp_bauds p). \<exists>resp. m = serial_match p path baud resp \<and> resp \<noteq> [] \<and>
    satisfies (sp_filter p) resp"
proof -
  have "\<exists>f line. try_bauds env p path f line 0 (sp_bauds p) = Returns (Inr (Some m))"
    using assms
    by (auto simp: probe_port_all_bauds_def simp del: try_bauds.simps
        split: list.splits sum.splits option.splits)
  then show ?thesis
    using try_bauds_sound by (metis order_refl)
qed

interpretation swept: endpoint_probe "sweep_task p" "\<lambda>path. path" Serial "good_response p" for p
  by unfold_locales (auto simp: good_response_def dest!: sweep_task_sound)

interpretation asked: endpoint_probe "\<lambda>env. probe_port_all_bauds env p" "\<lambda>path. path" Serial
    "good_response p" for p
  by unfold_locales (auto simp: good_response_def dest!: probe_all_bauds_sound)

section \<open>Spawning and draining\<close>

lemma spawn_until_prefix: "prefix (spawn_until tok reads n xs) xs"
  by (induction tok reads n xs rule: spawn_until.induct) auto

lemma spawn_until_all: "(\<And>n. \<not> cancel_seen tok (reads n)) \<Longrightarrow> spawn_until tok reads n xs = xs"
  by (induction tok reads n xs rule: spawn_until.induct) auto

lemma spawn_until_stops:
  "cancel_seen tok (reads (n + k)) \<Longrightarrow> length (spawn_until tok reads n xs) \<le> k"
proof (induction xs arbitrary: n k)
  case Nil
  then show ?case by simp
next
  case (Cons x xs)
  then show ?case by (cases k) (auto simp: Cons.IH)
qed

definition taken_matches :: "probe_result list \<Rightarrow> device_match list" where
  "taken_matches rs = List.map_filter joined_match rs"

lemma taken_matches_simps [simp]:
  "taken_matches [] = []"
  "taken_matches (r # rs) = (case joined_match r of None \<Rightarrow> [] | Some m \<Rightarrow> [m]) @ taken_matches rs"
  by (simp_all add: taken_matches_def List.map_filter_def split: option.split)

lemma drain_until_take:
  "\<exists>k \<le> length rs. drain_until tok reads tx n rs ms s =
     (ms @ taken_matches (take k rs), send_all tx (taken_matches (take k rs)) s) \<and>
     (k < length rs \<longrightarrow> cancel_seen tok (reads (n + k))) \<and>
     (\<forall>j < k. \<not> cancel_seen tok (reads (n + j)))"
proof (induction rs arbitrary: n ms s)
  case Nil
  then show ?case by (simp add: send_all_def)
next
  case (Cons r rs)
  show ?case
  proof (cases "cancel_seen tok (reads n)")
    case True
    then show ?thesis by (intro exI [of _ 0]) (simp add: send_all_def)
  next
    case False
    let ?ms = "case joined_match r of None \<Rightarrow> [] | Some m \<Rightarrow> [m]"
    have step: "drain_until tok reads tx n (r # rs) ms s =
        drain_until tok reads tx (Suc n) rs (ms @ ?ms) (send_all tx ?ms s)"
      using False by (simp add: send_all_def split: option.split)
    obtain k where k: "k \<le> length rs" "drain_until tok reads tx (Suc n) rs (ms @ ?ms) (send_all tx ?ms s) =
        ((ms @ ?ms) @ taken_matches (take k rs), send_all tx (taken_matches (take k rs)) (send_all tx ?ms s))"
      "k < length rs \<longrightarrow> cancel_seen tok (reads (Suc n + k))"
      "\<forall>j < k. \<not> cancel_seen tok (reads (Suc n + j))"
      using Cons.IH by blast
    have "\<forall>j < Suc k. \<not> cancel_seen tok (reads (n + j))"
      using k(4) False by (auto simp: less_Suc_eq_0_disj)
    then show ?thesis
      unfolding step using k(1-3)
      by (intro exI [of _ "Suc k"]) (simp add: send_all_append)
  qed
qed

section \<open>What a sweep reports\<close>

definition sweep_results :: "bool \<Rightarrow> sweep_env \<Rightarrow> serial_params \<Rightarrow> bool \<Rightarrow> string option \<Rightarrow> port_info list \<Rightarrow> probe_result list" where
  "sweep_results macos env p bt flt ports =
     swept.reports p (map (\<lambda>q. (port_at env (port_name q), port_name q))
       (spawn_until (sp_token p) (spawn_reads env) 0 (select_ports macos bt flt ports)))"

lemma sweep_results_map:
  "sweep_results macos env p bt flt ports =
     map (\<lambda>q. sweep_task p (port_at env (port_name q)) (port_name q))
       (spawn_until (sp_token p) (spawn_reads env) 0 (select_ports macos bt flt ports))"
  by (simp add: sweep_results_def swept.reports_def comp_def)

lemma sweep_taken:
  assumes "available env = Inr ports"
  shows "\<exists>k. sweep_all_ports macos env p bt flt tx s =
    (Inr (taken_matches (take k (pick_order (join_order env) (sweep_results macos env p bt flt ports)))),
     send_all tx (taken_matches (take k (pick_order (join_order env)
       (sweep_results macos env p bt flt ports)))) s) \<and>
    (k < length (sweep_results macos env p bt flt ports) \<longrightarrow> cancel_seen (sp_token p) (drain_reads env k)) \<and>
    (\<forall>j < k. \<not> cancel_seen (sp_token p) (drain_reads env j)) \<and>
    k \<le> length (sweep_results macos env p bt flt ports)"
proof -
  let ?rs = "pick_order (join_order env) (sweep_results macos env p bt flt ports)"
  obtain k where "k \<le> length ?rs" "drain_until (sp_token p) (drain_reads env) tx 0 ?rs [] s =
      ([] @ taken_matches (take k ?rs), send_all tx (taken_matches (take k ?rs)) s)"
    "k < length ?rs \<longrightarrow> cancel_seen (sp_token p) (drain_reads env (0 + k))"
    "\<forall>j < k. \<not> cancel_seen (sp_token p) (drain_reads env (0 + j))"
    using drain_until_take [of ?rs "sp_token p" "drain_reads env" tx 0 "[]" s] by blast
  then show ?thesis
    using assms by (intro exI [of _ k]) (simp add: sweep_all_ports_def sweep_results_map Let_def)
qed

lemma taken_matches_set: "m \<in> set (taken_matches rs) \<Longrightarrow> Returns (Inr (Some m)) \<in> set rs"
  by (auto simp: taken_matches_def List.map_filter_def joined_match_Some)

text \<open>
  Every match of a sweep, cancelled or not, comes from the task of a selected port: it is a
  serial match whose address is that port's name, with a non-empty response that passes the
  response filter and a baud rate from the configured ones.
\<close>

theorem sweep_reports_answers:
  assumes "available env = Inr ports"
    and "sweep_all_ports macos env p bt flt tx s = (Inr ms, s')" "m \<in> set ms"
  shows "\<exists>q \<in> set (select_ports macos bt flt ports).
    sweep_task p (port_at env (port_name q)) (port_name q) = Returns (Inr (Some m)) \<and>
    transport m = Serial \<and> address m = port_name q \<and>
    (\<exists>resp. response m = Some resp \<and> resp \<noteq> [] \<and> satisfies (sp_filter p) resp) \<and>
    (\<exists>b \<in> set (sp_bauds p). baud_rate m = Some b)"
proof -
  let ?rs = "sweep_results macos env p bt flt ports"
  obtain k where "ms = taken_matches (take k (pick_order (join_order env) ?rs))"
    using sweep_taken [OF assms(1), of macos p bt flt tx s] assms(2) by auto
  then have "Returns (Inr (Some m)) \<in> set ?rs"
    using taken_matches_set [of m] assms(3) in_set_takeD by fastforce
  then obtain q where q: "q \<in> set (spawn_until (sp_token p) (spawn_reads env) 0 (select_ports macos bt flt ports))"
    "sweep_task p (port_at env (port_name q)) (port_name q) = Returns (Inr (Some m))"
    by (auto simp: sweep_results_map)
  have "set (spawn_until (sp_token p) (spawn_reads env) 0 (select_ports macos bt flt ports)) \<subseteq>
      set (select_ports macos bt flt ports)"
    by (rule set_mono_prefix [OF spawn_until_prefix])
  then have "q \<in> set (select_ports macos bt flt ports)"
    using q(1) by (rule subsetD)
  then show ?thesis
    using q(2) swept.found [OF q(2)] sweep_task_sound [OF q(2)]
    by (auto simp: good_response_def baud_rate_match)
qed

text \<open>A sweep that never sees the token set joins the tasks of all selected ports.\<close>

definition quiet_sweep :: "sweep_env \<Rightarrow> serial_params \<Rightarrow> bool" where
  "quiet_sweep env p =
     (\<forall>n. \<not> cancel_seen (sp_token p) (spawn_reads env n) \<and> \<not> cancel_seen (sp_token p) (drain_reads env n))"

lemma quiet_sweep_None: "sp_token p = None \<Longrightarrow> quiet_sweep env p"
  by (simp add: quiet_sweep_def)

lemma sweep_uncancelled:
  assumes "available env = Inr ports" "quiet_sweep env p"
  shows "sweep_all_ports macos env p bt flt tx s =
      (Inr (join_all (join_order env) (sweep_results macos env p bt flt ports)),
       send_all tx (join_all (join_order env) (sweep_results macos env p bt flt ports)) s)"
    and "sweep_results macos env p bt flt ports =
      swept.reports p (map (\<lambda>q. (port_at env (port_name q), port_name q)) (select_ports macos bt flt ports))"
proof -
  let ?rs = "sweep_results macos env p bt flt ports"
  obtain k where k: "sweep_all_ports macos env p bt flt tx s =
      (Inr (taken_matches (take k (pick_order (join_order env) ?rs))),
       send_all tx (taken_matches (take k (pick_order (join_order env) ?rs))) s)"
    "k < length ?rs \<longrightarrow> cancel_seen (sp_token p) (drain_reads env k)"
    using sweep_taken [OF assms(1), of macos p bt flt tx s] by blast
  have "taken_matches (take k (pick_order (join_order env) ?rs)) = join_all (join_order env) ?rs"
    using k(2) assms(2) by (simp add: join_all_def taken_matches_def quiet_sweep_def)
  then show "sweep_all_ports macos env p bt flt tx s =
      (Inr (join_all (join_order env) ?rs), send_all tx (join_all (join_order env) ?rs) s)"
    using k(1) by simp
  show "?rs = swept.reports p (map (\<lambda>q. (port_at env (port_name q), port_name q)) (select_ports macos bt flt ports))"
    using assms(2) by (simp add: sweep_results_def spawn_until_all quiet_sweep_def)
qed

text \<open>
  Without a cancellation token a sweep misses nothing its tasks found: its matches are, as a
  multiset, the matches of the tasks of all selected ports, one at most for each port, with
  distinct addresses when the port names are distinct; a channel with room delivers them all.
\<close>

theorem sweep_complete:
  assumes "available env = Inr ports" "sp_token p = None"
  shows "\<exists>ms. fst (sweep_all_ports macos env p bt flt tx s) = Inr ms \<and>
    mset ms = mset (List.map_filter
      (\<lambda>q. joined_match (sweep_task p (port_at env (port_name q)) (port_name q)))
      (select_ports macos bt flt ports)) \<and>
    (distinct (map port_name ports) \<longrightarrow> distinct_addrs ms) \<and>
    (tx = Some (\<lambda>_. True) \<longrightarrow>
      delivered (snd (sweep_all_ports macos env p bt flt tx s)) = delivered s @ ms)"
proof -
  let ?sel = "select_ports macos bt flt ports"
  let ?rs = "sweep_results macos env p bt flt ports"
  let ?ms = "join_all (join_order env) ?rs"
  note sw = sweep_uncancelled(1) [OF assms(1) quiet_sweep_None [OF assms(2)], of macos bt flt tx s]
  note all = sweep_uncancelled(2) [OF assms(1) quiet_sweep_None [OF assms(2)], of macos bt flt]
  have "List.map_filter joined_match ?rs = List.map_filter
      (\<lambda>q. joined_match (sweep_task p (port_at env (port_name q)) (port_name q))) ?sel"
    by (simp add: all swept.reports_def List.map_filter_def filter_map comp_def)
  then have ms: "mset ?ms = mset (List.map_filter
      (\<lambda>q. joined_match (sweep_task p (port_at env (port_name q)) (port_name q))) ?sel)"
    by (simp only: join_all_mset)
  have "distinct_addrs ?ms" if "distinct (map port_name ports)"
  proof -
    have "distinct (map port_name ?sel)"
      using that select_ports_subseq subseq_map subseq_distinct by blast
    then show ?thesis
      unfolding all by (intro swept.batch_distinct) (simp add: comp_def)
  qed
  moreover have "delivered (send_all (Some (\<lambda>_. True)) ?ms s) = delivered s @ ?ms"
    by (rule send_all_room) simp
  ultimately show ?thesis
    using sw ms by auto
qed

text \<open>
  Cancellation bounds a sweep: when the read before the \<open>n\<close>-th port sees the token, at most
  \<open>n\<close> ports are probed, and when the read after the \<open>n\<close>-th completion sees it, at most \<open>n\<close>
  matches are reported, so none at all when the token is set from the start.
\<close>

theorem sweep_cancelled:
  assumes "sp_token p = Some tok" "available env = Inr ports"
    and "sweep_all_ports macos env p bt flt tx s = (Inr ms, s')"
  shows "(spawn_reads env n \<longrightarrow>
      length (spawn_until (sp_token p) (spawn_reads env) 0 (select_ports macos bt flt ports)) \<le> n \<and>
      length ms \<le> n) \<and>
    (drain_reads env n \<longrightarrow> length ms \<le> n)"
proof (intro conjI impI)
  let ?rs = "sweep_results macos env p bt flt ports"
  obtain k where k: "ms = taken_matches (take k (pick_order (join_order env) ?rs))" "k \<le> length ?rs"
    "\<forall>j < k. \<not> cancel_seen (sp_token p) (drain_reads env j)"
    using sweep_taken [OF assms(2), of macos p bt flt tx s] assms(3) by auto
  have "length (taken_matches rs) \<le> length rs" for rs
    by (induction rs) (auto split: option.split)
  then have len: "length ms \<le> k"
    using k(1) by (metis length_take min.bounded_iff order_trans)
  show "length ms \<le> n" if "drain_reads env n"
    using that k(3) assms(1) len by (metis cancel_seen_Some not_less order_trans)
  assume "spawn_reads env n"
  then show "length (spawn_until (sp_token p) (spawn_reads env) 0 (select_ports macos bt flt ports)) \<le> n"
    using assms(1) by (intro spawn_until_stops) simp
  then show "length ms \<le> n"
    using len k(2) by (simp add: sweep_results_map)
qed

definition sample_sweep :: "bool \<Rightarrow> sweep_env" where
  "sample_sweep flag =
     \<lparr>available = Inr sample_ports, port_at = (\<lambda>_. sample_port only_fast), spawn_reads = (\<lambda>n. flag \<and> 1 \<le> n),
      drain_reads = (\<lambda>n. flag \<and> 1 \<le> n), join_order = [1]\<rparr>"

lemma sample_sweep_run:
  "sweep_task (sample_params [9600, 115200]) (sample_port only_fast) path =
     Returns (Inr (Some (serial_match (sample_params [9600, 115200]) path 115200 [79, 75])))"
  using sample_opens [of path "[9600, 115200]"]
  by (simp add: sweep_task_def probe_port_all_bauds_sync_def only_fast_def response_to_match_cases
      satisfies_filter_eval terminated_def Let_def open_budget_def)

lemma sample_sweep_result:
  "sweep_all_ports False (sample_sweep False) (sample_params [9600, 115200]) False (Some ''cu.'') None sender_new =
     (Inr [serial_match (sample_params [9600, 115200]) ''/dev/cu.usb1'' 115200 [79, 75]], sender_new)"
  by (simp add: sweep_all_ports_def sample_sweep_def sample_ports_def select_ports_def sample_sweep_run
      try_send_def Let_def)

theorem sweep_reports_answers_witness:
  "transport (serial_match (sample_params [9600, 115200]) ''/dev/cu.usb1'' 115200 [79, 75]) = Serial"
  using sweep_reports_answers [OF _ sample_sweep_result] by (simp add: sample_sweep_def)

theorem sweep_complete_witness:
  "\<exists>ms. fst (sweep_all_ports False (sample_sweep False) (sample_params [9600, 115200]) False
      (Some ''cu.'') None sender_new) = Inr ms \<and>
    mset ms = mset (List.map_filter
      (\<lambda>q. joined_match (sweep_task (sample_params [9600, 115200])
         (port_at (sample_sweep False) (port_name q)) (port_name q)))
      (select_ports False False (Some ''cu.'') sample_ports))"
proof -
  have "available (sample_sweep False) = Inr sample_ports" "sp_token (sample_params [9600, 115200]) = None"
    by (simp_all add: sample_sweep_def)
  from sweep_complete [OF this, of False False "Some ''cu.''" None sender_new]
  show ?thesis by blast
qed

theorem sweep_cancelled_witness:
  "\<exists>ms s'. sweep_all_ports False (sample_sweep True) ((sample_params [9600, 115200])\<lparr>sp_token := Some 0\<rparr>)
    False None None sender_new = (Inr ms, s') \<and> length ms \<le> 1"
proof -
  let ?p = "(sample_params [9600, 115200])\<lparr>sp_token := Some 0\<rparr>"
  have av: "available (sample_sweep True) = Inr sample_ports" "sp_token ?p = Some 0" "spawn_reads (sample_sweep True) 1"
    by (simp_all add: sample_sweep_def)
  obtain ms s' where ms: "sweep_all_ports False (sample_sweep True) ?p False None None sender_new = (Inr ms, s')"
    using sweep_taken [OF av(1), of False ?p False None None sender_new] by blast
  have "length ms \<le> 1"
    using sweep_cancelled [OF av(2,1) ms, of 1] av(3) by blast
  with ms show ?thesis by blast
qed

end
