(* ===== verification/Serial_Discovery.thy ===== *)
theory Serial_Discovery
  imports Serial_Sweep
begin

text \<open>
  \<open>src/serial/mod.rs\<close>: the discovery object, its validation and configuration, the discovery
  itself (list-only mode, the preferred port with its retries, the sweep) and the four methods a
  caller has: blocking, streaming, asynchronous and watching.
\<close>

section \<open>Configuration\<close>

record serial_discovery =
  sd_probe_command :: "bytes option"
  sd_baud_rates :: "u32 list"
  sd_timeout_ms :: u64
  sd_preferred_port :: "string option"
  sd_preferred_retry :: u32
  sd_preferred_retry_delay_ms :: u64
  sd_include_bluetooth :: bool
  sd_data_bits :: "u8 option"
  sd_parity :: "string option"
  sd_stop_bits :: "u8 option"
  sd_flow_control :: "string option"
  sd_port_filter :: "string option"
  sd_response_terminator :: "bytes option"
  sd_response_filter :: "bytes option"
  sd_cancellation_token :: "token option"

text \<open>\<open>SerialDiscovery::new\<close>, and the object of a call without arguments.\<close>

definition sd_new ::
  "bytes option \<Rightarrow> u32 list \<Rightarrow> u64 \<Rightarrow> string option \<Rightarrow> u32 \<Rightarrow> u64 \<Rightarrow> bool \<Rightarrow> u8 option \<Rightarrow> string option \<Rightarrow>
   u8 option \<Rightarrow> string option \<Rightarrow> string option \<Rightarrow> bytes option \<Rightarrow> bytes option \<Rightarrow> token option \<Rightarrow>
   serial_discovery" where
  "sd_new probe_command baud_rates timeout_ms preferred_port preferred_retry preferred_retry_delay_ms
     include_bluetooth data_bits parity stop_bits flow_control port_filter response_terminator
     response_filter cancellation_token =
     \<lparr>sd_probe_command = probe_command, sd_baud_rates = baud_rates, sd_timeout_ms = timeout_ms,
      sd_preferred_port = preferred_port, sd_preferred_retry = preferred_retry,
      sd_preferred_retry_delay_ms = preferred_retry_delay_ms,
      sd_include_bluetooth = include_bluetooth, sd_data_bits = data_bits, sd_parity = parity,
      sd_stop_bits = stop_bits, sd_flow_control = flow_control, sd_port_filter = port_filter,
      sd_response_terminator = response_terminator, sd_response_filter = response_filter,
      sd_cancellation_token = cancellation_token\<rparr>"

definition sd_default :: serial_discovery where
  "sd_default = sd_new None [] 500 None 0 500 False None None None None None None None None"

definition sd_validate :: "serial_discovery \<Rightarrow> py_err + unit" where
  "sd_validate self =
     (if sd_probe_command self \<noteq> None \<and> sd_baud_rates self = []
      then Inl (PyValueError ''baud_rates is required when probe_command is set'')
      else Inr ())"

text \<open>
  The snapshot: the parameters every probe receives (\<open>dc_params\<close>, for the probe command given) and
  the rest.
\<close>

record discovery_config =
  dc_probe :: "bytes option"
  dc_params :: "bytes \<Rightarrow> serial_params"
  dc_preferred_port :: "string option"
  dc_preferred_retry :: nat
  dc_preferred_retry_delay :: nat
  dc_include_bluetooth :: bool
  dc_port_filter :: "string option"

definition sd_config :: "serial_discovery \<Rightarrow> discovery_config" where
  "sd_config self =
     \<lparr>dc_probe = sd_probe_command self,
      dc_params = (\<lambda>probe.
        \<lparr>sp_bauds = sd_baud_rates self, sp_probe = probe, sp_timeout = unat (sd_timeout_ms self),
         sp_data_bits = sd_data_bits self, sp_parity = sd_parity self,
         sp_stop_bits = sd_stop_bits self, sp_flow_control = sd_flow_control self,
         sp_token = sd_cancellation_token self,
         sp_terminator = sd_response_terminator self, sp_filter = sd_response_filter self\<rparr>),
      dc_preferred_port = sd_preferred_port self,
      dc_preferred_retry = unat (sd_preferred_retry self),
      dc_preferred_retry_delay = unat (sd_preferred_retry_delay_ms self),
      dc_include_bluetooth = sd_include_bluetooth self,
      dc_port_filter = sd_port_filter self\<rparr>"

section \<open>Discovery\<close>

text \<open>
  The environment of one discovery: the preferred port at each attempt, the token reads before the
  attempts, and the environment of the sweep.
\<close>

record serial_env =
  se_preferred :: "nat \<Rightarrow> port_env"
  se_retry_reads :: "nat \<Rightarrow> bool"
  se_sweep :: sweep_env

text \<open>
  The loop over the attempts on the preferred port; it answers or falls through to the sweep.  The
  last component counts the milliseconds slept between attempts.
\<close>

datatype 'a flow = Answer 'a | FallThrough

fun preferred_loop ::
  "discovery_config \<Rightarrow> serial_params \<Rightarrow> string \<Rightarrow> serial_env \<Rightarrow> (nat \<Rightarrow> bool) option \<Rightarrow> nat \<Rightarrow> nat \<Rightarrow>
   nat \<Rightarrow> sender \<Rightarrow> device_match list outcome flow \<times> nat \<times> sender" where
  "preferred_loop cfg p path env tx attempt 0 slept s = (FallThrough, slept, s)"
| "preferred_loop cfg p path env tx attempt (Suc left) slept s =
     (if cancel_seen (sp_token p) (se_retry_reads env attempt) then (Answer (Returns []), slept, s)
      else (case probe_port_all_bauds (se_preferred env attempt) p path of
              Panics \<Rightarrow> (Answer Panics, slept, s)
            | Returns (Inr (Some m)) \<Rightarrow> (Answer (Returns [m]), slept, try_send tx m s)
            | Returns _ \<Rightarrow>
                preferred_loop cfg p path env tx (Suc attempt) left
                  (if attempt < dc_preferred_retry cfg then slept + dc_preferred_retry_delay cfg else slept)
                  s))"

definition run_serial_discovery ::
  "bool \<Rightarrow> serial_env \<Rightarrow> discovery_config \<Rightarrow> (nat \<Rightarrow> bool) option \<Rightarrow> sender \<Rightarrow>
   (dafydd_error + device_match list) outcome \<times> sender" where
  "run_serial_discovery macos env cfg tx s =
     (case dc_probe cfg of
        None \<Rightarrow>
          (Returns (list_all_ports macos (available (se_sweep env)) (dc_include_bluetooth cfg)
                      (dc_port_filter cfg)), s)
      | Some probe \<Rightarrow>
          (let p = dc_params cfg probe;
               fast = (case dc_preferred_port cfg of
                         None \<Rightarrow> (FallThrough, 0, s)
                       | Some path \<Rightarrow>
                           preferred_loop cfg p path env tx 0 (Suc (dc_preferred_retry cfg)) 0 s)
           in (case fast of
                 (Answer r, _, s') \<Rightarrow> (outcome_map Inr r, s')
               | (FallThrough, _, s') \<Rightarrow>
                   (case sweep_all_ports macos (se_sweep env) p (dc_include_bluetooth cfg)
                           (dc_port_filter cfg) tx s' of
                      (r, s'') \<Rightarrow> (Returns r, s'')))))"

section \<open>The methods\<close>

definition sd_discover :: "bool \<Rightarrow> serial_discovery \<Rightarrow> serial_env \<Rightarrow> py_err + device_match list" where
  "sd_discover macos self env =
     (case sd_validate self of
        Inl e \<Rightarrow> Inl e
      | Inr _ \<Rightarrow> block_on_result (fst (run_serial_discovery macos env (sd_config self) None sender_new)))"

text \<open>\<open>panic_err\<close> is the exception with which the asynchronous bridge reports a panic.\<close>

definition sd_discover_async ::
  "py_err \<Rightarrow> bool \<Rightarrow> serial_discovery \<Rightarrow> serial_env \<Rightarrow> py_err + device_match list" where
  "sd_discover_async panic_err macos self env =
     (case sd_validate self of
        Inl e \<Rightarrow> Inl e
      | Inr _ \<Rightarrow>
          (case fst (run_serial_discovery macos env (sd_config self) None sender_new) of
             Panics \<Rightarrow> Inl panic_err
           | Returns (Inl e) \<Rightarrow> Inl (error_to_pyerr e)
           | Returns (Inr ms) \<Rightarrow> Inr ms))"

definition sd_discover_streaming ::
  "bool \<Rightarrow> serial_discovery \<Rightarrow> serial_env \<Rightarrow> (nat \<Rightarrow> bool) \<Rightarrow> (nat \<Rightarrow> string option) \<Rightarrow>
   device_match list \<times> (py_err + device_match list)" where
  "sd_discover_streaming macos self env room raises =
     (case sd_validate self of
        Inl e \<Rightarrow> ([], Inl e)
      | Inr _ \<Rightarrow>
          (case run_serial_discovery macos env (sd_config self) (Some room) sender_new of
             (joined, s) \<Rightarrow> receive_stream raises (delivered s) joined))"

text \<open>A turn of the polling loop: the reads of the token and the environment of the pass.\<close>

definition sd_watch ::
  "bool \<Rightarrow> serial_discovery \<Rightarrow> (nat \<Rightarrow> string option) \<Rightarrow> (bool \<times> serial_env \<times> bool list) list \<Rightarrow>
   callback list \<times> watch_end" where
  "sd_watch macos self raises turns =
     (case sd_cancellation_token self of
        None \<Rightarrow> ([], Failed (PyValueError ''SerialDiscovery.watch() requires a cancellation_token''))
      | Some _ \<Rightarrow>
          poll_watch raises [] []
            (map (\<lambda>(top, env, naps).
                    \<lparr>cancelled_at_top = top, tick = sd_discover macos self env, sleep_reads = naps\<rparr>) turns))"

section \<open>Facts about the preferred port\<close>

definition answers_at :: "serial_params \<Rightarrow> string \<Rightarrow> serial_env \<Rightarrow> nat \<Rightarrow> bool" where
  "answers_at p path env i = (\<exists>m. probe_port_all_bauds (se_preferred env i) p path = Returns (Inr (Some m)))"

lemma preferred_loop_find:
  assumes "\<And>i. \<not> cancel_seen (sp_token p) (se_retry_reads env i)"
    and "\<And>i. probe_port_all_bauds (se_preferred env i) p path \<noteq> Panics"
  shows "preferred_loop cfg p path env tx n left slept s =
    (case find (answers_at p path env) [n..<n + left] of
       None \<Rightarrow> (FallThrough, slept + dc_preferred_retry_delay cfg * (min (n + left) (dc_preferred_retry cfg) - n), s)
     | Some i \<Rightarrow> (let m = the (joined_match (probe_port_all_bauds (se_preferred env i) p path))
                 in (Answer (Returns [m]),
                     slept + dc_preferred_retry_delay cfg * (min i (dc_preferred_retry cfg) - n),
                     try_send tx m s)))"
proof (induction left arbitrary: n slept)
  case 0
  then show ?case by simp
next
  case (Suc left)
  have up: "[n..<n + Suc left] = n # [Suc n..<Suc n + left]"
    by (simp add: upt_conv_Cons del: upt_Suc)
  show ?case
  proof (cases "answers_at p path env n")
    case True
    then obtain m where "probe_port_all_bauds (se_preferred env n) p path = Returns (Inr (Some m))"
      by (auto simp: answers_at_def)
    with True show ?thesis
      unfolding up by (simp add: assms(1))
  next
    case False
    let ?slept = "if n < dc_preferred_retry cfg then slept + dc_preferred_retry_delay cfg else slept"
    have step: "preferred_loop cfg p path env tx n (Suc left) slept s =
        preferred_loop cfg p path env tx (Suc n) left ?slept s"
      using False assms(2) [of n]
      by (auto simp: answers_at_def assms(1) split: outcome.split sum.split option.split)
    have late: "Suc n \<le> i" if "find (answers_at p path env) [Suc n..<Suc n + left] = Some i" for i
    proof -
      have "i \<in> set [Suc n..<Suc n + left]"
        using that by (metis find_Some_iff nth_mem)
      then show ?thesis by auto
    qed
    have arith: "?slept + dc_preferred_retry_delay cfg * (min k (dc_preferred_retry cfg) - Suc n) =
        slept + dc_preferred_retry_delay cfg * (min k (dc_preferred_retry cfg) - n)" if "Suc n \<le> k" for k
    proof (cases "n < dc_preferred_retry cfg")
      case True
      then have "min k (dc_preferred_retry cfg) - n = Suc (min k (dc_preferred_retry cfg) - Suc n)"
        using that by auto
      then show ?thesis using True by simp
    next
      case False
      then show ?thesis by simp
    qed
    show ?thesis
      unfolding step Suc.IH up using False late arith by (auto simp: Let_def split: option.split)
  qed
qed

text \<open>
  C19.  With a preferred port, no cancellation and no panic, the port is probed up to one time more
  than the configured number of retries; the first answer is the whole result and is streamed, and
  only when no attempt is answered does the discovery become the sweep.
\<close>

theorem serial_preferred_first:
  assumes "dc_probe cfg = Some probe" "dc_preferred_port cfg = Some path"
    and "\<And>i. \<not> cancel_seen (sp_token (dc_params cfg probe)) (se_retry_reads env i)"
    and "\<And>i. probe_port_all_bauds (se_preferred env i) (dc_params cfg probe) path \<noteq> Panics"
  shows "run_serial_discovery macos env cfg tx s =
    (case find (\<lambda>i. \<exists>m. probe_port_all_bauds (se_preferred env i) (dc_params cfg probe) path =
                     Returns (Inr (Some m))) [0..<Suc (dc_preferred_retry cfg)] of
       Some i \<Rightarrow>
         (let m = the (joined_match (probe_port_all_bauds (se_preferred env i) (dc_params cfg probe) path))
          in (Returns (Inr [m]), try_send tx m s))
     | None \<Rightarrow>
         (case sweep_all_ports macos (se_sweep env) (dc_params cfg probe) (dc_include_bluetooth cfg)
                 (dc_port_filter cfg) tx s of (r, s') \<Rightarrow> (Returns r, s')))"
proof -
  have "answers_at (dc_params cfg probe) path env = (\<lambda>i. \<exists>m.
      probe_port_all_bauds (se_preferred env i) (dc_params cfg probe) path = Returns (Inr (Some m)))"
    by (simp add: answers_at_def fun_eq_iff)
  then show ?thesis
    using preferred_loop_find [of "dc_params cfg probe" env path cfg tx 0 "Suc (dc_preferred_retry cfg)" 0 s,
        OF assms(3,4)] assms(1,2)
    by (simp add: run_serial_discovery_def Let_def outcome_map_def del: upt_Suc
        split: option.split)
qed

definition sample_serial :: "bytes option \<Rightarrow> serial_discovery" where
  "sample_serial probe =
     \<lparr>sd_probe_command = probe, sd_baud_rates = [9600, 115200], sd_timeout_ms = 500,
      sd_preferred_port = Some ''/dev/cu.usb1'', sd_preferred_retry = 2, sd_preferred_retry_delay_ms = 100,
      sd_include_bluetooth = False, sd_data_bits = Some 7, sd_parity = Some ''even'',
      sd_stop_bits = None, sd_flow_control = None, sd_port_filter = None,
      sd_response_terminator = None, sd_response_filter = Some [75], sd_cancellation_token = None\<rparr>"

definition sample_serial_env :: serial_env where
  "sample_serial_env =
     \<lparr>se_preferred = (\<lambda>i. if i = 1 then sample_port only_fast else sample_port (\<lambda>_ _. [])),
      se_retry_reads = (\<lambda>_. False), se_sweep = sample_sweep False\<rparr>"

lemma sample_serial_params: "dc_params (sd_config (sample_serial probe)) [63] = sample_params [9600, 115200]"
  by (simp add: sd_config_def sample_serial_def sample_params_def)

lemma sample_probe:
  "probe_port_all_bauds (sample_port only_fast) (sample_params [9600, 115200]) path =
     Returns (Inr (Some (serial_match (sample_params [9600, 115200]) path 115200 [79, 75])))"
  "probe_port_all_bauds (sample_port (\<lambda>_ _. [])) (sample_params [9600, 115200]) path = Returns (Inr None)"
  using sample_opens [of path "[9600, 115200]"]
  by (simp_all add: probe_port_all_bauds_def only_fast_def response_to_match_cases
      satisfies_filter_eval terminated_def Let_def)

theorem serial_preferred_first_witness:
  "run_serial_discovery False sample_serial_env (sd_config (sample_serial (Some [63]))) None sender_new =
     (Returns (Inr [serial_match (sample_params [9600, 115200]) ''/dev/cu.usb1'' 115200 [79, 75]]),
      sender_new)"
proof -
  let ?cfg = "sd_config (sample_serial (Some [63]))"
  have c: "dc_probe ?cfg = Some [63]" "dc_preferred_port ?cfg = Some ''/dev/cu.usb1''"
    "dc_preferred_retry ?cfg = 2"
    by (simp_all add: sd_config_def sample_serial_def)
  have pan: "probe_port_all_bauds (se_preferred sample_serial_env i) (dc_params ?cfg [63]) ''/dev/cu.usb1''
      \<noteq> Panics" for i
    unfolding sample_serial_params by (simp add: sample_serial_env_def sample_probe)
  have tok: "\<not> cancel_seen (sp_token (dc_params ?cfg [63])) (se_retry_reads sample_serial_env i)" for i
    unfolding sample_serial_params by simp
  show ?thesis
    using serial_preferred_first [OF c(1,2) tok pan, of False None sender_new]
    unfolding sample_serial_params
    by (simp add: c(3) numeral_2_eq_2 sample_serial_env_def sample_probe try_send_def)
qed

section \<open>Results of the methods\<close>

lemma try_bauds_Panics:
  "try_bauds env p path first line i bauds = Panics \<Longrightarrow> sp_filter p = Some []"
proof (induction bauds arbitrary: line i)
  case Nil
  then show ?case by simp
next
  case (Cons b bs)
  show ?case
  proof (rule ccontr)
    assume "sp_filter p \<noteq> Some []"
    with Cons show False
      by (auto simp: response_to_match_cases Let_def split: if_splits)
  qed
qed

lemma probe_all_bauds_Panics:
  "probe_port_all_bauds env p path = Panics \<Longrightarrow> sp_filter p = Some []"
  by (auto simp: probe_port_all_bauds_def simp del: try_bauds.simps dest!: try_bauds_Panics
      split: list.splits sum.splits option.splits)

lemma preferred_loop_Answer:
  "fst (preferred_loop cfg p path env tx n left slept s) = Answer r \<Longrightarrow>
     r = Panics \<and> sp_filter p = Some [] \<or> r = Returns [] \<or>
     (\<exists>m. r = Returns [m] \<and> address m = path \<and> transport m = Serial)"
proof (induction left arbitrary: n slept)
  case 0
  then show ?case by simp
next
  case (Suc left)
  show ?case
  proof (cases "cancel_seen (sp_token p) (se_retry_reads env n)")
    case True
    then show ?thesis using Suc.prems by simp
  next
    case False
    then show ?thesis
      using Suc asked.found [of "se_preferred env n" p path] probe_all_bauds_Panics [of "se_preferred env n" p path]
      by (cases "probe_port_all_bauds (se_preferred env n) p path")
        (auto split: sum.splits option.splits)
  qed
qed

lemma preferred_case_Answer:
  "fst (case x of None \<Rightarrow> (FallThrough, sl, s') | Some path \<Rightarrow>
      preferred_loop cfg p path env tx n left slept s) = Answer r \<Longrightarrow>
     r = Panics \<and> sp_filter p = Some [] \<or> r = Returns [] \<or> (\<exists>m. r = Returns [m])"
  using preferred_loop_Answer [of cfg p "the x" env tx n left slept s r] by (cases x) auto

lemma sweep_error:
  "block_on_result (Returns (fst (sweep_all_ports macos env p bt pf tx s))) = Inl e \<Longrightarrow>
     \<exists>msg. e = PyRuntimeError (''serial: '' @ msg) \<and> available env = Inl msg"
  by (auto simp: sweep_all_ports_def block_on_result_def Let_def split: sum.splits prod.splits)

lemma run_serial_error:
  assumes "block_on_result (fst (run_serial_discovery macos env cfg None s)) = Inl e" "dc_probe cfg = Some probe"
  shows "(\<exists>msg. e = PyRuntimeError (''serial: '' @ msg) \<and> available (se_sweep env) = Inl msg) \<or>
    (e = PanicException \<and> sp_filter (dc_params cfg probe) = Some [])"
proof -
  let ?p = "dc_params cfg probe"
  let ?fast = "case dc_preferred_port cfg of None \<Rightarrow> (FallThrough, 0, s)
    | Some path \<Rightarrow> preferred_loop cfg ?p path env None 0 (Suc (dc_preferred_retry cfg)) 0 s"
  obtain r sl s' where fast: "?fast = (r, sl, s')"
    by (metis prod_cases3)
  have run: "run_serial_discovery macos env cfg None s =
      (case r of Answer x \<Rightarrow> (outcome_map Inr x, s')
       | FallThrough \<Rightarrow> (case sweep_all_ports macos (se_sweep env) ?p (dc_include_bluetooth cfg)
            (dc_port_filter cfg) None s' of (x, y) \<Rightarrow> (Returns x, y)))"
    using assms(2) fast by (simp add: run_serial_discovery_def Let_def split: flow.split)
  show ?thesis
  proof (cases r)
    case FallThrough
    then show ?thesis
      using sweep_error assms(1) run by (simp add: split_def)
  next
    case (Answer x)
    then have "x = Panics" "e = PanicException"
      using assms(1) run by (cases x; simp add: outcome_map_def block_on_result_def)+
    moreover have "fst ?fast = Answer x"
      using fast Answer by simp
    ultimately show ?thesis
      using preferred_case_Answer by blast
  qed
qed

text \<open>
  C31.  The errors of a discovery are these only: a value error when a probe command comes without
  baud rates, a runtime error carrying the system's text when the port list cannot be read, and a
  panic, which only an empty response filter can cause.
\<close>

theorem serial_discover_errors:
  assumes "sd_discover macos self env = Inl e"
  shows "(e = PyValueError ''baud_rates is required when probe_command is set'' \<and>
      sd_probe_command self \<noteq> None \<and> sd_baud_rates self = []) \<or>
    (\<exists>msg. e = PyRuntimeError (''serial: '' @ msg) \<and> available (se_sweep env) = Inl msg) \<or>
    (e = PanicException \<and> sd_response_filter self = Some [])"
proof (cases "sd_validate self")
  case (Inl e')
  then show ?thesis
    using assms by (auto simp: sd_discover_def sd_validate_def split: if_splits)
next
  case (Inr u)
  then have b: "block_on_result (fst (run_serial_discovery macos env (sd_config self) None sender_new)) = Inl e"
    using assms by (simp add: sd_discover_def)
  show ?thesis
  proof (cases "sd_probe_command self")
    case None
    then show ?thesis
      using b by (auto simp: run_serial_discovery_def sd_config_def block_on_result_def list_all_ports_def
          split: sum.splits)
  next
    case (Some probe)
    then show ?thesis
      using run_serial_error [OF b, of probe] by (simp add: sd_config_def)
  qed
qed

definition no_ports_env :: serial_env where
  "no_ports_env = sample_serial_env\<lparr>se_sweep := (sample_sweep False)\<lparr>available := Inl ''denied''\<rparr>\<rparr>"

theorem serial_discover_errors_witness:
  "sd_discover False (sample_serial None) no_ports_env = Inl (PyRuntimeError ''serial: denied'') \<and>
   (\<exists>msg. PyRuntimeError ''serial: denied'' = PyRuntimeError (''serial: '' @ msg) \<and>
     available (se_sweep no_ports_env) = Inl msg)"
proof
  show d: "sd_discover False (sample_serial None) no_ports_env = Inl (PyRuntimeError ''serial: denied'')"
    by (simp add: sd_discover_def sd_validate_def sample_serial_def sd_config_def run_serial_discovery_def
        list_all_ports_def no_ports_env_def block_on_result_def)
  show "\<exists>msg. PyRuntimeError ''serial: denied'' = PyRuntimeError (''serial: '' @ msg) \<and>
     available (se_sweep no_ports_env) = Inl msg"
    using serial_discover_errors [OF d] by (simp add: sample_serial_def)
qed

text \<open>
  In list-only mode nothing is opened: the result depends on the port list alone and names the
  selected ports, without response and details.  The streaming method, in contrast to the others,
  calls no callback and answers with an empty list in this mode.
\<close>

theorem serial_list_only:
  assumes "sd_probe_command self = None" "available (se_sweep env) = Inr ports"
  shows "sd_discover macos self env =
      Inr (map (\<lambda>p. device_match_new Serial (port_name p) None None)
        (select_ports macos (sd_include_bluetooth self) (sd_port_filter self) ports)) \<and>
    sd_discover_async e macos self env = sd_discover macos self env \<and>
    sd_discover_streaming macos self env room raises = ([], Inr [])"
  using assms
  by (simp add: sd_discover_def sd_discover_async_def sd_discover_streaming_def sd_validate_def
      run_serial_discovery_def sd_config_def list_all_ports_def block_on_result_def
      receive_stream_def device_match_new_def sender_new_def)

theorem serial_list_only_witness:
  "sd_discover_streaming False (sample_serial None) sample_serial_env (\<lambda>_. True) (\<lambda>_. None) = ([], Inr []) \<and>
   sd_discover False (sample_serial None) sample_serial_env =
     Inr [device_match_new Serial ''/dev/tty.usb1'' None None, device_match_new Serial ''/dev/cu.usb1'' None None]"
proof -
  have "sd_probe_command (sample_serial None) = None"
    "available (se_sweep sample_serial_env) = Inr sample_ports"
    by (simp_all add: sample_serial_def sample_serial_env_def sample_sweep_def)
  from serial_list_only [OF this, of False undefined "\<lambda>_. True" "\<lambda>_. None"]
  show ?thesis by (simp add: sample_serial_def select_ports_def sample_ports_def)
qed

text \<open>An object built without arguments lists the ports, without the Bluetooth ports and without errors of its own.\<close>

lemma sd_default_lists:
  "sd_discover False sd_default env =
     (case available (se_sweep env) of
        Inl e \<Rightarrow> Inl (error_to_pyerr (SerialErr e))
      | Inr ports \<Rightarrow> Inr (map (\<lambda>p. device_match_new Serial (port_name p) None None)
          (filter (\<lambda>p. port_type p \<noteq> BluetoothPort) ports)))"
  by (simp add: sd_discover_def sd_default_def sd_new_def sd_validate_def run_serial_discovery_def
      sd_config_def list_all_ports_def block_on_result_def device_match_new_def select_ports_def
      split: sum.split)

section \<open>Streaming and watching\<close>

lemma drain_until_fst:
  "fst (drain_until tok reads tx n rs ms s) = fst (drain_until tok reads None n rs ms s')"
  by (induction rs arbitrary: n ms s s') (auto simp: try_send_def split: option.split)

lemma sweep_fst:
  "fst (sweep_all_ports macos env p bt pf tx s) = fst (sweep_all_ports macos env p bt pf None s')"
  using drain_until_fst [of "sp_token p" "drain_reads env" tx 0 _ "[]" s s']
  by (simp add: sweep_all_ports_def Let_def split_def split: sum.split)

text \<open>What a run sends is what it returns, unless it only lists the ports.\<close>

definition returned :: "(dafydd_error + device_match list) outcome \<Rightarrow> device_match list" where
  "returned r = (case r of Returns (Inr ms) \<Rightarrow> ms | _ \<Rightarrow> [])"

lemma returned_simps [simp]:
  "returned Panics = []" "returned (Returns (Inl e)) = []" "returned (Returns (Inr ms)) = ms"
  by (simp_all add: returned_def)

lemma sweep_sends:
  assumes "sweep_all_ports macos env p bt pf tx s = (r, s')"
  shows "s' = send_all tx (returned (Returns r)) s"
proof (cases "available env")
  case (Inl e)
  then show ?thesis
    using assms by (auto simp: sweep_all_ports_def send_all_def)
next
  case (Inr ports)
  then show ?thesis
    using sweep_taken [OF Inr, of macos p bt pf tx s] assms by auto
qed

lemma preferred_loop_tx:
  "fst (preferred_loop cfg p path env tx n left slept s) = fst (preferred_loop cfg p path env None n left slept s')"
  by (induction left arbitrary: n slept s s') (auto split: outcome.split sum.split option.split)

lemma preferred_loop_sends:
  "preferred_loop cfg p path env tx n left slept s = (r, sl, s') \<Longrightarrow>
     s' = send_all tx (case r of Answer x \<Rightarrow> returned (outcome_map Inr x) | FallThrough \<Rightarrow> []) s"
proof (induction left arbitrary: n slept)
  case 0
  then show ?case by (auto simp: send_all_def)
next
  case (Suc left)
  then show ?case
    by (cases "probe_port_all_bauds (se_preferred env n) p path")
      (auto simp: send_all_def outcome_map_def split: if_splits sum.splits option.splits)
qed

lemma stream_calls_quiet: "stream_calls (\<lambda>_. None) log ms = (log @ ms, None)"
  by (induction ms arbitrary: log) auto

definition preferred_stage ::
  "discovery_config \<Rightarrow> bytes \<Rightarrow> serial_env \<Rightarrow> (nat \<Rightarrow> bool) option \<Rightarrow> sender \<Rightarrow>
   device_match list outcome flow \<times> nat \<times> sender" where
  "preferred_stage cfg probe env tx s =
     (case dc_preferred_port cfg of
        None \<Rightarrow> (FallThrough, 0, s)
      | Some path \<Rightarrow>
          preferred_loop cfg (dc_params cfg probe) path env tx 0 (Suc (dc_preferred_retry cfg)) 0 s)"

lemma preferred_stage_sends:
  "preferred_stage cfg probe env tx s = (r, sl, s') \<Longrightarrow>
     s' = send_all tx (case r of Answer x \<Rightarrow> returned (outcome_map Inr x) | FallThrough \<Rightarrow> []) s"
  by (auto simp: preferred_stage_def send_all_def [of _ "[]"] simp del: preferred_loop.simps
      dest: preferred_loop_sends split: option.splits)

lemma preferred_stage_fst: "fst (preferred_stage cfg probe env tx s) = fst (preferred_stage cfg probe env None s')"
  unfolding preferred_stage_def using preferred_loop_tx
  by (simp del: preferred_loop.simps split: option.split)

lemma run_serial_stage:
  assumes "dc_probe cfg = Some probe" "preferred_stage cfg probe env tx s = (f, sl, s1)"
  shows "run_serial_discovery macos env cfg tx s = (case f of Answer x \<Rightarrow> (outcome_map Inr x, s1)
       | FallThrough \<Rightarrow> (case sweep_all_ports macos (se_sweep env) (dc_params cfg probe)
            (dc_include_bluetooth cfg) (dc_port_filter cfg) tx s1 of (x, y) \<Rightarrow> (Returns x, y)))"
  using assms(2) unfolding preferred_stage_def
  by (simp add: run_serial_discovery_def assms(1) Let_def del: preferred_loop.simps split: flow.split)

lemma run_serial_sends:
  assumes "run_serial_discovery macos env cfg tx s = (r, s')"
  shows "s' = send_all tx (if dc_probe cfg = None then [] else returned r) s"
proof (cases "dc_probe cfg")
  case None
  then show ?thesis
    using assms by (simp add: run_serial_discovery_def send_all_def)
next
  case (Some probe)
  obtain f sl s1 where f: "preferred_stage cfg probe env tx s = (f, sl, s1)"
    by (metis prod_cases3)
  note run = run_serial_stage [OF Some f] and s1 = preferred_stage_sends [OF f]
  show ?thesis
  proof (cases f)
    case (Answer x)
    then show ?thesis
      using assms [unfolded run] s1 Some by auto
  next
    case FallThrough
    obtain y s2 where sw: "sweep_all_ports macos (se_sweep env) (dc_params cfg probe)
        (dc_include_bluetooth cfg) (dc_port_filter cfg) tx s1 = (y, s2)"
      by force
    then show ?thesis
      using assms [unfolded run] s1 Some FallThrough sweep_sends [OF sw] by (auto simp: send_all_def)
  qed
qed

lemma run_serial_fst:
  "fst (run_serial_discovery macos env cfg tx s) = fst (run_serial_discovery macos env cfg None s')"
proof (cases "dc_probe cfg")
  case (Some probe)
  obtain f sl s1 where 1: "preferred_stage cfg probe env tx s = (f, sl, s1)"
    by (metis prod_cases3)
  obtain f' sl' s1' where 2: "preferred_stage cfg probe env None s' = (f', sl', s1')"
    by (metis prod_cases3)
  have "f' = f"
    using preferred_stage_fst [of cfg probe env tx s s'] 1 2 by simp
  then show ?thesis
    unfolding run_serial_stage [OF Some 1] run_serial_stage [OF Some 2]
    using sweep_fst [of macos "se_sweep env" "dc_params cfg probe" "dc_include_bluetooth cfg" "dc_port_filter cfg" tx s1 s1']
    by (simp add: split_def split: flow.split)
qed (simp add: run_serial_discovery_def)

text \<open>
  With a probe command, a channel that has room and callbacks that do not raise, streaming
  agrees with the blocking method: the callback is called on exactly the matches that
  \<open>discover\<close> returns, in that order, and the same list is the result.
\<close>

theorem serial_streaming_agrees:
  assumes "sd_probe_command self = Some probe" "sd_discover macos self env = Inr ms"
  shows "sd_discover_streaming macos self env (\<lambda>_. True) (\<lambda>_. None) = (ms, Inr ms)"
proof -
  let ?cfg = "sd_config self"
  obtain r s where run: "run_serial_discovery macos env ?cfg (Some (\<lambda>_. True)) sender_new = (r, s)"
    by force
  obtain u where v: "sd_validate self = Inr u"
    using assms(2) by (auto simp: sd_discover_def split: sum.splits)
  have "block_on_result r = Inr ms"
    using assms(2) run_serial_fst [of macos env ?cfg "Some (\<lambda>_. True)" sender_new sender_new] run v
    by (simp add: sd_discover_def)
  then have "r = Returns (Inr ms)"
    by (auto simp: block_on_result_def split: outcome.splits sum.splits)
  moreover have "dc_probe ?cfg \<noteq> None"
    using assms(1) by (simp add: sd_config_def)
  ultimately have "delivered s = ms"
    using run_serial_sends [OF run] by (auto simp: send_all_room sender_new_def)
  then show ?thesis
    using run v \<open>r = Returns (Inr ms)\<close>
    by (simp add: sd_discover_streaming_def receive_stream_def stream_calls_quiet)
qed

lemma sample_serial_discover:
  "sd_discover False (sample_serial (Some [63])) sample_serial_env =
     Inr [serial_match (sample_params [9600, 115200]) ''/dev/cu.usb1'' 115200 [79, 75]]"
proof -
  let ?cfg = "sd_config (sample_serial (Some [63]))"
  have c: "dc_probe ?cfg = Some [63]" "dc_preferred_port ?cfg = Some ''/dev/cu.usb1''"
    "dc_preferred_retry ?cfg = 2"
    by (simp_all add: sd_config_def sample_serial_def)
  have "fst (preferred_loop ?cfg (sample_params [9600, 115200]) ''/dev/cu.usb1'' sample_serial_env None 0
      (Suc 2) 0 sender_new) =
      Answer (Returns [serial_match (sample_params [9600, 115200]) ''/dev/cu.usb1'' 115200 [79, 75]])"
    by (simp add: numeral_2_eq_2 sample_serial_env_def sample_probe)
  then have "fst (run_serial_discovery False sample_serial_env ?cfg None sender_new) =
      Returns (Inr [serial_match (sample_params [9600, 115200]) ''/dev/cu.usb1'' 115200 [79, 75]])"
    by (simp add: run_serial_discovery_def c sample_serial_params outcome_map_def split_def Let_def
        del: preferred_loop.simps)
  moreover have "sd_validate (sample_serial (Some [63])) = Inr ()"
    by (simp add: sd_validate_def sample_serial_def)
  ultimately show ?thesis
    by (simp add: sd_discover_def block_on_result_def)
qed

theorem serial_streaming_agrees_witness:
  "sd_discover_streaming False (sample_serial (Some [63])) sample_serial_env (\<lambda>_. True) (\<lambda>_. None) =
     ([serial_match (sample_params [9600, 115200]) ''/dev/cu.usb1'' 115200 [79, 75]],
      Inr [serial_match (sample_params [9600, 115200]) ''/dev/cu.usb1'' 115200 [79, 75]])"
  by (rule serial_streaming_agrees [OF _ sample_serial_discover]) (simp add: sample_serial_def)

section \<open>Watching\<close>

lemma sweep_distinct:
  assumes "available env = Inr ports" "distinct (map port_name ports)"
    and "fst (sweep_all_ports macos env p bt pf tx s) = Inr ms"
  shows "distinct_addrs ms"
proof -
  let ?rs = "sweep_results macos env p bt pf ports"
  obtain k where "sweep_all_ports macos env p bt pf tx s =
      (Inr (taken_matches (take k (pick_order (join_order env) ?rs))),
       send_all tx (taken_matches (take k (pick_order (join_order env) ?rs))) s)"
    using sweep_taken [OF assms(1), of macos p bt pf tx s] by blast
  then have k: "ms = taken_matches (take k (pick_order (join_order env) ?rs))"
    using assms(3) by simp
  let ?sel = "spawn_until (sp_token p) (spawn_reads env) 0 (select_ports macos bt pf ports)"
  have "distinct (map port_name (select_ports macos bt pf ports))"
    using assms(2) select_ports_subseq subseq_map subseq_distinct by blast
  moreover have "prefix (map port_name ?sel) (map port_name (select_ports macos bt pf ports))"
    using spawn_until_prefix by (rule map_mono_prefix)
  ultimately have "distinct (map port_name ?sel)"
    by (auto simp: prefix_def)
  then have d: "distinct_addrs (join_all (join_order env) ?rs)"
    unfolding sweep_results_def by (intro swept.batch_distinct) (simp add: comp_def)
  have "join_all (join_order env) ?rs = ms @ taken_matches (drop k (pick_order (join_order env) ?rs))"
    unfolding k join_all_def taken_matches_def
    by (metis append_take_drop_id filter_append map_append map_filter_def)
  with d show ?thesis
    by (simp add: distinct_addrs_def)
qed

lemma listed_distinct:
  assumes "list_all_ports macos listing bt flt = Inr ms" "listing = Inr ports" "distinct (map port_name ports)"
  shows "distinct_addrs ms"
proof -
  have "distinct (map port_name (select_ports macos bt flt ports))"
    using assms(3) select_ports_subseq subseq_map subseq_distinct by blast
  then show ?thesis
    using assms(1,2) by (auto simp: list_all_ports_def distinct_addrs_def comp_def)
qed

lemma preferred_stage_Answer:
  "fst (preferred_stage cfg probe env tx s) = Answer r \<Longrightarrow> r = Panics \<or> r = Returns [] \<or> (\<exists>m. r = Returns [m])"
  unfolding preferred_stage_def using preferred_case_Answer by blast

lemma sd_discover_distinct:
  assumes "sd_discover macos self env = Inr ms"
    and listed: "\<And>ports. available (se_sweep env) = Inr ports \<Longrightarrow> distinct (map port_name ports)"
  shows "distinct_addrs ms"
proof -
  let ?cfg = "sd_config self"
  have run: "fst (run_serial_discovery macos env ?cfg None sender_new) = Returns (Inr ms)"
    using assms(1) by (auto simp: sd_discover_def block_on_result_def split: sum.splits outcome.splits)
  show ?thesis
  proof (cases "dc_probe ?cfg")
    case None
    then have "list_all_ports macos (available (se_sweep env)) (dc_include_bluetooth ?cfg) (dc_port_filter ?cfg) = Inr ms"
      using run by (simp add: run_serial_discovery_def)
    moreover from this obtain ports where "available (se_sweep env) = Inr ports"
      by (auto simp: list_all_ports_def split: sum.splits)
    ultimately show ?thesis
      using listed listed_distinct by metis
  next
    case (Some probe)
    obtain f sl s1 where f: "preferred_stage ?cfg probe env None sender_new = (f, sl, s1)"
      by (metis prod_cases3)
    note run = run [unfolded run_serial_stage [OF Some f]]
    show ?thesis
    proof (cases f)
      case FallThrough
      then have sw: "fst (sweep_all_ports macos (se_sweep env) (dc_params ?cfg probe) (dc_include_bluetooth ?cfg)
          (dc_port_filter ?cfg) None s1) = Inr ms"
        using run by (simp add: split_def)
      moreover from this obtain ports where "available (se_sweep env) = Inr ports"
        by (auto simp: sweep_all_ports_def split: sum.splits)
      ultimately show ?thesis
        using sweep_distinct listed by blast
    next
      case (Answer x)
      then show ?thesis
        using run preferred_stage_Answer [of ?cfg probe env None sender_new x] f
        by (auto simp: outcome_map_def distinct_addrs_def)
    qed
  qed
qed

text \<open>
  Watching serial ports needs a token; with one, and port lists that name no port twice, the
  callbacks of the watcher never contradict each other, whatever the mode, the devices and the
  cancellation do, and whether or not a callback raises.
\<close>

theorem serial_watch_consistent:
  assumes "\<forall>(top, env, naps) \<in> set turns.
    \<forall>ports. available (se_sweep env) = Inr ports \<longrightarrow> distinct (map port_name ports)"
  shows "if sd_cancellation_token self = None
    then \<exists>msg. sd_watch macos self raises turns = ([], Failed (PyValueError msg))
    else legal_log fresh_addr know_addr {} (fst (sd_watch macos self raises turns))"
proof (cases "sd_cancellation_token self")
  case None
  then show ?thesis by (simp add: sd_watch_def)
next
  case (Some t)
  let ?turns = "map (\<lambda>(top, env, naps).
      \<lparr>cancelled_at_top = top, tick = sd_discover macos self env, sleep_reads = naps\<rparr>) turns"
  have "\<forall>p \<in> set ?turns. \<forall>ms. tick p = Inr ms \<longrightarrow> distinct_addrs ms"
    using assms sd_discover_distinct [of macos self] by fastforce
  then have "legal_log fresh_addr know_addr {} (fst (poll_watch raises [] [] ?turns))"
    by (rule poll_watch_legal)
  then show ?thesis
    using Some by (simp add: sd_watch_def)
qed

theorem serial_watch_consistent_witness:
  "legal_log fresh_addr know_addr {}
     (fst (sd_watch False ((sample_serial None)\<lparr>sd_cancellation_token := Some 0\<rparr>) (\<lambda>_. None)
       [(False, sample_serial_env, [False]), (True, sample_serial_env, [])]))"
  using serial_watch_consistent [of "[(False, sample_serial_env, [False]), (True, sample_serial_env, [])]"
      "(sample_serial None)\<lparr>sd_cancellation_token := Some 0\<rparr>" False "\<lambda>_. None"]
  by (simp add: sample_serial_env_def sample_sweep_def sample_ports_def)

end
