(* ===== verification/Serial_Finds.thy ===== *)
theory Serial_Finds
  imports Serial_Discovery
begin

text \<open>
  What the parts of the serial discovery promise together: when a device on a serial port is found.
\<close>

section \<open>The blocking probe reaches the device's rate\<close>

text \<open>A prompt answer costs its own time and one short pause, once the port takes the short timeout.\<close>

lemma read_blocking_drains:
  assumes "sum_list (map fst rs) \<le> left" "\<forall>(d, r) \<in> set rs. d \<le> 50"
  shows "\<exists>cur' spent'. read_blocking True 50 trm acc spent rs = (read_response left trm acc rs, cur', spent') \<and>
    spent' \<le> spent + sum_list (map fst rs) + 50"
  using assms
proof (induction left trm acc rs arbitrary: spent rule: read_response.induct)
  case (1 left trm acc)
  then show ?case by simp
next
  case (2 left trm acc d r rs)
  have d: "\<not> left < d" "d \<le> 50"
    using 2(2,3) by auto
  show ?case
  proof (cases "r = ReadErr \<or> r = ReadOk [] \<or> (\<exists>bs. r = ReadOk bs \<and> terminated trm (acc @ bs))")
    case True
    then show ?thesis
      using d by (auto simp: Let_def split: read_result.split)
  next
    case False
    then obtain bs where r: "r = ReadOk bs" "bs \<noteq> []" "\<not> terminated trm (acc @ bs)"
      by (cases r) auto
    have "\<exists>cur' spent'. read_blocking True 50 trm (acc @ bs) (spent + d) rs =
        (read_response (left - d) trm (acc @ bs) rs, cur', spent') \<and>
        spent' \<le> spent + d + sum_list (map fst rs) + 50"
      using 2(2,3) by (intro 2(1) [OF d(1) r(1,2) refl r(3)]) auto
    then show ?thesis
      using r d by (simp add: add.assoc)
  qed
qed

lemma read_blocking_answer:
  assumes "prompt left rs" "50 \<le> cur" "read_response left trm [] rs \<noteq> []"
  shows "\<exists>cur' spent'. read_blocking True cur trm [] spent rs = (read_response left trm [] rs, cur', spent') \<and>
    spent' \<le> spent + sum_list (map fst rs) + 50"
proof -
  obtain d bs rs' where rs: "rs = (d, ReadOk bs) # rs'" "bs \<noteq> []" "\<not> left < d"
    using assms(3) by (cases rs) (auto split: if_splits read_result.splits)
  have d: "\<not> cur < d" "\<forall>(d, r) \<in> set rs'. d \<le> 50" "sum_list (map fst rs') \<le> left - d"
    using assms(1,2) rs(1) by (auto simp: prompt_def)
  then show ?thesis
    using rs read_blocking_drains [OF d(3,2), of trm bs "spent + d"] by (auto simp: Let_def)
qed

text \<open>
  A device that is silent at every other rate and answers promptly at \<open>rate\<close>, on a port that takes
  every setting and every write, probed without cancellation.
\<close>

definition answers_only_at :: "port_env \<Rightarrow> serial_params \<Rightarrow> u32 \<Rightarrow> reads \<Rightarrow> bool" where
  "answers_only_at env p rate rs =
     (open_error env = None \<and> (\<forall>i. \<not> cancel_seen (sp_token p) (token_read env i)) \<and>
      (\<forall>i. rate_ok env i \<and> write_ok env i \<and> settable env i) \<and>
      (\<forall>i line. answer env i line (sp_probe p) = (if line = rate then rs else [])) \<and>
      prompt (sp_timeout p) rs \<and> read_response (sp_timeout p) (sp_terminator p) [] rs \<noteq> [] \<and>
      satisfies (sp_filter p) (read_response (sp_timeout p) (sp_terminator p) [] rs))"

lemma try_bauds_sync_skips:
  assumes "answers_only_at env p rate rs" "rate \<notin> set bs" "line \<noteq> rate"
  shows "\<exists>line'. try_bauds_sync env p path first line cur spent i (bs @ rest) =
    try_bauds_sync env p path first line' cur
      (spent + sum_list (map (write_ms env) [i..<i + length bs]) + length bs * cur) (i + length bs) rest"
  using assms(2,3)
proof (induction bs arbitrary: line spent i)
  case Nil
  then show ?case by auto
next
  case (Cons b bs)
  let ?line = "if b \<noteq> first then b else line"
  have line: "?line \<noteq> rate" "rate \<notin> set bs"
    using Cons.prems by auto
  have up: "[i..<i + length (b # bs)] = i # [Suc i..<Suc i + length bs]"
    by (simp add: upt_conv_Cons del: upt_Suc)
  have env: "\<not> cancel_seen (sp_token p) (token_read env i)" "rate_ok env i" "write_ok env i"
    "answer env i ?line (sp_probe p) = []"
    using assms(1) line(1) by (auto simp: answers_only_at_def)
  have "try_bauds_sync env p path first line cur spent i ((b # bs) @ rest) =
      try_bauds_sync env p path first ?line cur (spent + write_ms env i + cur) (Suc i) (bs @ rest)"
    using env by (simp add: response_to_match_def Let_def del: if_split)
  also obtain line' where "\<dots> = try_bauds_sync env p path first line' cur
      (spent + write_ms env i + cur + sum_list (map (write_ms env) [Suc i..<Suc i + length bs]) + length bs * cur)
      (Suc i + length bs) rest"
    using Cons.IH [OF line(2,1)] by blast
  finally show ?case
    unfolding up by (auto simp: algebra_simps)
qed

text \<open>The time until the device has answered at the rate with \<open>k\<close> others before it.\<close>

definition time_needed :: "port_env \<Rightarrow> serial_params \<Rightarrow> nat \<Rightarrow> reads \<Rightarrow> nat" where
  "time_needed env p k rs =
     open_ms env + sum_list (map (write_ms env) [0..<Suc k]) + k * sp_timeout p + sum_list (map fst rs) + 50"

lemma probe_sync_finds:
  assumes "answers_only_at env p rate rs" "sp_bauds p = bs @ rate # later" "rate \<notin> set bs"
    and "build_builder path (hd (sp_bauds p)) (sp_data_bits p) (sp_parity p) (sp_stop_bits p) (sp_flow_control p) = Inr b"
    and "50 \<le> sp_timeout p"
  shows "\<exists>t. probe_port_all_bauds_sync env p path =
    (Returns (Inr (Some (serial_match p path rate (read_response (sp_timeout p) (sp_terminator p) [] rs)))), t) \<and>
    t \<le> time_needed env p (length bs) rs"
proof -
  let ?f = "hd (sp_bauds p)" and ?resp = "read_response (sp_timeout p) (sp_terminator p) [] rs"
  let ?spent = "open_ms env + sum_list (map (write_ms env) [0..<length bs]) + length bs * sp_timeout p"
  have pb: "pb_baud b = ?f" "sp_bauds p \<noteq> []"
    using assms(2,4) by (auto simp: build_builder_iff)
  have open_ok: "open_error env = None"
    using assms(1) by (simp add: answers_only_at_def)
  have start: "probe_port_all_bauds_sync env p path =
      try_bauds_sync env p path ?f ?f (sp_timeout p) (open_ms env) 0 (sp_bauds p)"
    using pb open_ok assms(4) by (cases "sp_bauds p") (simp_all add: probe_port_all_bauds_sync_def)
  have "\<exists>line'. (if rate \<noteq> ?f then rate else line') = rate \<and>
      probe_port_all_bauds_sync env p path =
        try_bauds_sync env p path ?f line' (sp_timeout p) ?spent (length bs) (rate # later)"
  proof (cases bs)
    case Nil
    then show ?thesis
      using start assms(2) by (intro exI [of _ ?f]) simp
  next
    case (Cons c cs)
    then have "?f \<noteq> rate"
      using assms(2,3) by auto
    then show ?thesis
      using try_bauds_sync_skips [OF assms(1,3), of ?f path ?f "sp_timeout p" "open_ms env" 0 "rate # later"]
        start assms(2) by auto
  qed
  then obtain line' where line: "(if rate \<noteq> ?f then rate else line') = rate"
    "probe_port_all_bauds_sync env p path =
       try_bauds_sync env p path ?f line' (sp_timeout p) ?spent (length bs) (rate # later)"
    by blast
  have a: "\<not> cancel_seen (sp_token p) (token_read env (length bs))" "rate_ok env (length bs)" "write_ok env (length bs)" "settable env (length bs)"
    "answer env (length bs) rate (sp_probe p) = rs" "prompt (sp_timeout p) rs" "?resp \<noteq> []"
    "satisfies (sp_filter p) ?resp"
    using assms(1) by (simp_all add: answers_only_at_def)
  obtain cur' spent' where rb: "read_blocking True (sp_timeout p) (sp_terminator p) []
      (?spent + write_ms env (length bs)) rs = (?resp, cur', spent')"
    "spent' \<le> ?spent + write_ms env (length bs) + sum_list (map fst rs) + 50"
    using read_blocking_answer [OF a(6) assms(5) a(7)] by blast
  have "response_to_match p path rate ?resp = Returns (Some (serial_match p path rate ?resp))"
    using a(7,8) by (rule response_to_match_accepted)
  then have "try_bauds_sync env p path ?f line' (sp_timeout p) ?spent (length bs) (rate # later) =
      (Returns (Inr (Some (serial_match p path rate ?resp))), spent')"
    using a(1-5) rb(1) line(1) by (simp add: Let_def)
  moreover have "spent' \<le> time_needed env p (length bs) rs"
    using rb(2) by (simp add: time_needed_def)
  ultimately show ?thesis
    using line(2) by auto
qed

section \<open>Finding a device\<close>

text \<open>
  A device within reach of the discovery: its port is selected, the settings are valid, it answers
  promptly at one of the rates and is silent at the others, and the rates before that one, the writes
  and the answer itself fit into the time budget of a sweep task.
\<close>

definition serial_in_reach ::
  "bool \<Rightarrow> serial_discovery \<Rightarrow> bytes \<Rightarrow> serial_env \<Rightarrow> string \<Rightarrow> u32 \<Rightarrow> reads \<Rightarrow> bool" where
  "serial_in_reach macos self probe env path rate rs =
     (let p = dc_params (sd_config self) probe; port = port_at (se_sweep env) path in
      50 \<le> sp_timeout p \<and> quiet_sweep (se_sweep env) p \<and> answers_only_at port p rate rs \<and>
      (\<exists>ports q. available (se_sweep env) = Inr ports \<and> distinct (map port_name ports) \<and>
         q \<in> set (select_ports macos (sd_include_bluetooth self) (sd_port_filter self) ports) \<and>
         port_name q = path) \<and>
      (\<exists>bs later b. sd_baud_rates self = bs @ rate # later \<and> rate \<notin> set bs \<and>
         build_builder path (hd (sp_bauds p)) (sp_data_bits p) (sp_parity p) (sp_stop_bits p)
           (sp_flow_control p) = Inr b \<and>
         time_needed port p (length bs) rs \<le> sp_timeout p + 1000))"

lemma sd_discover_finds:
  assumes "sd_probe_command self = Some probe" "sd_preferred_port self = None"
    and "serial_in_reach macos self probe env path rate rs" "p = dc_params (sd_config self) probe"
  obtains ms where "sd_discover macos self env = Inr ms" "distinct_addrs ms"
    "serial_match p path rate (read_response (sp_timeout p) (sp_terminator p) [] rs) \<in> set ms"
proof -
  let ?m = "serial_match p path rate (read_response (sp_timeout p) (sp_terminator p) [] rs)"
  let ?port = "port_at (se_sweep env) path"
  obtain ports q bs later b where h: "50 \<le> sp_timeout p" "quiet_sweep (se_sweep env) p"
    "answers_only_at ?port p rate rs"
    and q: "available (se_sweep env) = Inr ports" "distinct (map port_name ports)"
    "q \<in> set (select_ports macos (sd_include_bluetooth self) (sd_port_filter self) ports)" "port_name q = path"
    and bs: "sd_baud_rates self = bs @ rate # later" "rate \<notin> set bs"
    "build_builder path (hd (sp_bauds p)) (sp_data_bits p) (sp_parity p) (sp_stop_bits p) (sp_flow_control p) = Inr b"
    "time_needed ?port p (length bs) rs \<le> sp_timeout p + 1000"
    using assms(3) unfolding serial_in_reach_def assms(4) [symmetric] Let_def by blast
  let ?rs = "sweep_results macos (se_sweep env) p (sd_include_bluetooth self) (sd_port_filter self) ports"
  have p: "sp_bauds p = bs @ rate # later"
    using bs(1) assms(4) by (simp add: sd_config_def)
  have task: "sweep_task p ?port path = Returns (Inr (Some ?m))"
    using probe_sync_finds [OF h(3) p bs(2,3) h(1)] bs(4) by (auto simp: sweep_task_def open_budget_def)
  have "?m \<in> set (join_all (join_order (se_sweep env)) ?rs)"
    unfolding sweep_uncancelled(2) [OF q(1) h(2)]
    using q(3,4) by (intro swept.batch_complete [OF _ task]) auto
  moreover have run: "sd_discover macos self env = Inr (join_all (join_order (se_sweep env)) ?rs)"
    using assms(1,2,4) bs(1) sweep_uncancelled(1) [OF q(1) h(2)]
    by (simp add: sd_discover_def sd_validate_def run_serial_discovery_def sd_config_def block_on_result_def)
  moreover have "distinct_addrs (join_all (join_order (se_sweep env)) ?rs)"
    using sd_discover_distinct [OF run] q(1,2) by auto
  ultimately show thesis
    using that by blast
qed

text \<open>
  C2.  A device on a serial port is found.  Let the object have a probe command and no preferred
  port, and let nobody cancel it; let a device on one of the selected ports answer promptly at one
  of the configured rates and be silent at the others.  If the rates before that one, the writes and
  the answer itself fit into the time budget of a sweep task, the list that \<open>discover\<close> returns
  has exactly one match with the port's name, and it has that rate and the device's answer, whatever
  the other ports do and in whatever order the tasks end.
\<close>

theorem serial_finds_device:
  assumes "sd_probe_command self = Some probe" "sd_preferred_port self = None"
    and "serial_in_reach macos self probe env path rate rs"
  shows "\<exists>ms m. sd_discover macos self env = Inr ms \<and> filter (\<lambda>m. address m = path) ms = [m] \<and>
    transport m = Serial \<and> baud_rate m = Some rate \<and>
    response m = Some (read_response (unat (sd_timeout_ms self)) (sd_response_terminator self) [] rs)"
proof -
  let ?p = "dc_params (sd_config self) probe"
  let ?m = "serial_match ?p path rate (read_response (sp_timeout ?p) (sp_terminator ?p) [] rs)"
  obtain ms where ms: "sd_discover macos self env = Inr ms" "distinct_addrs ms" "?m \<in> set ms"
    by (rule sd_discover_finds [OF assms refl])
  have "filter (\<lambda>m. address m = path) ms = [?m]"
    using ms(2,3) by (rule distinct_addrs_only) simp
  then show ?thesis
    using ms(1) by (simp add: baud_rate_match sd_config_def)
qed

section \<open>Watching it\<close>

text \<open>
  C4.  A device on a serial port that stays within reach is reported by the watcher as added, once,
  with the first pass, and never as added again, however long the watcher runs and whatever the other
  ports do, until a callback raises.  It is not reported as removed either, unless a last pass, which
  may be interrupted by a cancellation or go any other way, returns a list without it: then it is
  removed, once, although it may still be there.  This is with a probe command and without a preferred
  port; within reach means, as for C2, that the device answers promptly at one of the rates, is silent
  at the others and fits into the time budget, in each pass but such a last one, and that no token is
  seen set during it.
\<close>

theorem serial_watch_device:
  assumes "sd_probe_command self = Some probe" "sd_preferred_port self = None"
    and "sd_cancellation_token self = Some tok" "turns = (False, env, naps) # rest"
    and "\<forall>(stop, env, naps) \<in> set turns. serial_in_reach macos self probe env path rate rs"
    and "length ending \<le> 1" "sd_watch macos self raises (turns @ ending) = (log, fin)"
    and "\<not> callback_raised fin"
  shows "\<exists>m. transport m = Serial \<and> baud_rate m = Some rate \<and>
    (filter (\<lambda>c. callback_addr c = path) log = [Added m] \<or>
     (\<exists>env' naps' ms m'. ending = [(False, env', naps')] \<and> sd_discover macos self env' = Inr ms \<and>
        path \<notin> addresses ms \<and> filter (\<lambda>c. callback_addr c = path) log = [Added m, Removed m']))"
proof -
  let ?p = "dc_params (sd_config self) probe"
  let ?m = "serial_match ?p path rate (read_response (sp_timeout ?p) (sp_terminator ?p) [] rs)"
  let ?poll = "\<lambda>(top, env, naps).
    \<lparr>cancelled_at_top = top, tick = sd_discover macos self env, sleep_reads = naps\<rparr>"
  let ?ps = "map ?poll turns"
  have found: "?m \<in> set ms \<and> distinct_addrs ms" if t: "q \<in> set ?ps" "tick q = Inr ms" for q ms
  proof -
    obtain env where env: "serial_in_reach macos self probe env path rate rs" "sd_discover macos self env = Inr ms"
      using t assms(5) by auto
    show ?thesis
      by (rule sd_discover_finds [OF assms(1,2) env(1) refl]) (use env(2) in auto)
  qed
  have "serial_in_reach macos self probe env path rate rs"
    using assms(4,5) by auto
  then obtain e where "sd_discover macos self env = Inr e"
    using sd_discover_finds [OF assms(1,2) _ refl] by metis
  then obtain es where es: "polled ?ps = e # es"
    using assms(4) by auto
  have all: "?m \<in> set ms \<and> distinct_addrs ms" if "ms \<in> set (e # es)" for ms
    using found polled_ticks [of ms ?ps] that es by metis
  have steady: "\<forall>ms \<in> set (e # es). path \<in> addresses ms \<and> distinct_addrs ms"
    using all by (force simp: addresses_def)
  have w: "poll_watch raises [] [] (?ps @ map ?poll ending) = (log, fin)"
    using assms(3,7) by (simp add: sd_watch_def)
  then have quiet: "\<not> callback_raised (snd (poll_watch raises [] [] (?ps @ map ?poll ending)))"
    using assms(8) by simp
  obtain m where m: "m \<in> set e" "address m = path"
    "filter (\<lambda>c. callback_addr c = path) log = [Added m] \<or>
     (\<exists>c ms m'. map ?poll ending = [c] \<and> \<not> cancelled_at_top c \<and> tick c = Inr ms \<and> path \<notin> addresses ms \<and>
        address m' = path \<and> filter (\<lambda>c. callback_addr c = path) log = [Added m, Removed m'])"
    by (rule poll_watch_steady [OF quiet es steady]) (use assms(6) in \<open>simp_all only: w fst_conv length_map\<close>)
  have "filter (\<lambda>c. callback_addr c = path) log = [Added m] \<or>
     (\<exists>env' naps' ms m'. ending = [(False, env', naps')] \<and> sd_discover macos self env' = Inr ms \<and>
        path \<notin> addresses ms \<and> filter (\<lambda>c. callback_addr c = path) log = [Added m, Removed m'])"
    using m(3) by (auto simp: map_eq_Cons_conv)
  moreover have "filter (\<lambda>m. address m = path) e = [?m]" "filter (\<lambda>m. address m = path) e = [m]"
    using all [of e] m(1,2) by (auto intro: distinct_addrs_only)
  ultimately show ?thesis
    by (intro exI [of _ m]) (simp add: baud_rate_match)
qed

text \<open>
  What a cancellation during a pass does: a token set before the first task is joined makes the pass
  return an empty list, which the watcher takes for the ports that answer now.
\<close>

definition interrupted_sweep :: "serial_env \<Rightarrow> serial_env" where
  "interrupted_sweep env = env\<lparr>se_sweep := (se_sweep env)\<lparr>drain_reads := \<lambda>_. True\<rparr>\<rparr>"

lemma sd_discover_interrupted:
  assumes "sd_probe_command self = Some probe" "sd_preferred_port self = None" "sd_baud_rates self \<noteq> []"
    and "sd_cancellation_token self = Some tok" "available (se_sweep env) = Inr ports"
  shows "sd_discover macos self (interrupted_sweep env) = Inr []"
proof -
  let ?p = "dc_params (sd_config self) probe" and ?env = "se_sweep (interrupted_sweep env)"
  have av: "available ?env = Inr ports" and seen: "cancel_seen (sp_token ?p) (drain_reads ?env j)" for j
    using assms(4,5) by (simp_all add: interrupted_sweep_def sd_config_def)
  obtain k where k: "sweep_all_ports macos ?env ?p (sd_include_bluetooth self) (sd_port_filter self) None sender_new =
      (Inr (taken_matches (take k (pick_order (join_order ?env)
        (sweep_results macos ?env ?p (sd_include_bluetooth self) (sd_port_filter self) ports)))),
       send_all None (taken_matches (take k (pick_order (join_order ?env)
        (sweep_results macos ?env ?p (sd_include_bluetooth self) (sd_port_filter self) ports)))) sender_new)"
    "\<forall>j < k. \<not> cancel_seen (sp_token ?p) (drain_reads ?env j)"
    using sweep_taken [OF av, of macos ?p "sd_include_bluetooth self" "sd_port_filter self" None sender_new] by blast
  have "k = 0"
    using k(2) seen by blast
  then have "fst (sweep_all_ports macos ?env ?p (sd_include_bluetooth self) (sd_port_filter self) None sender_new) = Inr []"
    unfolding k(1) by (simp add: taken_matches_def)
  then show ?thesis
    using assms(1-3)
    by (simp add: sd_discover_def sd_validate_def run_serial_discovery_def sd_config_def block_on_result_def
        split_def)
qed

theorem serial_watch_interrupted:
  assumes "sd_probe_command self = Some probe" "sd_preferred_port self = None"
    and "sd_cancellation_token self = Some tok" "serial_in_reach macos self probe env path rate rs"
  shows "\<exists>ms m. sd_watch macos self (\<lambda>_. None) [(False, env, [False]), (False, interrupted_sweep env, [True])] =
      (map Added ms @ map Removed ms, Stopped) \<and> m \<in> set ms \<and> address m = path"
proof -
  have reach: "sd_baud_rates self \<noteq> []" "\<exists>ports. available (se_sweep env) = Inr ports"
    using assms(4) by (auto simp: serial_in_reach_def Let_def)
  obtain ms where ms: "sd_discover macos self env = Inr ms" "distinct_addrs ms"
    "serial_match (dc_params (sd_config self) probe) path rate
       (read_response (sp_timeout (dc_params (sd_config self) probe))
          (sp_terminator (dc_params (sd_config self) probe)) [] rs) \<in> set ms"
    by (rule sd_discover_finds [OF assms(1,2,4) refl])
  have "sd_discover macos self (interrupted_sweep env) = Inr []"
    using reach(2) sd_discover_interrupted [OF assms(1,2) reach(1) assms(3)] by blast
  then have "sd_watch macos self (\<lambda>_. None) [(False, env, [False]), (False, interrupted_sweep env, [True])] =
      (map Added ms @ map Removed ms, Stopped)"
    using assms(3) ms(1) poll_watch_lost [of ms] by (simp add: sd_watch_def)
  then show ?thesis
    using ms(3) by (intro exI conjI) (assumption, assumption, simp)
qed

section \<open>An example\<close>

definition reachable_serial :: "token option \<Rightarrow> serial_discovery" where
  "reachable_serial t = (sample_serial (Some [63]))\<lparr>sd_preferred_port := None, sd_cancellation_token := t\<rparr>"

lemma reachable_fields:
  "sd_probe_command (reachable_serial t) = Some [63]" "sd_preferred_port (reachable_serial t) = None"
  "sd_cancellation_token (reachable_serial t) = t" "sd_baud_rates (reachable_serial t) = [9600, 115200]"
  "unat (sd_timeout_ms (reachable_serial t)) = 500" "sd_response_terminator (reachable_serial t) = None"
  by (simp_all add: reachable_serial_def sample_serial_def)

lemma reachable_in_reach:
  "serial_in_reach False (reachable_serial t) [63] sample_serial_env ''/dev/cu.usb1'' 115200 [(20, ReadOk [79, 75])]"
proof -
  let ?self = "reachable_serial t"
  let ?p = "dc_params (sd_config ?self) [63]" and ?port = "port_at (se_sweep sample_serial_env) ''/dev/cu.usb1''"
  have p: "?p = (sample_params [9600, 115200])\<lparr>sp_token := t\<rparr>"
    by (simp add: sd_config_def reachable_serial_def sample_serial_def sample_params_def)
  have port: "?port = sample_port only_fast"
    by (simp add: sample_serial_env_def sample_sweep_def)
  have unset: "\<not> cancel_seen t False"
    by (cases t) simp_all
  then have quiet: "quiet_sweep (se_sweep sample_serial_env) ?p"
    unfolding p by (simp add: quiet_sweep_def sample_serial_env_def sample_sweep_def)
  have dev: "answers_only_at ?port ?p 115200 [(20, ReadOk [79, 75])]"
    unfolding port p using unset
    by (simp add: answers_only_at_def sample_port_def sample_params_def only_fast_def prompt_def
        satisfies_filter_eval terminated_def Let_def)
  have listed: "available (se_sweep sample_serial_env) = Inr sample_ports \<and> distinct (map port_name sample_ports) \<and>
      sample_ports ! 1 \<in> set (select_ports False (sd_include_bluetooth ?self) (sd_port_filter ?self) sample_ports) \<and>
      port_name (sample_ports ! 1) = ''/dev/cu.usb1''"
    by (simp add: sample_serial_env_def sample_sweep_def sample_ports_def select_ports_def
        reachable_serial_def sample_serial_def)
  obtain b where b: "build_builder ''/dev/cu.usb1'' (hd (sp_bauds ?p)) (sp_data_bits ?p) (sp_parity ?p)
      (sp_stop_bits ?p) (sp_flow_control ?p) = Inr b"
    using sample_opens [of "''/dev/cu.usb1''" "[9600, 115200]"] by (simp add: p)
  have "sd_baud_rates ?self = [9600] @ 115200 # [] \<and> 115200 \<notin> set [9600 :: u32] \<and>
      time_needed ?port ?p (length [9600 :: u32]) [(20, ReadOk [79, 75])] \<le> sp_timeout ?p + 1000"
    unfolding port p by (simp add: time_needed_def reachable_fields)
  moreover have "50 \<le> sp_timeout ?p"
    by (simp add: p)
  ultimately show ?thesis
    unfolding serial_in_reach_def Let_def using quiet dev listed b by blast
qed

theorem serial_finds_device_witness:
  "\<exists>ms m. sd_discover False (reachable_serial None) sample_serial_env = Inr ms \<and>
     filter (\<lambda>m. address m = ''/dev/cu.usb1'') ms = [m] \<and> baud_rate m = Some 115200 \<and> response m = Some [79, 75]"
  using serial_finds_device [OF reachable_fields(1,2) reachable_in_reach, of None]
  by (simp add: reachable_fields terminated_def) blast

theorem serial_watch_device_witness:
  "\<exists>m. filter (\<lambda>c. callback_addr c = ''/dev/cu.usb1'')
     (fst (sd_watch False (reachable_serial (Some 0)) (\<lambda>_. None)
        [(False, sample_serial_env, [False]), (False, sample_serial_env, [True])])) = [Added m] \<and>
     baud_rate m = Some 115200"
proof -
  let ?self = "reachable_serial (Some 0)"
  let ?turns = "[(False, sample_serial_env, [False]), (False, sample_serial_env, [True])]"
  obtain log fin where w: "sd_watch False ?self (\<lambda>_. None) (?turns @ []) = (log, fin)" by force
  obtain ms where "sd_discover False ?self sample_serial_env = Inr ms"
    by (rule sd_discover_finds [OF reachable_fields(1,2) reachable_in_reach refl])
  then have "\<not> callback_raised (snd (sd_watch False ?self (\<lambda>_. None) ?turns))"
    unfolding sd_watch_def reachable_fields option.case by (intro poll_watch_quiet) auto
  then have "\<not> callback_raised fin"
    using w by simp
  from serial_watch_device [where path = "''/dev/cu.usb1''" and rate = 115200 and rs = "[(20, ReadOk [79, 75])]",
      OF reachable_fields(1,2,3) refl _ _ w this]
  show ?thesis
    using reachable_in_reach [of "Some 0"] w by auto
qed

theorem serial_watch_interrupted_witness:
  "\<exists>ms m. sd_watch False (reachable_serial (Some 0)) (\<lambda>_. None)
       [(False, sample_serial_env, [False]), (False, interrupted_sweep sample_serial_env, [True])] =
     (map Added ms @ map Removed ms, Stopped) \<and> m \<in> set ms \<and> address m = ''/dev/cu.usb1''"
  by (rule serial_watch_interrupted [OF reachable_fields(1,2,3) reachable_in_reach])

end
