(* ===== verification/Stream_Pipe.thy ===== *)
theory Stream_Pipe
  imports Batch
begin

text \<open>
  The streaming methods run the discovery on a thread of its own.  It sends every match over a
  bounded channel with \<open>try_send\<close>; the caller receives them, invokes the callback on each, and
  joins the thread at the end.  The model elsewhere takes which sends find room as given; here are
  the two threads step by step, and the proof that they do not reach anything else.
\<close>

section \<open>The two threads\<close>

text \<open>
  What the discovery still has to send, whether it still runs, the channel, the caller's list of
  matches the callback was invoked on, and the caller's result once it has one; the receiver
  exists exactly as long as there is none.
\<close>

record stream =
  unsent :: "device_match list"
  scanning :: bool
  in_channel :: "device_match list"
  called :: "device_match list"
  ended :: "(py_err + device_match list) option"

definition stream_start :: "device_match list \<Rightarrow> stream" where
  "stream_start ms = \<lparr>unsent = ms, scanning = True, in_channel = [], called = [], ended = None\<rparr>"

text \<open>The result of the caller after its last receive: the thread is joined and its result \<open>r\<close> read.\<close>

definition join_result ::
  "(dafydd_error + device_match list) outcome \<Rightarrow> device_match list \<Rightarrow> py_err + device_match list" where
  "join_result r all_matches =
     (case r of
        Panics \<Rightarrow> Inl (PyRuntimeError ''discovery thread panicked'')
      | Returns (Inl e) \<Rightarrow> Inl (error_to_pyerr e)
      | Returns (Inr _) \<Rightarrow> Inr all_matches)"

text \<open>
  The channel has room for \<open>cap\<close> matches.  The discovery thread sends, drops what finds no room or no receiver, and ends.  The caller
  receives and calls back; an exception ends it at once and drops the receiver with what is in the
  channel, while the thread runs on; an empty channel without a sender ends the loop.
\<close>

inductive stream_step ::
  "nat \<Rightarrow> (nat \<Rightarrow> string option) \<Rightarrow> (dafydd_error + device_match list) outcome \<Rightarrow> stream \<Rightarrow> stream \<Rightarrow> bool"
  for cap raises r where
  send: "unsent s = m # ms \<Longrightarrow> ended s = None \<Longrightarrow> length (in_channel s) < cap \<Longrightarrow>
     stream_step cap raises r s (s\<lparr>unsent := ms, in_channel := in_channel s @ [m]\<rparr>)"
| send_dropped: "unsent s = m # ms \<Longrightarrow> ended s \<noteq> None \<or> cap \<le> length (in_channel s) \<Longrightarrow>
     stream_step cap raises r s (s\<lparr>unsent := ms\<rparr>)"
| finish: "unsent s = [] \<Longrightarrow> scanning s \<Longrightarrow> stream_step cap raises r s (s\<lparr>scanning := False\<rparr>)"
| call: "ended s = None \<Longrightarrow> in_channel s = m # q \<Longrightarrow> raises (length (called s)) = None \<Longrightarrow>
     stream_step cap raises r s (s\<lparr>in_channel := q, called := called s @ [m]\<rparr>)"
| call_raised: "ended s = None \<Longrightarrow> in_channel s = m # q \<Longrightarrow> raises (length (called s)) = Some msg \<Longrightarrow>
     stream_step cap raises r s (s\<lparr>in_channel := [], called := called s @ [m], ended := Some (Inl (CallbackError msg))\<rparr>)"
| received_all: "ended s = None \<Longrightarrow> in_channel s = [] \<Longrightarrow> \<not> scanning s \<Longrightarrow>
     stream_step cap raises r s (s\<lparr>ended := Some (join_result r (called s))\<rparr>)"

inductive_cases stream_stepE: "stream_step cap raises r s s'"

section \<open>The invariant\<close>

text \<open>
  What was accepted is a subsequence of what was tried; while the caller runs it is what was called
  back and what is in the channel; a caller that ended has the result of the sequential model on
  what was accepted.  Nothing is dropped before the channel was filled once.
\<close>

definition stream_inv ::
  "nat \<Rightarrow> (nat \<Rightarrow> string option) \<Rightarrow> (dafydd_error + device_match list) outcome \<Rightarrow> device_match list \<Rightarrow>
   stream \<Rightarrow> bool" where
  "stream_inv cap raises r ms s =
     (length (in_channel s) \<le> cap \<and>
      (scanning s \<or> unsent s = []) \<and>
      (\<exists>tried taken. ms = tried @ unsent s \<and> subseq taken tried \<and>
         (case ended s of
            None \<Rightarrow> taken = called s @ in_channel s \<and> (\<forall>i < length (called s). raises i = None) \<and>
              (length ms \<le> cap \<longrightarrow> taken = tried)
          | Some res \<Rightarrow> receive_stream raises taken r = (called s, res) \<and>
              (length ms \<le> cap \<and> (\<forall>i. raises i = None) \<longrightarrow> taken = ms))))"

lemma stream_calls_quiet_prefix:
  "(\<forall>i < length xs. raises (length log + i) = None) \<Longrightarrow>
     stream_calls raises log (xs @ ys) = stream_calls raises (log @ xs) ys"
proof (induction xs arbitrary: log)
  case Nil
  then show ?case by simp
next
  case (Cons x xs)
  have "raises (length log) = None"
    using Cons.prems by (metis add_0_right length_greater_0_conv list.distinct(1))
  moreover have "\<forall>i < length xs. raises (length (log @ [x]) + i) = None"
    using Cons.prems by (metis Suc_less_eq add_Suc_shift length_Cons length_append_singleton)
  ultimately show ?case
    using Cons.IH [of "log @ [x]"] by simp
qed

lemma receive_stream_all:
  "(\<forall>i < length ms. raises i = None) \<Longrightarrow> receive_stream raises ms r = (ms, join_result r ms)"
  using stream_calls_quiet_prefix [of ms raises "[]" "[]"] by (simp add: receive_stream_def join_result_def)

lemma receive_stream_raised:
  "(\<forall>i < length xs. raises i = None) \<Longrightarrow> raises (length xs) = Some msg \<Longrightarrow>
     receive_stream raises (xs @ m # ys) r = (xs @ [m], Inl (CallbackError msg))"
  using stream_calls_quiet_prefix [of xs raises "[]" "m # ys"] by (simp add: receive_stream_def)

lemma stream_inv_start: "stream_inv cap raises r ms (stream_start ms)"
  by (simp add: stream_inv_def stream_start_def)

lemma stream_inv_step:
  assumes "stream_step cap raises r s s'" "stream_inv cap raises r ms s"
  shows "stream_inv cap raises r ms s'"
proof -
  obtain tried taken where t: "ms = tried @ unsent s" "subseq taken tried"
    "case ended s of
       None \<Rightarrow> taken = called s @ in_channel s \<and> (\<forall>i < length (called s). raises i = None) \<and>
         (length ms \<le> cap \<longrightarrow> taken = tried)
     | Some res \<Rightarrow> receive_stream raises taken r = (called s, res) \<and>
         (length ms \<le> cap \<and> (\<forall>i. raises i = None) \<longrightarrow> taken = ms)"
    and len: "length (in_channel s) \<le> cap" and sc: "scanning s \<or> unsent s = []"
    using assms(2) by (auto simp: stream_inv_def)
  show ?thesis
    using assms(1)
  proof (cases rule: stream_step.cases)
    case (send m rest)
    have taken: "taken = called s @ in_channel s"
      using t(3) send(3) by simp
    have "subseq (taken @ [m]) (tried @ [m])"
      by (intro list_emb_append_mono t(2)) simp
    then have "subseq (called s @ in_channel s @ [m]) (tried @ [m])"
      unfolding taken by (simp only: append_assoc)
    then show ?thesis
      using send t len sc unfolding stream_inv_def
      by (auto intro!: exI [of _ "tried @ [m]"] exI [of _ "taken @ [m]"])
  next
    case (send_dropped m rest)
    have "subseq taken (tried @ [m])"
      using t(2) by (rule list_emb_prefix)
    moreover have "cap < length ms" if "ended s = None"
    proof -
      have "cap \<le> length taken"
        using send_dropped(3) that t(3) by simp
      also have "\<dots> \<le> length tried"
        using t(2) by (rule list_emb_length)
      also have "\<dots> < length ms"
        using t(1) send_dropped(2) by simp
      finally show ?thesis .
    qed
    ultimately show ?thesis
      using send_dropped t len sc unfolding stream_inv_def
      by (auto intro!: exI [of _ "tried @ [m]"] exI [of _ taken] split: option.splits)
  next
    case finish
    then show ?thesis
      using t len unfolding stream_inv_def
      by (auto intro!: exI [of _ tried] exI [of _ taken] split: option.splits)
  next
    case (call m q)
    then show ?thesis
      using t len sc unfolding stream_inv_def
      by (auto simp: less_Suc_eq intro!: exI [of _ tried] exI [of _ taken])
  next
    case (call_raised m q msg)
    then show ?thesis
      using t sc receive_stream_raised [of "called s" raises msg m q r] unfolding stream_inv_def
      by (auto intro!: exI [of _ tried] exI [of _ taken])
  next
    case received_all
    then show ?thesis
      using t len sc receive_stream_all [of "called s" raises r] unfolding stream_inv_def
      by (auto intro!: exI [of _ tried] exI [of _ taken])
  qed
qed

lemma stream_inv_reachable:
  assumes "(stream_step cap raises r)\<^sup>*\<^sup>* (stream_start ms) s"
  shows "stream_inv cap raises r ms s"
  using assms by (induction rule: rtranclp_induct) (auto intro: stream_inv_start stream_inv_step)

section \<open>What every interleaving delivers\<close>

lemma send_all_cong:
  "(\<And>n. attempts s \<le> n \<Longrightarrow> room n = room' n) \<Longrightarrow> send_all (Some room) ms s = send_all (Some room') ms s"
proof (induction ms arbitrary: s)
  case Nil
  then show ?case by (simp add: send_all_def)
next
  case (Cons m ms)
  have "try_send (Some room) m s = try_send (Some room') m s"
    using Cons.prems [of "attempts s"] by (simp add: try_send_def)
  moreover have "send_all (Some room) ms (try_send (Some room') m s) =
      send_all (Some room') ms (try_send (Some room') m s)"
    by (rule Cons.IH) (use Cons.prems in \<open>simp add: try_send_def\<close>)
  ultimately show ?case
    by (simp add: send_all_def)
qed

text \<open>Any subsequence is what is delivered for some choice of the sends that find room.\<close>

lemma subseq_room:
  assumes "subseq taken ms"
  shows "\<exists>room. \<forall>s. attempts s = k \<longrightarrow> delivered (send_all (Some room) ms s) = delivered s @ taken"
  using assms
proof (induction ms arbitrary: taken k rule: list.induct)
  case Nil
  then show ?case by (simp add: send_all_def)
next
  case (Cons m ms)
  obtain b taken' where b: "taken = (if b then [m] else []) @ taken'" "subseq taken' ms"
  proof (cases "subseq taken ms")
    case False
    then obtain taken' where "taken = m # taken'" "subseq taken' ms"
      using Cons.prems by (cases taken) (auto split: if_splits)
    then show thesis using that [of True taken'] by simp
  qed (use that [of False taken] in simp)
  obtain room where room: "\<forall>s. attempts s = Suc k \<longrightarrow>
      delivered (send_all (Some room) ms s) = delivered s @ taken'"
    using Cons.IH [OF b(2)] by blast
  let ?room = "room(k := b)"
  have "delivered (send_all (Some ?room) (m # ms) s) = delivered s @ taken" if k: "attempts s = k" for s
  proof -
    let ?s = "try_send (Some ?room) m s"
    have s: "attempts ?s = Suc k" "delivered ?s = delivered s @ (if b then [m] else [])"
      using k by (simp_all add: try_send_def)
    have "send_all (Some ?room) ms ?s = send_all (Some room) ms ?s"
      by (rule send_all_cong) (use s in auto)
    then show ?thesis
      using room s b(1) by (simp add: send_all_def)
  qed
  then show ?case by blast
qed

text \<open>
  An ended run has the result of the sequential model for some choice of the sends that find room;
  a run with at most as many matches as the channel holds loses none.
\<close>

lemma stream_ended:
  assumes "(stream_step cap raises r)\<^sup>*\<^sup>* (stream_start ms) s" "ended s = Some res"
  obtains room where "receive_stream raises (delivered (send_all (Some room) ms sender_new)) r = (called s, res)"
proof -
  obtain tried taken where "ms = tried @ unsent s" "subseq taken tried"
    "receive_stream raises taken r = (called s, res)"
    using stream_inv_reachable [OF assms(1)] assms(2) by (auto simp: stream_inv_def)
  moreover from this have "subseq taken ms"
    by (auto intro: list_emb_prefix)
  then obtain room where "\<forall>s. attempts s = 0 \<longrightarrow> delivered (send_all (Some room) ms s) = delivered s @ taken"
    using subseq_room by blast
  then have "delivered (send_all (Some room) ms sender_new) = delivered sender_new @ taken"
    by (simp add: sender_new_def)
  then have "delivered (send_all (Some room) ms sender_new) = taken"
    by (simp add: sender_new_def)
  ultimately show thesis
    using that [of room] by simp
qed

lemma stream_ended_all:
  assumes "(stream_step cap raises r)\<^sup>*\<^sup>* (stream_start ms) s" "ended s = Some res"
    and "length ms \<le> cap" "\<forall>i. raises i = None"
  shows "called s = ms" "res = join_result r ms"
  using stream_inv_reachable [OF assms(1)] assms(2-4) receive_stream_all [of ms raises r]
  by (auto simp: stream_inv_def)

section \<open>Progress\<close>

definition stream_work :: "stream \<Rightarrow> nat" where
  "stream_work s = 2 * length (unsent s) + length (in_channel s) +
     (if scanning s then 1 else 0) + (if ended s = None then 1 else 0)"

lemma stream_work_decreases: "stream_step cap raises r s s' \<Longrightarrow> stream_work s' < stream_work s"
  by (induction rule: stream_step.induct) (auto simp: stream_work_def)

lemma stream_progress:
  assumes "ended s = None" "0 < cap"
  shows "\<exists>s'. stream_step cap raises r s s'"
proof (cases "in_channel s")
  case (Cons m q)
  then show ?thesis
    using assms by (cases "raises (length (called s))") (auto intro: call call_raised)
next
  case Nil
  then have room: "length (in_channel s) < cap"
    using assms(2) by simp
  show ?thesis
  proof (cases "unsent s")
    case (Cons m ms)
    then show ?thesis
      using send [OF Cons assms(1) room] by blast
  next
    case none: Nil
    then show ?thesis
      using assms Nil by (cases "scanning s") (auto intro: finish received_all)
  qed
qed

lemma stream_steps_bound:
  "(stream_step cap raises r ^^ k) s s' \<Longrightarrow> k + stream_work s' \<le> stream_work s"
proof (induction k arbitrary: s')
  case 0
  then show ?case by simp
next
  case (Suc k)
  then obtain s1 where "(stream_step cap raises r ^^ k) s s1" "stream_step cap raises r s1 s'"
    by auto
  then show ?case
    using Suc.IH [of s1] stream_work_decreases [of cap raises r s1 s'] by simp
qed

lemma stream_ends:
  assumes "0 < cap"
  obtains s' res where "(stream_step cap raises r)\<^sup>*\<^sup>* s s'" "ended s' = Some res"
proof -
  have "\<exists>s'. (stream_step cap raises r)\<^sup>*\<^sup>* s s' \<and> ended s' \<noteq> None"
  proof (induction "stream_work s" arbitrary: s rule: less_induct)
    case less
    show ?case
    proof (cases "ended s")
      case None
      then obtain s1 where s1: "stream_step cap raises r s s1"
        using stream_progress [OF _ assms] by blast
      then obtain s' where "(stream_step cap raises r)\<^sup>*\<^sup>* s1 s'" "ended s' \<noteq> None"
        using less stream_work_decreases by blast
      then show ?thesis
        using converse_rtranclp_into_rtranclp [of "stream_step cap raises r", OF s1] by blast
    qed auto
  qed
  then show thesis
    using that by auto
qed

text \<open>
  A result is final.  After an exception nothing tells the discovery thread to stop: it goes on to
  its end, with no receiver.
\<close>

lemma stream_final:
  "stream_step cap raises r s s' \<Longrightarrow> ended s = Some res \<Longrightarrow> ended s' = Some res \<and> called s' = called s"
  by (induction rule: stream_step.induct) auto

lemma stream_finals:
  assumes "(stream_step cap raises r)\<^sup>*\<^sup>* s s'" "ended s = Some res"
  shows "ended s' = Some res \<and> called s' = called s"
  using assms(1)
proof (induction rule: rtranclp_induct)
  case base
  then show ?case using assms(2) by simp
next
  case (step s1 s2)
  then show ?case using stream_final by metis
qed

text \<open>
  C12.  The two threads of a streaming call get to an end.  In every interleaving the channel is
  never overfull, some step is possible until the caller has its result, even when the discovery
  thread finds the channel full, and there are at most two steps per match and two more; and once
  the caller has its result, even while the discovery thread still runs, no callback follows.
\<close>

theorem stream_live:
  assumes "0 < cap"
  shows "((stream_step cap raises r)\<^sup>*\<^sup>* (stream_start ms) s \<longrightarrow> length (in_channel s) \<le> cap \<and>
      (ended s = None \<longrightarrow> (\<exists>s'. stream_step cap raises r s s'))) \<and>
   ((stream_step cap raises r ^^ k) (stream_start ms) s' \<longrightarrow> k \<le> 2 * length ms + 2) \<and>
   ((stream_step cap raises r)\<^sup>*\<^sup>* s s'' \<and> ended s = Some res \<longrightarrow> ended s'' = Some res \<and> called s'' = called s)"
proof (intro conjI)
  show "(stream_step cap raises r)\<^sup>*\<^sup>* (stream_start ms) s \<longrightarrow> length (in_channel s) \<le> cap \<and>
      (ended s = None \<longrightarrow> (\<exists>s'. stream_step cap raises r s s'))"
    using stream_inv_reachable [of cap raises r ms s] stream_progress [OF _ assms, of s raises r]
    by (auto simp: stream_inv_def)
  show "(stream_step cap raises r ^^ k) (stream_start ms) s' \<longrightarrow> k \<le> 2 * length ms + 2"
    using stream_steps_bound [of k cap raises r "stream_start ms" s']
    by (auto simp: stream_work_def stream_start_def)
qed (use stream_finals in blast)

theorem stream_live_witness:
  "\<exists>s'. stream_step 64 (\<lambda>_. None) (Returns (Inr []))
     (stream_start [device_match_new Serial ''COM3'' None None]) s'"
  using stream_live [of 64 "\<lambda>_. None" "Returns (Inr [])" "[device_match_new Serial ''COM3'' None None]"
      "stream_start [device_match_new Serial ''COM3'' None None]"]
  by (auto simp: stream_start_def)

text \<open>A run with one match.\<close>

lemma stream_one:
  assumes "0 < cap" "raises 0 = None"
  shows "(stream_step cap raises r)\<^sup>*\<^sup>* (stream_start [m])
    \<lparr>unsent = [], scanning = False, in_channel = [], called = [m], ended = Some (join_result r [m])\<rparr>"
proof -
  let ?s0 = "stream_start [m]"
  let ?s1 = "?s0\<lparr>unsent := [], in_channel := [m]\<rparr>"
  let ?s2 = "?s1\<lparr>scanning := False\<rparr>"
  let ?s3 = "?s2\<lparr>in_channel := [], called := [m]\<rparr>"
  have "stream_step cap raises r ?s0 ?s1"
    using send [of ?s0 m "[]" cap raises r] assms(1) by (simp add: stream_start_def)
  moreover have "stream_step cap raises r ?s1 ?s2"
    using finish [of ?s1 cap raises r] by (simp add: stream_start_def)
  moreover have "stream_step cap raises r ?s2 ?s3"
    using call [of ?s2 m "[]" raises cap r] assms(2) by (simp add: stream_start_def)
  moreover have "stream_step cap raises r ?s3 (?s3\<lparr>ended := Some (join_result r [m])\<rparr>)"
    using received_all [of ?s3 cap raises r] by (simp add: stream_start_def)
  ultimately have "(stream_step cap raises r)\<^sup>*\<^sup>* ?s0 (?s3\<lparr>ended := Some (join_result r [m])\<rparr>)"
    by (meson converse_rtranclp_into_rtranclp rtranclp.rtrancl_refl)
  then show ?thesis
    by (simp add: stream_start_def)
qed

section \<open>The contract of a streaming method\<close>

text \<open>
  A streaming method whose sends and whose discovery's result do not depend on which sends find
  room.  Then what the two threads do, in any interleaving, is what the method does for some choice
  of the sends that find room, and with room for all of them it is the run that loses nothing.
\<close>

locale streaming_method =
  fixes stream_call :: "(nat \<Rightarrow> bool) \<Rightarrow> (nat \<Rightarrow> string option) \<Rightarrow>
      (device_match list \<times> (py_err + device_match list)) option"
    and runs :: bool
    and sends :: "device_match list"
    and result :: "(dafydd_error + device_match list) outcome"
  assumes method_eq: "runs \<Longrightarrow>
      stream_call room raises = Some (receive_stream raises (delivered (send_all (Some room) sends sender_new)) result)"
begin

lemma interleaved:
  assumes runs "(stream_step cap raises result)\<^sup>*\<^sup>* (stream_start sends) s" "ended s = Some res"
  shows "\<exists>room. stream_call room raises = Some (called s, res)"
proof -
  obtain room where "receive_stream raises (delivered (send_all (Some room) sends sender_new)) result = (called s, res)"
    by (rule stream_ended [OF assms(2,3)])
  then show ?thesis
    using method_eq [OF assms(1), of room raises] by auto
qed

lemma interleaved_all:
  assumes runs "(stream_step cap raises result)\<^sup>*\<^sup>* (stream_start sends) s" "ended s = Some res"
    and "length sends \<le> cap" "\<forall>i. raises i = None"
  shows "stream_call (\<lambda>_. True) raises = Some (called s, res)"
proof -
  have "delivered (send_all (Some (\<lambda>_. True)) sends sender_new) = sends"
    by (simp add: send_all_room sender_new_def)
  moreover have "receive_stream raises sends result = (sends, join_result result sends)"
    using assms(5) by (intro receive_stream_all) simp
  ultimately show ?thesis
    using method_eq [OF assms(1), of "\<lambda>_. True" raises] stream_ended_all [OF assms(2-5)] by simp
qed

end

end
