(* ===== verification/Serial_Stream.thy ===== *)
theory Serial_Stream
  imports Serial_Discovery Stream_Pipe
begin

text \<open>
  \<open>SerialDiscovery::discover_streaming\<close> as two threads: the contract of \<open>Stream_Pipe\<close> for it.
\<close>

text \<open>The channel of \<open>src/serial/mod.rs\<close>.\<close>

definition serial_channel :: nat where
  "serial_channel = 64"

definition serial_result ::
  "bool \<Rightarrow> serial_discovery \<Rightarrow> serial_env \<Rightarrow> (dafydd_error + device_match list) outcome" where
  "serial_result macos self env = fst (run_serial_discovery macos env (sd_config self) None sender_new)"

definition serial_sends :: "bool \<Rightarrow> serial_discovery \<Rightarrow> serial_env \<Rightarrow> device_match list" where
  "serial_sends macos self env =
     (if sd_probe_command self = None then [] else returned (serial_result macos self env))"

interpretation serial_streaming: streaming_method
  "\<lambda>room raises. Some (sd_discover_streaming macos self env room raises)"
  "\<exists>u. sd_validate self = Inr u" "serial_sends macos self env" "serial_result macos self env"
  for macos self env
proof
  fix room raises
  assume "\<exists>u. sd_validate self = Inr u"
  moreover obtain r s where run: "run_serial_discovery macos env (sd_config self) (Some room) sender_new = (r, s)"
    by force
  moreover have "r = serial_result macos self env"
    using run_serial_fst [of macos env "sd_config self" "Some room" sender_new sender_new] run
    by (simp add: serial_result_def)
  moreover from this have "s = send_all (Some room) (serial_sends macos self env) sender_new"
    using run_serial_sends [OF run] by (simp add: serial_sends_def sd_config_def)
  ultimately show "Some (sd_discover_streaming macos self env room raises) =
      Some (receive_stream raises
        (delivered (send_all (Some room) (serial_sends macos self env) sender_new)) (serial_result macos self env))"
    by (auto simp: sd_discover_streaming_def)
qed

lemma serial_result_listed:
  assumes "sd_discover macos self env = Inr ms" "sd_validate self = Inr u"
  shows "serial_result macos self env = Returns (Inr ms)"
  using assms
  by (auto simp: sd_discover_def serial_result_def block_on_result_def split: outcome.splits sum.splits)

text \<open>
  C14.  Streaming serial discovery, in every interleaving of the discovery thread and the caller: a
  run that ends has the callbacks and the result of the method's model for some choice of the sends
  that find room; and with at most 64 matches and a callback that never raises it calls back
  and returns exactly what the blocking method returns.
\<close>

theorem serial_stream_interleaved:
  assumes "sd_validate self = Inr u"
    and "(stream_step serial_channel raises (serial_result macos self env))\<^sup>*\<^sup>*
      (stream_start (serial_sends macos self env)) s"
    and "ended s = Some res"
  shows "(\<exists>room. sd_discover_streaming macos self env room raises = (called s, res)) \<and>
    (sd_probe_command self \<noteq> None \<and> sd_discover macos self env = Inr ms \<and> length ms \<le> 64 \<and>
       (\<forall>i. raises i = None) \<longrightarrow> called s = ms \<and> res = Inr ms) \<and>
    (sd_probe_command self = None \<and> sd_discover macos self env = Inr ms \<longrightarrow> called s = [] \<and> res = Inr [])"
proof (intro conjI impI)
  show "\<exists>room. sd_discover_streaming macos self env room raises = (called s, res)"
    using serial_streaming.interleaved [OF _ assms(2,3)] assms(1) by auto
next
  assume h: "sd_probe_command self \<noteq> None \<and> sd_discover macos self env = Inr ms \<and> length ms \<le> 64 \<and>
    (\<forall>i. raises i = None)"
  then have r: "serial_result macos self env = Returns (Inr ms)"
    using serial_result_listed [OF _ assms(1)] by blast
  then have "serial_sends macos self env = ms"
    using h by (auto simp: serial_sends_def)
  then show "called s = ms" "res = Inr ms"
    using stream_ended_all [OF assms(2,3)] h r by (simp_all add: serial_channel_def join_result_def)
next
  assume h: "sd_probe_command self = None \<and> sd_discover macos self env = Inr ms"
  then have r: "serial_result macos self env = Returns (Inr ms)"
    using serial_result_listed [OF _ assms(1)] by blast
  have "serial_sends macos self env = []"
    using h by (simp add: serial_sends_def)
  then obtain room where "receive_stream raises (delivered sender_new) (Returns (Inr ms)) = (called s, res)"
    using stream_ended [OF assms(2,3)] r by (auto simp: send_all_def)
  then show "called s = []" "res = Inr []"
    by (auto simp: receive_stream_def sender_new_def)
qed

theorem serial_stream_interleaved_witness:
  "\<exists>room. sd_discover_streaming False (sample_serial (Some [63])) sample_serial_env room (\<lambda>_. None) =
     ([serial_match (sample_params [9600, 115200]) ''/dev/cu.usb1'' 115200 [79, 75]],
      Inr [serial_match (sample_params [9600, 115200]) ''/dev/cu.usb1'' 115200 [79, 75]])"
proof -
  let ?m = "serial_match (sample_params [9600, 115200]) ''/dev/cu.usb1'' 115200 [79, 75]"
  let ?self = "sample_serial (Some [63])"
  let ?r = "serial_result False ?self sample_serial_env"
  have v: "sd_validate ?self = Inr ()" and p: "sd_probe_command ?self = Some [63]"
    by (simp_all add: sd_validate_def sample_serial_def)
  have r: "?r = Returns (Inr [?m])"
    by (rule serial_result_listed [OF sample_serial_discover v])
  let ?step = "stream_step serial_channel (\<lambda>_. None) ?r"
  let ?s = "\<lparr>unsent = [], scanning = False, in_channel = [], called = [?m], ended = Some (join_result ?r [?m])\<rparr>"
  have "serial_sends False ?self sample_serial_env = [?m]"
    using p r by (simp add: serial_sends_def)
  then have "?step\<^sup>*\<^sup>* (stream_start (serial_sends False ?self sample_serial_env)) ?s"
    using stream_one [of serial_channel "\<lambda>_. None" ?r ?m] by (simp add: serial_channel_def)
  from serial_stream_interleaved [OF v this, of "Inr [?m]"] show ?thesis
    by (simp add: r join_result_def)
qed

end
