(* ===== verification/Net_Addr.thy ===== *)
theory Net_Addr
  imports Rust_Std
begin

text \<open>
  The addresses of \<open>std::net\<close> as the sources use them: \<open>Ipv4Addr\<close> is its four octets,
  \<open>Ipv6Addr\<close> its eight segments, and every \<open>SocketAddr\<close> the sources build comes from
  \<open>SocketAddr::new\<close> or \<open>SocketAddr::from((ip, port))\<close>, so its flow and scope fields are zero.
  The file gives the tests on addresses, their \<open>Display\<close> and the IPv4 parsers, with the
  round trips the discovery code relies on.
\<close>

section \<open>Addresses\<close>

datatype ipv4 = Ipv4 u8 u8 u8 u8

datatype ipv6 = Ipv6 u16 u16 u16 u16 u16 u16 u16 u16

datatype ip_addr = IpV4 ipv4 | IpV6 ipv6

datatype sock_addr = SockAddr (sa_ip: ip_addr) (sa_port: u16)

fun octets :: "ipv4 \<Rightarrow> u8 list" where
  "octets (Ipv4 a b c d) = [a, b, c, d]"

fun segments :: "ipv6 \<Rightarrow> u16 list" where
  "segments (Ipv6 a b c d e f g h) = [a, b, c, d, e, f, g, h]"

fun is_multicast :: "ipv4 \<Rightarrow> bool" where
  "is_multicast (Ipv4 a b c d) = (224 \<le> a \<and> a \<le> 239)"

fun is_broadcast :: "ipv4 \<Rightarrow> bool" where
  "is_broadcast (Ipv4 a b c d) = (a = 255 \<and> b = 255 \<and> c = 255 \<and> d = 255)"

fun is_link_local :: "ipv4 \<Rightarrow> bool" where
  "is_link_local (Ipv4 a b c d) = (a = 169 \<and> b = 254)"

text \<open>The method \<open>Ipv4Addr::is_loopback\<close>.\<close>

fun ipv4_is_loopback :: "ipv4 \<Rightarrow> bool" where
  "ipv4_is_loopback (Ipv4 a b c d) = (a = 127)"

lemma length_octets [simp]: "length (octets ip) = 4"
  by (cases ip) simp

lemma octets_inj: "octets x = octets y \<Longrightarrow> x = y"
  by (cases x; cases y) simp

section \<open>Display\<close>

fun show_ipv4 :: "ipv4 \<Rightarrow> string" where
  "show_ipv4 (Ipv4 a b c d) =
     show_dec (unat a) @ ''.'' @ show_dec (unat b) @ ''.'' @ show_dec (unat c) @ ''.'' @
     show_dec (unat d)"

text \<open>Segments in hexadecimal joined by colons.\<close>

fun fmt_segments :: "u16 list \<Rightarrow> string" where
  "fmt_segments [] = []"
| "fmt_segments [x] = show_radix 16 (unat x)"
| "fmt_segments (x # xs) = show_radix 16 (unat x) @ '':'' @ fmt_segments xs"

text \<open>The first longest run of zero segments, as its start and length.\<close>

fun zero_span :: "nat \<Rightarrow> nat \<times> nat \<Rightarrow> nat \<times> nat \<Rightarrow> u16 list \<Rightarrow> nat \<times> nat" where
  "zero_span i cur best [] = best"
| "zero_span i cur best (x # xs) =
     (if x = 0
      then let cur' = (if snd cur = 0 then (i, 1) else (fst cur, snd cur + 1))
           in zero_span (Suc i) cur' (if snd best < snd cur' then cur' else best) xs
      else zero_span (Suc i) (0, 0) best xs)"

definition ipv4_mapped :: "ipv6 \<Rightarrow> ipv4 option" where
  "ipv4_mapped ip =
     (let s = segments ip
      in if take 6 s = [0, 0, 0, 0, 0, 0xFFFF]
         then Some (Ipv4 (ucast (drop_bit 8 (s ! 6))) (ucast (s ! 6))
                         (ucast (drop_bit 8 (s ! 7))) (ucast (s ! 7)))
         else None)"

definition show_ipv6 :: "ipv6 \<Rightarrow> string" where
  "show_ipv6 ip =
     (case ipv4_mapped ip of
        Some v4 \<Rightarrow> ''::ffff:'' @ show_ipv4 v4
      | None \<Rightarrow>
          (let s = segments ip; (start, len) = zero_span 0 (0, 0) (0, 0) s
           in if 1 < len
              then fmt_segments (take start s) @ ''::'' @ fmt_segments (drop (start + len) s)
              else fmt_segments s))"

fun show_ip :: "ip_addr \<Rightarrow> string" where
  "show_ip (IpV4 v4) = show_ipv4 v4"
| "show_ip (IpV6 v6) = show_ipv6 v6"

text \<open>The host part of a socket address' text: an IPv6 address stands in brackets.\<close>

fun show_host :: "ip_addr \<Rightarrow> string" where
  "show_host (IpV4 v4) = show_ipv4 v4"
| "show_host (IpV6 v6) = ''['' @ show_ipv6 v6 @ '']''"

fun show_sock :: "sock_addr \<Rightarrow> string" where
  "show_sock (SockAddr ip port) = show_host ip @ '':'' @ show_dec (unat port)"

section \<open>Parsing\<close>

text \<open>
  One octet of \<open>Ipv4Addr::from_str\<close>: one to three decimal digits, no leading zero, at most 255.
\<close>

definition parse_octet :: "string \<Rightarrow> u8 option" where
  "parse_octet s =
     (if s = [] \<or> 3 < length s \<or> (1 < length s \<and> hd s = CHR ''0'') then None
      else (case parse_digits 10 0 s of
              None \<Rightarrow> None
            | Some n \<Rightarrow> (if n < 256 then Some (word_of_nat n) else None)))"

definition parse_ipv4 :: "string \<Rightarrow> ipv4 option" where
  "parse_ipv4 s =
     (case map parse_octet (split_on (CHR ''.'') s) of
        [Some a, Some b, Some c, Some d] \<Rightarrow> Some (Ipv4 a b c d)
      | _ \<Rightarrow> None)"

text \<open>
  The IPv4 half of \<open>SocketAddr::from_str\<close>; the port may have leading zeros but no sign.
  A text that parses as an IPv6 socket address starts with a bracket and is not accepted here.
\<close>

definition parse_sock_v4 :: "string \<Rightarrow> (ipv4 \<times> u16) option" where
  "parse_sock_v4 s =
     (case split_once (CHR '':'') s of
        None \<Rightarrow> None
      | Some (h, p) \<Rightarrow>
          (case (parse_ipv4 h, if p = [] then None else parse_digits 10 0 p) of
             (Some ip, Some n) \<Rightarrow> (if n < 65536 then Some (ip, word_of_nat n) else None)
           | _ \<Rightarrow> None))"

section \<open>Round trips\<close>

lemma show_dec_small:
  "n < 10 \<Longrightarrow> show_dec n = [digit_char n]"
  "10 \<le> n \<Longrightarrow> show_dec n = show_dec (n div 10) @ [digit_char (n mod 10)]"
  by (simp_all add: show_dec_def show_radix.simps [of 10 n])

lemma length_show_dec_octet:
  assumes "n < 1000"
  shows "length (show_dec n) \<le> 3"
proof -
  consider "n < 10" | "10 \<le> n" "n div 10 < 10" | "10 \<le> n" "10 \<le> n div 10" "n div 10 div 10 < 10"
    using assms by linarith
  then show ?thesis
    by cases (simp_all add: show_dec_small)
qed

lemma hd_show_dec: "10 \<le> n \<Longrightarrow> hd (show_dec n) \<noteq> CHR ''0''"
proof (induction n rule: less_induct)
  case (less n)
  have "hd (show_dec n) = hd (show_dec (n div 10))"
    using less.prems by (simp add: show_dec_small(2) [of n])
  moreover have "hd (show_dec (n div 10)) \<noteq> CHR ''0''"
  proof (cases "n div 10 < 10")
    case True
    moreover have "0 < n div 10" using less.prems by auto
    ultimately show ?thesis
      by (auto simp: show_dec_small(1) digit_char_def dest!: arg_cong [of _ _ "of_char :: char \<Rightarrow> nat"])
  next
    case False
    with less show ?thesis by simp
  qed
  ultimately show ?case by simp
qed

lemma parse_octet_show [rust_str]: "parse_octet (show_dec (unat b)) = Some b"
proof -
  have "length (show_dec (unat b)) \<le> 3"
    by (rule length_show_dec_octet) (rule less_trans [OF unat_u8], simp)
  moreover have "length (show_dec (unat b)) \<le> 1 \<or> hd (show_dec (unat b)) \<noteq> CHR ''0''"
    by (cases "unat b < 10") (simp_all add: show_dec_small(1) hd_show_dec)
  moreover have "parse_digits 10 0 (show_dec (unat b)) = Some (unat b)"
    by (simp add: show_dec_def parse_show_radix)
  ultimately show ?thesis
    by (auto simp: parse_octet_def)
qed

lemma parse_show_ipv4 [rust_str]: "parse_ipv4 (show_ipv4 ip) = Some ip"
proof (cases ip)
  case (Ipv4 a b c d)
  have dot: "CHR ''.'' \<notin> set (show_dec n)" for n
    by (rule show_dec_no_char) simp
  show ?thesis
    by (simp add: Ipv4 parse_ipv4_def split_on_sep [OF dot] split_on_none [OF dot] parse_octet_show)
qed

lemma show_ipv4_no_colon: "CHR '':'' \<notin> set (show_ipv4 ip)"
  by (cases ip) (auto dest: show_dec_neq)

lemma show_port_no_colon: "CHR '':'' \<notin> set (show_dec n)"
  by (rule show_dec_no_char) simp

lemma parse_show_sock_v4 [rust_str]:
  "parse_sock_v4 (show_sock (SockAddr (IpV4 ip) port)) = Some (ip, port)"
  using show_ipv4_no_colon
  by (simp add: parse_sock_v4_def split_once_sep parse_show_ipv4 show_dec_def parse_show_radix)

lemma parse_show_sock_v6: "parse_sock_v4 (show_sock (SockAddr (IpV6 ip) port)) = None"
proof -
  obtain h p where hp: "split_once (CHR '':'') (show_sock (SockAddr (IpV6 ip) port)) = Some (h, p)"
    by (metis split_once_eq_None option.exhaust prod.exhaust show_sock.simps in_set_conv_decomp
        append.assoc append_Cons append_Nil)
  have "show_sock (SockAddr (IpV6 ip) port) = h @ CHR '':'' # p"
    using split_once_SomeD [OF hp] by simp
  then have "h \<noteq> [] \<and> hd h = CHR ''[''"
    by (cases h) auto
  then obtain t where h: "h = CHR ''['' # t"
    by (cases h) auto
  obtain q qs where "split_on (CHR ''.'') t = q # qs"
    by (cases "split_on (CHR ''.'') t") auto
  then have q: "split_on (CHR ''.'') h = (CHR ''['' # q) # qs"
    by (simp add: h)
  have "to_digit 10 (CHR ''['') = None"
    by (simp add: to_digit_def)
  then have "parse_octet (CHR ''['' # q) = None"
    by (simp add: parse_octet_def)
  then have "parse_ipv4 h = None"
    by (simp add: parse_ipv4_def q split: list.splits option.splits)
  then show ?thesis
    unfolding parse_sock_v4_def hp by simp
qed

text \<open>The text of a socket address determines the port, and for IPv4 the whole address.\<close>

lemma rsplit_show_sock:
  "rsplit_once (CHR '':'') (show_sock sa) = Some (show_host (sa_ip sa), show_dec (unat (sa_port sa)))"
  by (cases sa) (simp add: rsplit_once_sep show_port_no_colon)

lemma show_ipv4_inj: "show_ipv4 x = show_ipv4 y \<Longrightarrow> x = y"
  by (metis option.inject parse_show_ipv4)

lemma show_sock_v4_inj:
  "show_sock (SockAddr (IpV4 x) p) = show_sock (SockAddr (IpV4 y) q) \<Longrightarrow> x = y \<and> p = q"
  by (metis option.inject parse_show_sock_v4 prod.inject)

end
