(* ===== verification/Tcp_Probe.thy ===== *)
theory Tcp_Probe
  imports Batch Net_Addr
begin

text \<open>
  The first half of \<open>src/tcp/scan.rs\<close>: connecting, probing one address, and building the match.
  The peer is a script: what each system call does and how long it takes, in milliseconds.
\<close>

section \<open>Connections\<close>

record conn =
  socket_ok :: bool
  linger_ok :: bool
  nonblocking_ok :: bool
  connect_ms :: nat
  connect_ok :: bool
  write_takes :: nat
  write_succeeds :: bool
  replies :: reads

text \<open>
  \<open>connect_with_opts\<close>: true when it returns a stream.  The linger option is set only when one is
  configured, and the connection attempt has its own timeout.
\<close>

definition connect_with_opts :: "conn \<Rightarrow> nat \<Rightarrow> nat option \<Rightarrow> bool" where
  "connect_with_opts c connect_timeout linger =
     (if \<not> socket_ok c then False
      else if linger \<noteq> None \<and> \<not> linger_ok c then False
      else if \<not> nonblocking_ok c then False
      else if connect_timeout < connect_ms c then False
      else connect_ok c)"

section \<open>Probing an address\<close>

definition build_match :: "sock_addr \<Rightarrow> bytes \<Rightarrow> string option \<Rightarrow> device_match" where
  "build_match addr resp hostname_hint =
     \<lparr>transport = Tcp, address = show_sock addr,
      response = (if resp = [] then None else Some resp),
      info = (case hostname_hint of None \<Rightarrow> Map.empty | Some h \<Rightarrow> Map.empty(''hostname'' \<mapsto> h))\<rparr>"

text \<open>
  Reading to the end of the stream; the value is \<open>None\<close> when the time is used up first, and then
  what was read is lost with it.
\<close>

fun read_to_end :: "nat \<Rightarrow> bytes \<Rightarrow> reads \<Rightarrow> bytes option" where
  "read_to_end left acc [] = None"
| "read_to_end left acc ((d, r) # rs) =
     (if left < d then None
      else (case r of
              ReadErr \<Rightarrow> Some acc
            | ReadOk bs \<Rightarrow> if bs = [] then Some acc else read_to_end (left - d) (acc @ bs) rs))"

definition probe_stream ::
  "conn \<Rightarrow> sock_addr \<Rightarrow> nat \<Rightarrow> string option \<Rightarrow> bytes option \<Rightarrow> probe_result" where
  "probe_stream c addr io_timeout hostname_hint response_filter =
     (let result = (if io_timeout < write_takes c then None
                    else if \<not> write_succeeds c then None
                    else read_to_end (io_timeout - write_takes c) [] (replies c))
      in case result of
           None \<Rightarrow> Returns (Inr None)
         | Some resp \<Rightarrow>
             (if resp = [] then Returns (Inr None)
              else (case filter_accepts response_filter resp of
                      Panics \<Rightarrow> Panics
                    | Returns ok \<Rightarrow>
                        Returns (Inr (if ok then Some (build_match addr resp hostname_hint) else None)))))"

text \<open>
  The parameters of a probe.  The probe bytes are written to the peer; the script of a connection
  is the peer's behaviour under that probe.
\<close>

record tcp_params =
  tp_probe :: "bytes option"
  tp_connect_timeout :: nat
  tp_io_timeout :: nat
  tp_filter :: "bytes option"
  tp_linger :: "nat option"

definition probe_addr :: "tcp_params \<Rightarrow> string option \<Rightarrow> conn \<Rightarrow> sock_addr \<Rightarrow> probe_result" where
  "probe_addr p hostname_hint c addr =
     (if \<not> connect_with_opts c (tp_connect_timeout p) (tp_linger p) then Returns (Inr None)
      else (case tp_probe p of
              Some _ \<Rightarrow> probe_stream c addr (tp_io_timeout p) hostname_hint (tp_filter p)
            | None \<Rightarrow> Returns (Inr (Some (build_match addr [] hostname_hint)))))"

section \<open>Facts\<close>

lemma build_match_fields [simp, match_simps]:
  "transport (build_match a r h) = Tcp"
  "address (build_match a r h) = show_sock a"
  "response (build_match a r h) = (if r = [] then None else Some r)"
  by (simp_all add: build_match_def)

lemma host_port_built:
  "host (build_match a r h) = Some (show_host (sa_ip a))"
  "port (build_match a r h) = Some (sa_port a)"
proof -
  obtain ip p where a: "a = SockAddr ip p"
    by (cases a)
  show "host (build_match a r h) = Some (show_host (sa_ip a))"
    "port (build_match a r h) = Some (sa_port a)"
    unfolding host_def port_def build_match_fields a rsplit_show_sock
    by (simp_all add: u16_show_dec)
qed

text \<open>
  The address of a TCP match parses back to what was probed, for IPv4 and for IPv6 addresses
  alike: the getters return the host and the port, and the bus arguments are exactly these two.
\<close>

theorem tcp_match_identity:
  "host (build_match a r h) = Some (show_host (sa_ip a)) \<and>
   port (build_match a r h) = Some (sa_port a) \<and>
   bus_params (build_match a r h) =
     [(''host'', PyStr (show_host (sa_ip a))), (''port'', PyInt (uint (sa_port a)))]"
  by (simp add: bus_params_tcp host_port_built)

definition tcp_good :: "tcp_params \<Rightarrow> bytes option \<Rightarrow> bool" where
  "tcp_good p r = (case tp_probe p of
       None \<Rightarrow> r = None
     | Some _ \<Rightarrow> (\<exists>b. r = Some b \<and> b \<noteq> [] \<and> satisfies (tp_filter p) b))"

lemma probe_stream_Some:
  "probe_stream c a t h flt = Returns (Inr (Some m)) \<longleftrightarrow>
     write_takes c \<le> t \<and> write_succeeds c \<and>
     (\<exists>r. read_to_end (t - write_takes c) [] (replies c) = Some r \<and> r \<noteq> [] \<and> satisfies flt r \<and>
       m = build_match a r h)"
  by (auto simp: probe_stream_def Let_def filter_accepts_True [symmetric]
      split: option.splits outcome.splits if_splits)

lemma probe_addr_found:
  assumes "probe_addr p h c a = Returns (Inr (Some m))"
  shows "transport m = Tcp \<and> address m = show_sock a \<and> tcp_good p (response m) \<and>
    (\<exists>r. m = build_match a r h)"
  using assms
  by (auto simp: probe_addr_def tcp_good_def probe_stream_Some split: if_splits option.splits)

interpretation dialled: endpoint_probe "probe_addr p h" show_sock Tcp "tcp_good p" for p h
  by unfold_locales (use probe_addr_found in blast)

text \<open>What the peer sends before it closes, and when it has done so.\<close>

fun closing :: "reads \<Rightarrow> (bytes \<times> nat) option" where
  "closing [] = None"
| "closing ((d, r) # rs) =
     (case r of
        ReadErr \<Rightarrow> Some ([], d)
      | ReadOk bs \<Rightarrow>
          (if bs = [] then Some ([], d)
           else map_option (\<lambda>(data, t). (bs @ data, d + t)) (closing rs)))"

lemma read_to_end_closing:
  "read_to_end left acc rs =
     (case closing rs of
        None \<Rightarrow> None
      | Some (data, t) \<Rightarrow> if t \<le> left then Some (acc @ data) else None)"
  by (induction left acc rs rule: read_to_end.induct)
    (auto split: read_result.split option.split)

text \<open>
  C27.  A probe of an address reports a match exactly when the connection is made in time and
  either no probe is configured, or the probe is written and the peer \<^emph>\<open>closes the stream\<close> within
  the I/O timeout after sending something the filter accepts; the match carries all it sent.  It
  never returns an error, and panics only for an empty filter.
\<close>

theorem probe_addr_exact:
  "(probe_addr p h c a = Returns (Inr (Some m)) \<longleftrightarrow>
     connect_with_opts c (tp_connect_timeout p) (tp_linger p) \<and>
     (case tp_probe p of
        None \<Rightarrow> m = build_match a [] h
      | Some _ \<Rightarrow> write_succeeds c \<and>
          (\<exists>data t. closing (replies c) = Some (data, t) \<and> write_takes c + t \<le> tp_io_timeout p \<and>
            data \<noteq> [] \<and> satisfies (tp_filter p) data \<and> m = build_match a data h))) \<and>
   probe_addr p h c a \<noteq> Returns (Inl e) \<and>
   (probe_addr p h c a = Panics \<longrightarrow> tp_filter p = Some [])"
proof (intro conjI)
  show "probe_addr p h c a = Returns (Inr (Some m)) \<longleftrightarrow>
     connect_with_opts c (tp_connect_timeout p) (tp_linger p) \<and>
     (case tp_probe p of
        None \<Rightarrow> m = build_match a [] h
      | Some _ \<Rightarrow> write_succeeds c \<and>
          (\<exists>data t. closing (replies c) = Some (data, t) \<and> write_takes c + t \<le> tp_io_timeout p \<and>
            data \<noteq> [] \<and> satisfies (tp_filter p) data \<and> m = build_match a data h))"
    by (auto simp: probe_addr_def probe_stream_Some read_to_end_closing split: option.splits if_splits)
  show "probe_addr p h c a \<noteq> Returns (Inl e)" "probe_addr p h c a = Panics \<longrightarrow> tp_filter p = Some []"
    by (auto simp: probe_addr_def probe_stream_def Let_def filter_accepts_Panics
        split: option.splits if_splits outcome.splits)
qed

definition sample_conn :: "reads \<Rightarrow> conn" where
  "sample_conn rs =
     \<lparr>socket_ok = True, linger_ok = True, nonblocking_ok = True, connect_ms = 3, connect_ok = True,
      write_takes = 1, write_succeeds = True, replies = rs\<rparr>"

definition sample_tcp :: "bytes option \<Rightarrow> tcp_params" where
  "sample_tcp probe =
     \<lparr>tp_probe = probe, tp_connect_timeout = 50, tp_io_timeout = 500, tp_filter = None, tp_linger = None\<rparr>"

definition sample_addr :: sock_addr where
  "sample_addr = SockAddr (IpV4 (Ipv4 10 0 0 7)) 502"

theorem probe_addr_exact_witness:
  "probe_addr (sample_tcp (Some [63])) None (sample_conn [(10, ReadOk [79]), (5, ReadOk [75]), (1, ReadOk [])])
     sample_addr = Returns (Inr (Some (build_match sample_addr [79, 75] None)))"
  using probe_addr_exact [of "sample_tcp (Some [63])" None
      "sample_conn [(10, ReadOk [79]), (5, ReadOk [75]), (1, ReadOk [])]" sample_addr
      "build_match sample_addr [79, 75] None"]
  by (simp add: sample_tcp_def sample_conn_def connect_with_opts_def satisfies_def)

text \<open>
  A peer that answers the probe but keeps the connection open is never a match: whatever it
  sends, unless the stream ends within the I/O timeout, the answer is dropped.
\<close>

theorem open_connection_drops_answer:
  assumes "tp_probe p = Some probe"
    and "\<forall>d rs. (d, rs) \<in> set (replies c) \<longrightarrow> rs \<noteq> ReadErr \<and> rs \<noteq> ReadOk []"
  shows "probe_addr p h c a = Returns (Inr None)"
proof -
  have "closing rs = None" if "\<forall>d r. (d, r) \<in> set rs \<longrightarrow> r \<noteq> ReadErr \<and> r \<noteq> ReadOk []" for rs
    using that by (induction rs rule: closing.induct) (auto split: read_result.split)
  then have "closing (replies c) = None"
    using assms(2) by blast
  then show ?thesis
    using assms(1) by (simp add: probe_addr_def probe_stream_def read_to_end_closing)
qed

theorem open_connection_drops_answer_witness:
  "probe_addr (sample_tcp (Some [63])) None (sample_conn [(10, ReadOk [79, 75])]) sample_addr =
     Returns (Inr None)"
  by (rule open_connection_drops_answer) (auto simp: sample_tcp_def sample_conn_def)

end
