(* ===== verification/Ip_Net.thy ===== *)
theory Ip_Net
  imports Net_Addr
begin

text \<open>
  IP networks.  Their arithmetic is the \<open>ipnet\<close> crate's: the functions the sources call are a record
  of parameters, what is relied on is stated as laws, and a small implementation for IPv4 shows
  that the laws can hold and serves as the environment of the examples.
\<close>

section \<open>The functions of the crate\<close>

text \<open>
  Parsing CIDR text (the error's text on failure), membership, the host addresses in order, the
  network address of an IPv4 network (\<open>None\<close> for IPv6), building a network from an address with a
  netmask or with a prefix length, and the prefix length.
\<close>

record 'net ipnet_api =
  net_parse :: "string \<Rightarrow> string + 'net"
  net_contains :: "'net \<Rightarrow> ip_addr \<Rightarrow> bool"
  net_hosts :: "'net \<Rightarrow> ip_addr list"
  net_v4_network :: "'net \<Rightarrow> ipv4 option"
  net_with_netmask :: "ipv4 \<Rightarrow> ipv4 \<Rightarrow> 'net option"
  net_new :: "ipv4 \<Rightarrow> u8 \<Rightarrow> 'net option"
  net_prefix_len :: "'net \<Rightarrow> u8"

text \<open>
  The documented behaviour: an IPv4 network written as network address and prefix length parses
  back to the same set of addresses; the constructors build an IPv4 network around the address;
  the addresses of an IPv4 network are those that share its prefix, of which every bit halves
  their number; and its hosts are at least its inner addresses, all but the first and the last.
\<close>

fun ip_nat :: "ipv4 \<Rightarrow> nat" where
  "ip_nat (Ipv4 a b c d) = ((unat a * 256 + unat b) * 256 + unat c) * 256 + unat d"

definition same_block :: "u8 \<Rightarrow> ipv4 \<Rightarrow> ipv4 \<Rightarrow> bool" where
  "same_block p a b = (ip_nat a div 2 ^ (32 - unat p) = ip_nat b div 2 ^ (32 - unat p))"

definition inner_ip :: "u8 \<Rightarrow> ipv4 \<Rightarrow> bool" where
  "inner_ip p ip =
     (let n = ip_nat ip mod 2 ^ (32 - unat p) in 0 < n \<and> Suc n < 2 ^ (32 - unat p))"

definition v4_net :: "'net ipnet_api \<Rightarrow> 'net \<Rightarrow> bool" where
  "v4_net api n = (net_v4_network api n \<noteq> None)"

definition cidr_text :: "ipv4 \<Rightarrow> u8 \<Rightarrow> string" where
  "cidr_text nw p = show_ipv4 nw @ ''/'' @ show_dec (unat p)"

definition ipnet_laws :: "'net ipnet_api \<Rightarrow> bool" where
  "ipnet_laws api =
     ((\<forall>n nw. net_v4_network api n = Some nw \<longrightarrow>
         (\<exists>n'. net_parse api (cidr_text nw (net_prefix_len api n)) = Inr n' \<and>
           net_v4_network api n' = Some nw \<and> net_prefix_len api n' = net_prefix_len api n \<and>
           net_contains api n' = net_contains api n)) \<and>
      (\<forall>ip mask n. net_with_netmask api ip mask = Some n \<longrightarrow>
         v4_net api n \<and> net_contains api n (IpV4 ip)) \<and>
      (\<forall>ip p. p \<le> 32 \<longrightarrow>
         (\<exists>n. net_new api ip p = Some n \<and> v4_net api n \<and> net_prefix_len api n = p \<and>
           net_contains api n (IpV4 ip))) \<and>
      (\<exists>ll. net_parse api ''169.254.0.0/16'' = Inr ll \<and>
         (\<forall>ip. net_contains api ll (IpV4 ip) = is_link_local ip)) \<and>
      (\<forall>n. v4_net api n \<longrightarrow> length (net_hosts api n) \<le> 2 ^ (32 - unat (net_prefix_len api n))) \<and>
      (\<forall>n ip ip'. v4_net api n \<and> net_contains api n (IpV4 ip) \<longrightarrow>
         net_contains api n (IpV4 ip') = same_block (net_prefix_len api n) ip ip') \<and>
      (\<forall>n ip. v4_net api n \<and> net_contains api n (IpV4 ip) \<and> inner_ip (net_prefix_len api n) ip \<longrightarrow>
         IpV4 ip \<in> set (net_hosts api n)))"

section \<open>An implementation for IPv4\<close>

definition nat_ip :: "nat \<Rightarrow> ipv4" where
  "nat_ip n = Ipv4 (word_of_nat (n div 16777216)) (word_of_nat (n div 65536))
                   (word_of_nat (n div 256)) (word_of_nat n)"

lemma ip_nat_less: "ip_nat ip < 4294967296"
proof (cases ip)
  case (Ipv4 a b c d)
  then show ?thesis
    using unat_u8 [of a] unat_u8 [of b] unat_u8 [of c] unat_u8 [of d] by (simp del: unat_u8)
qed

lemma ip_nat_nat_ip:
  assumes "n < 4294967296"
  shows "ip_nat (nat_ip n) = n"
proof -
  have "n div 16777216 < 256"
    using assms by simp
  moreover have "n div 16777216 = n div 65536 div 256" "n div 65536 = n div 256 div 256"
    by (simp_all add: div_mult2_eq [symmetric])
  ultimately show ?thesis
    by (simp add: nat_ip_def unat_of_nat div_mult_mod_eq)
qed

lemma nat_ip_ip_nat: "nat_ip (ip_nat ip) = ip"
proof (cases ip)
  case (Ipv4 a b c d)
  have bounds: "unat b < 256" "unat c < 256" "unat d < 256"
    by (rule unat_u8)+
  have quot: "(x * 256 + y) div 256 = x" if "y < 256" for x y :: nat
    using that by simp
  let ?n = "ip_nat ip"
  have 1: "?n div 256 = (unat a * 256 + unat b) * 256 + unat c"
    unfolding Ipv4 ip_nat.simps by (rule quot [OF bounds(3)])
  moreover have 2: "?n div 65536 = unat a * 256 + unat b"
    using div_mult2_eq [of ?n 256 256] unfolding 1 quot [OF bounds(2)] by simp
  moreover have "?n div 16777216 = unat a"
    using div_mult2_eq [of ?n 65536 256] unfolding 2 quot [OF bounds(1)] by simp
  moreover have low: "word_of_nat (x * 256 + unat y) = y" for x and y :: u8
    unfolding word_unat_eq_iff unat_of_nat using unat_u8 [of y] by simp
  moreover have "word_of_nat ?n = d"
    unfolding Ipv4 ip_nat.simps by (rule low)
  ultimately show ?thesis
    unfolding nat_ip_def by (simp only: Ipv4 low) simp
qed

type_synonym cidr = "ipv4 \<times> u8"

definition block :: "cidr \<Rightarrow> nat" where
  "block net = 2 ^ (32 - unat (snd net))"

definition cidr_network :: "cidr \<Rightarrow> ipv4" where
  "cidr_network net = nat_ip (ip_nat (fst net) div block net * block net)"

fun cidr_contains :: "cidr \<Rightarrow> ip_addr \<Rightarrow> bool" where
  "cidr_contains net (IpV4 ip) = (ip_nat ip div block net = ip_nat (fst net) div block net)"
| "cidr_contains net (IpV6 ip) = False"

definition cidr_hosts :: "cidr \<Rightarrow> ip_addr list" where
  "cidr_hosts net =
     (let lo = ip_nat (fst net) div block net * block net
      in map (\<lambda>n. IpV4 (nat_ip n))
           (if 31 \<le> snd net then [lo..<lo + block net] else [Suc lo..<lo + block net - 1]))"

definition cidr_parse :: "string \<Rightarrow> string + cidr" where
  "cidr_parse s =
     (let bad = Inl ''invalid IP address syntax''
      in case split_once (CHR ''/'') s of
           None \<Rightarrow> bad
         | Some (a, p) \<Rightarrow>
             (case (parse_ipv4 a, u8_from_str 10 p) of
                (Some ip, Some len) \<Rightarrow> (if len \<le> 32 then Inr (ip, len) else bad)
              | _ \<Rightarrow> bad))"

definition cidr_with_netmask :: "ipv4 \<Rightarrow> ipv4 \<Rightarrow> cidr option" where
  "cidr_with_netmask ip netmask =
     map_option (\<lambda>p. (ip, word_of_nat p)) (find (\<lambda>p. ip_nat netmask = 2 ^ 32 - 2 ^ (32 - p)) [0..<33])"

definition cidr_new :: "ipv4 \<Rightarrow> u8 \<Rightarrow> cidr option" where
  "cidr_new ip p = (if p \<le> 32 then Some (ip, p) else None)"

text \<open>
  A network is kept as it was given, the constructors only build prefixes up to 32; a pair with a
  longer prefix is read as one without a network address.
\<close>

definition cidr_api :: "cidr ipnet_api" where
  "cidr_api =
     \<lparr>net_parse = cidr_parse, net_contains = cidr_contains, net_hosts = cidr_hosts,
      net_v4_network = (\<lambda>net. if snd net \<le> 32 then Some (cidr_network net) else None),
      net_with_netmask = cidr_with_netmask, net_new = cidr_new, net_prefix_len = snd\<rparr>"

lemma cidr_api_fields [simp]:
  "net_parse cidr_api = cidr_parse" "net_contains cidr_api = cidr_contains"
  "net_hosts cidr_api = cidr_hosts" "net_with_netmask cidr_api = cidr_with_netmask"
  "net_v4_network cidr_api net = (if snd net \<le> 32 then Some (cidr_network net) else None)"
  "net_new cidr_api = cidr_new" "net_prefix_len cidr_api = snd"
  by (simp_all add: cidr_api_def)

lemma cidr_parse_text: "p \<le> 32 \<Longrightarrow> cidr_parse (cidr_text ip p) = Inr (ip, p)"
proof -
  have "CHR ''/'' \<notin> set (show_ipv4 ip)"
    by (cases ip) (auto dest: show_dec_neq)
  then show "p \<le> 32 \<Longrightarrow> ?thesis"
    by (simp add: cidr_parse_def cidr_text_def split_once_sep parse_show_ipv4 u8_show_dec)
qed

lemma block_pos [simp]: "0 < block net"
  by (simp add: block_def)

lemma ip_nat_network: "ip_nat (cidr_network net) = ip_nat (fst net) div block net * block net"
proof -
  have "ip_nat (fst net) div block net * block net \<le> ip_nat (fst net)"
    by simp
  then show ?thesis
    unfolding cidr_network_def using ip_nat_less [of "fst net"] by (intro ip_nat_nat_ip) linarith
qed

lemma block_same: "block (a, p) = block (b, p)"
  by (simp add: block_def)

lemma cidr_network_idem: "cidr_network (cidr_network net, snd net) = cidr_network net"
  using block_same [of "cidr_network net" "snd net" "fst net"]
  by (simp add: cidr_network_def [of "(cidr_network net, snd net)"] ip_nat_network)
    (simp add: cidr_network_def)

lemma cidr_contains_network: "cidr_contains (cidr_network net, snd net) = cidr_contains net"
proof
  fix ip show "cidr_contains (cidr_network net, snd net) ip = cidr_contains net ip"
    using block_same [of "cidr_network net" "snd net" "fst net"]
    by (cases ip) (simp_all add: ip_nat_network)
qed

lemma cidr_link_local: "cidr_contains (Ipv4 169 254 0 0, 16) (IpV4 ip) = is_link_local ip"
proof (cases ip)
  case (Ipv4 a b c d)
  have "ip_nat ip div 65536 = unat a * 256 + unat b"
    using unat_u8 [of c] unat_u8 [of d] by (simp add: Ipv4 del: unat_u8)
  then have "cidr_contains (Ipv4 169 254 0 0, 16) (IpV4 ip) \<longleftrightarrow> unat a * 256 + unat b = 43518"
    by (simp add: block_def)
  also have "\<dots> \<longleftrightarrow> unat a = 169 \<and> unat b = 254"
    using unat_u8 [of a] unat_u8 [of b] by (auto simp del: unat_u8; presburger)
  also have "\<dots> \<longleftrightarrow> a = 169 \<and> b = 254"
    by (simp add: word_unat_eq_iff)
  finally show ?thesis
    by (auto simp: Ipv4)
qed

lemma cidr_same_block:
  "cidr_contains n (IpV4 ip) \<Longrightarrow> cidr_contains n (IpV4 ip') = same_block (snd n) ip ip'"
  by (auto simp: same_block_def block_def)

lemma cidr_inner_host:
  assumes "cidr_contains n (IpV4 ip)" "inner_ip (snd n) ip"
  shows "IpV4 ip \<in> set (cidr_hosts n)"
proof -
  let ?lo = "ip_nat (fst n) div block n * block n"
  have "ip_nat ip = ?lo + ip_nat ip mod block n"
    using assms(1) by (metis cidr_contains.simps(1) div_mult_mod_eq)
  moreover have "0 < ip_nat ip mod block n" "Suc (ip_nat ip mod block n) < block n"
    using assms(2) by (simp_all add: inner_ip_def block_def Let_def)
  ultimately have "ip_nat ip \<in> set [Suc ?lo..<?lo + block n - 1]" "ip_nat ip \<in> set [?lo..<?lo + block n]"
    by auto
  then have "IpV4 (nat_ip (ip_nat ip)) \<in> set (cidr_hosts n)"
    unfolding cidr_hosts_def Let_def by (simp add: image_iff del: set_upt) blast
  then show ?thesis
    by (simp add: nat_ip_ip_nat)
qed

text \<open>Addresses are ordered by their octets; the hosts of a network ascend, each once.\<close>

lemma ip_nat_inj: "ip_nat a = ip_nat b \<longleftrightarrow> a = b"
  by (metis nat_ip_ip_nat)

instantiation ipv4 :: linorder
begin

definition less_eq_ipv4 :: "ipv4 \<Rightarrow> ipv4 \<Rightarrow> bool" where
  "less_eq_ipv4 a b = (ip_nat a \<le> ip_nat b)"

definition less_ipv4 :: "ipv4 \<Rightarrow> ipv4 \<Rightarrow> bool" where
  "less_ipv4 a b = (ip_nat a < ip_nat b)"

instance
  by standard (auto simp: less_eq_ipv4_def less_ipv4_def ip_nat_inj)

end

lemma nat_ip_less: "m < n \<Longrightarrow> n < 4294967296 \<Longrightarrow> nat_ip m < nat_ip n"
  by (simp add: less_ipv4_def ip_nat_nat_ip)

lemma block_bound: "ip_nat (fst net) div block net * block net + block net \<le> 4294967296"
  if "snd net \<le> 32"
proof -
  have "unat (snd net) \<le> 32"
    using that by (simp add: word_le_nat_alt)
  then have "block net * 2 ^ unat (snd net) = 4294967296"
    by (simp add: block_def power_add [symmetric])
  then have "(ip_nat (fst net) div block net + 1) * block net \<le> 2 ^ unat (snd net) * block net"
    using ip_nat_less [of "fst net"] by (intro mult_le_mono1) (simp add: less_mult_imp_div_less mult.commute Suc_le_eq)
  then show ?thesis
    using \<open>block net * 2 ^ unat (snd net) = 4294967296\<close> by (simp add: algebra_simps)
qed

lemma cidr_hosts_ascending:
  assumes "snd net \<le> 32"
  shows "\<exists>ips. cidr_hosts net = map IpV4 ips \<and> sorted_wrt (<) ips \<and> distinct ips"
proof -
  let ?lo = "ip_nat (fst net) div block net * block net"
  let ?ns = "if 31 \<le> snd net then [?lo..<?lo + block net] else [Suc ?lo..<?lo + block net - 1]"
  have ns: "sorted_wrt (<) ?ns" "\<forall>n \<in> set ?ns. n < 4294967296"
    using block_bound [OF assms] by (auto simp: strict_sorted_iff)
  have "sorted_wrt (<) (map nat_ip ?ns)"
    unfolding sorted_wrt_map
    by (rule sorted_wrt_mono_rel [OF _ ns(1)]) (use ns(2) nat_ip_less in blast)
  then show ?thesis
    by (intro exI [of _ "map nat_ip ?ns"]) (simp add: cidr_hosts_def Let_def strict_sorted_iff)
qed

lemma cidr_laws: "ipnet_laws cidr_api"
proof -
  have 1: "\<exists>n'. cidr_parse (cidr_text nw (snd n)) = Inr n' \<and> net_v4_network cidr_api n' = Some nw \<and>
      snd n' = snd n \<and> cidr_contains n' = cidr_contains n"
    if "net_v4_network cidr_api n = Some nw" for n nw
    using that cidr_parse_text [of "snd n" nw] cidr_network_idem [of n] cidr_contains_network [of n]
    by (auto split: if_splits)
  have 2: "v4_net cidr_api n \<and> cidr_contains n (IpV4 ip)" if net: "cidr_with_netmask ip m = Some n" for ip m n
  proof -
    obtain p where "find (\<lambda>p. ip_nat m = 2 ^ 32 - 2 ^ (32 - p)) [0..<33] = Some p"
      and n: "n = (ip, word_of_nat p)"
      using net unfolding cidr_with_netmask_def by blast
    then have "p \<in> set [0..<33]"
      by (metis find_Some_iff nth_mem)
    then have p: "p < 33" "n = (ip, word_of_nat p)"
      using n by simp_all
    then have "(word_of_nat p :: u8) \<le> 32"
      by (simp add: word_le_nat_alt unat_of_nat)
    then show ?thesis by (simp add: p(2) v4_net_def)
  qed
  have 3: "\<exists>ll. cidr_parse ''169.254.0.0/16'' = Inr ll \<and>
      (\<forall>ip. cidr_contains ll (IpV4 ip) = is_link_local ip)"
  proof -
    have "cidr_parse ''169.254.0.0/16'' = Inr (Ipv4 169 254 0 0, 16)"
      by code_simp
    then show ?thesis using cidr_link_local by blast
  qed
  have 4: "length (cidr_hosts n) \<le> 2 ^ (32 - unat (snd n))" for n
    by (simp add: cidr_hosts_def Let_def block_def)
  show ?thesis
    unfolding ipnet_laws_def using 1 2 3 4 cidr_contains.simps(1) [of "(ip, p)" ip for ip p]
    by (auto simp: cidr_new_def v4_net_def cidr_same_block simp del: cidr_contains.simps intro: cidr_inner_host)
qed

end
