(* ===== verification/Checksum.thy ===== *)
theory Checksum
  imports Prelude
begin

text \<open>
  The Internet checksum, which \<open>src/net/icmp.rs\<close> and \<open>src/net/syn_scan.rs\<close> both implement, as
  an interface: the law its two providers promise and what a packet builder may rely on.
\<close>

section \<open>Bytes and 16-bit words\<close>

text \<open>\<open>u16::from_be_bytes\<close> and \<open>u16::to_be_bytes\<close>; \<open>u32::to_be_bytes\<close>.\<close>

definition be16 :: "u8 \<Rightarrow> u8 \<Rightarrow> u16" where
  "be16 a b = push_bit 8 (ucast a) OR ucast b"

definition to_be16 :: "u16 \<Rightarrow> bytes" where
  "to_be16 w = [ucast (drop_bit 8 w), ucast w]"

definition to_be32 :: "u32 \<Rightarrow> bytes" where
  "to_be32 w = [ucast (drop_bit 24 w), ucast (drop_bit 16 w), ucast (drop_bit 8 w), ucast w]"

lemma be16_to_be16: "be16 (ucast (drop_bit 8 w)) (ucast w) = w"
  unfolding be16_def
  by (rule bit_word_eqI) (auto simp: bit_simps dest: bit_imp_le_length)

lemma unat_be16: "unat (be16 a b) = 256 * unat a + unat b"
proof -
  have "push_bit 8 (ucast a :: u16) AND ucast b = 0"
    by (rule bit_word_eqI) (auto simp: bit_simps dest: bit_imp_le_length)
  then have "be16 a b = push_bit 8 (ucast a) + ucast b"
    unfolding be16_def by (rule disjunctive_add_eq_or [symmetric])
  also have "\<dots> = word_of_nat (256 * unat a + unat b)"
    by (simp add: push_bit_eq_mult)
  finally have "be16 a b = word_of_nat (256 * unat a + unat b)" .
  moreover have "256 * unat a + unat b < 65536"
    using unat_u8 [of a] unat_u8 [of b] by linarith
  ultimately show ?thesis
    by (simp only: unat_of_nat) simp
qed

lemma unat_all_ones: "unat w = 65535 \<longleftrightarrow> w = (- 1 :: u16)"
  by (simp add: word_unat_eq_iff unsigned_minus_1_eq_mask mask_eq_exp_minus_1)

lemma to_be16_be16: "to_be16 (be16 a b) = [a, b]"
proof -
  have "\<not> bit b (8 + n)" for n
    by (auto dest: bit_imp_le_length)
  then show ?thesis
    unfolding to_be16_def be16_def by (auto intro!: bit_word_eqI simp: bit_simps)
qed

section \<open>The sum of the 16-bit words of a message\<close>

fun word_total :: "bytes \<Rightarrow> nat" where
  "word_total [] = 0"
| "word_total [b] = 256 * unat b"
| "word_total (a # b # ds) = 256 * unat a + unat b + word_total ds"

lemma word_total_append:
  "even (length xs) \<Longrightarrow> word_total (xs @ ys) = word_total xs + word_total ys"
  by (induction xs rule: word_total.induct) auto

lemma word_total_bound: "word_total ds \<le> 65535 * ((length ds + 1) div 2)"
proof (induction ds rule: word_total.induct)
  case (2 b)
  have "(length [b] + 1) div 2 = 1" by simp
  then show ?case
    using unat_u8 [of b] unfolding word_total.simps by linarith
next
  case (3 a b ds)
  have "(length (a # b # ds) + 1) div 2 = Suc ((length ds + 1) div 2)" by simp
  then show ?case
    using 3 unat_u8 [of a] unat_u8 [of b] unfolding word_total.simps by linarith
qed simp

lemma word_total_to_be16 [simp]: "word_total (to_be16 w) = unat w"
  using unat_be16 [of "ucast (drop_bit 8 w)" "ucast w"] be16_to_be16 [of w]
  by (simp add: to_be16_def)

lemma length_to_be16 [simp]: "length (to_be16 w) = 2"
  by (simp add: to_be16_def)

lemma word_total_put:
  assumes "even k" "k + 2 \<le> length p" "p ! k = 0" "p ! Suc k = 0"
  shows "word_total (put k (to_be16 w) p) = word_total p + unat w"
proof -
  have "p = take k p @ [p ! k, p ! Suc k] @ drop (k + 2) p"
    using assms(2) by (simp add: Cons_nth_drop_Suc)
  then have "word_total p = word_total (take k p) + word_total (drop (k + 2) p)"
    using assms by (metis add.left_neutral word_total_append length_take min.absorb2 add_leD1
        append_Cons append_Nil word_total.simps(3) unsigned_0 mult_0_right)
  then show ?thesis
    using assms by (simp add: put_def word_total_append)
qed

section \<open>The interface\<close>

lemma dvd_below_twice:
  assumes "65535 dvd n" "n \<noteq> 65535" "n < (65536 :: nat)"
  shows "n = 0"
proof -
  obtain k where "n = 65535 * k"
    using assms(1) by (elim dvdE)
  moreover from this have "k < 2"
    using assms(3) by simp
  ultimately show ?thesis
    using assms(2) by (auto simp: less_2_cases_iff)
qed

text \<open>
  The law of the checksum: together with the words of the message it is a multiple of 65535 (the
  ones' complement zero), and it is all ones for the zero message only.  The bound keeps the
  32-bit accumulator of the providers from wrapping.
\<close>

locale internet_checksum =
  fixes ck :: "bytes \<Rightarrow> u16"
  assumes ck_sum: "length ds \<le> 65536 \<Longrightarrow> 65535 dvd unat (ck ds) + word_total ds"
    and ck_ones: "length ds \<le> 65536 \<Longrightarrow> ck ds = - 1 \<longleftrightarrow> word_total ds = 0"
begin

lemma ck_zero_iff:
  assumes "length ds \<le> 65536"
  shows "ck ds = 0 \<longleftrightarrow> 65535 dvd word_total ds \<and> word_total ds \<noteq> 0"
proof
  assume "ck ds = 0"
  then show "65535 dvd word_total ds \<and> word_total ds \<noteq> 0"
    using ck_sum [OF assms] ck_ones [OF assms] by auto
next
  assume *: "65535 dvd word_total ds \<and> word_total ds \<noteq> 0"
  then have "65535 dvd unat (ck ds)"
    using ck_sum [OF assms] by (simp add: dvd_add_left_iff)
  moreover have "unat (ck ds) \<noteq> 65535"
    using ck_ones [OF assms] * by (simp add: unat_all_ones)
  ultimately have "unat (ck ds) = 0"
    using unat_u16 by (rule dvd_below_twice)
  then show "ck ds = 0" by (simp add: unat_eq_0)
qed

text \<open>
  Writing the checksum of a message over an aligned zero field makes the message verify, as long
  as the message is not all zero.
\<close>

lemma insert_verifies:
  assumes "even k" "k + 2 \<le> length p" "p ! k = 0" "p ! Suc k = 0"
    and "length p \<le> 65536" "word_total p \<noteq> 0"
  shows "ck (put k (to_be16 (ck p)) p) = 0"
proof -
  have "word_total (put k (to_be16 (ck p)) p) = word_total p + unat (ck p)"
    using assms(1-4) by (rule word_total_put)
  moreover have "length (put k (to_be16 (ck p)) p) = length p"
    using assms(2) by simp
  ultimately show ?thesis
    using ck_sum [OF assms(5)] assms(5,6) by (simp add: ck_zero_iff add.commute)
qed

text \<open>A single changed word is always detected unless it changes to its ones' complement equal.\<close>

lemma same_sum_mod:
  assumes "length p \<le> 65536" "length q \<le> 65536" "ck p = ck q"
  shows "word_total p mod 65535 = word_total q mod 65535"
proof -
  obtain a where a: "unat (ck p) + word_total p = 65535 * a"
    using ck_sum [OF assms(1)] by (elim dvdE)
  obtain b where b: "unat (ck p) + word_total q = 65535 * b"
    using ck_sum [OF assms(2)] assms(3) by (auto elim: dvdE)
  have "(unat (ck p) + word_total p) mod 65535 = (unat (ck p) + word_total q) mod 65535"
    by (simp add: a b)
  then show ?thesis
    by (simp add: nat_mod_eq_iff)
qed

end

section \<open>The loops of the providers\<close>

text \<open>
  The loop over \<open>chunks_exact(2)\<close> and its remainder, in the 32-bit accumulator, and the loop that
  folds the carries back in.  Both providers contain the same two loops.
\<close>

fun add_chunks :: "u32 \<Rightarrow> bytes \<Rightarrow> u32" where
  "add_chunks s [] = s"
| "add_chunks s [b] = s + push_bit 8 (ucast b)"
| "add_chunks s (a # b # ds) = add_chunks (s + ucast (be16 a b)) ds"

lemma unat_low16: "unat (s AND 0xFFFF) = unat (s :: u32) mod 65536"
proof -
  have "unat (take_bit 16 s) = take_bit 16 (unat s)"
    by (rule unsigned_take_bit_eq)
  moreover have "s AND 0xFFFF = take_bit 16 s"
    by (simp only: take_bit_eq_mask) (simp add: mask_numeral)
  ultimately show ?thesis
    by (simp only: take_bit_eq_mod) simp
qed

lemma unat_high16: "unat (drop_bit 16 s) = unat (s :: u32) div 65536"
proof -
  have "unat (drop_bit 16 s) = drop_bit 16 (take_bit (LENGTH(32)) (unat s))"
    by (rule unsigned_drop_bit_eq)
  also have "take_bit (LENGTH(32)) (unat s) = unat s"
    by (simp add: take_bit_nat_eq_self)
  finally show ?thesis
    by (simp add: drop_bit_eq_div)
qed

lemma unat_fold_step:
  "unat ((s AND 0xFFFF) + drop_bit 16 s) = unat (s :: u32) mod 65536 + unat s div 65536"
proof -
  have "unat s div 65536 < 65536"
    using unat_u32 [of s] by linarith
  moreover have "unat s mod 65536 < 65536" by simp
  ultimately have "unat s mod 65536 + unat s div 65536 < 131072"
    by linarith
  then have "unat s mod 65536 + unat s div 65536 < 2 ^ LENGTH(32)"
    by (rule less_le_trans) simp
  then show ?thesis
    by (simp only: unat_word_ariths unat_low16 unat_high16 mod_less)
qed

lemma drop_bit_16_zero_iff: "drop_bit 16 (s :: u32) = 0 \<longleftrightarrow> unat s < 65536"
  using unat_high16 [of s] by (metis div_eq_0_iff unat_eq_0 zero_neq_numeral)

function fold_carries :: "u32 \<Rightarrow> u32" where
  "fold_carries s =
     (if drop_bit 16 s \<noteq> 0 then fold_carries ((s AND 0xFFFF) + drop_bit 16 s) else s)"
  by pat_completeness auto
termination
proof (relation "measure unat")
  fix s :: u32
  assume "drop_bit 16 s \<noteq> 0"
  then have "65536 \<le> unat s"
    by (simp add: drop_bit_16_zero_iff)
  then have "unat s mod 65536 + unat s div 65536 < unat s"
    using div_mult_mod_eq [of "unat s" 65536] by linarith
  then show "((s AND 0xFFFF) + drop_bit 16 s, s) \<in> measure unat"
    by (simp only: in_measure unat_fold_step)
qed simp

declare fold_carries.simps [simp del]

lemma fold_carries_sum:
  "unat (fold_carries s) < 65536 \<and> unat (fold_carries s) mod 65535 = unat s mod 65535 \<and>
   (unat (fold_carries s) = 0 \<longleftrightarrow> unat s = 0)"
proof (induction s rule: fold_carries.induct)
  case (1 s)
  show ?case
  proof (cases "unat s < 65536")
    case True
    then show ?thesis
      by (simp add: fold_carries.simps [of s] drop_bit_16_zero_iff)
  next
    case False
    let ?t = "(s AND 0xFFFF) + drop_bit 16 s"
    have eq: "fold_carries s = fold_carries ?t"
      using False by (simp add: fold_carries.simps [of s] drop_bit_16_zero_iff)
    have t: "unat ?t = unat s mod 65536 + unat s div 65536"
      by (rule unat_fold_step)
    have "unat s = 65535 * (unat s div 65536) + unat ?t"
      unfolding t using div_mult_mod_eq [of "unat s" 65536] by linarith
    then have "unat ?t mod 65535 = unat s mod 65535"
      by (metis mod_mult_self4)
    moreover have "unat ?t \<noteq> 0" "unat s \<noteq> 0"
      using False t div_eq_0_iff [of "unat s" 65536] by auto
    ultimately show ?thesis
      using 1 False by (simp add: eq drop_bit_16_zero_iff)
  qed
qed

lemma unat_ucast_u16: "unat (ucast (w :: u16) :: u32) = unat w"
proof -
  have "take_bit LENGTH(32) (unat w) = unat w"
    by (intro take_bit_nat_eq_self less_le_trans [OF unat_u16]) simp
  then show ?thesis
    by (simp add: unsigned_ucast_eq unsigned_take_bit_eq)
qed

lemma unat_add_chunks:
  "unat s + word_total ds < 4294967296 \<Longrightarrow> unat (add_chunks s ds) = unat s + word_total ds"
proof (induction s ds rule: add_chunks.induct)
  case (2 s b)
  have "push_bit 8 (ucast b) = (word_of_nat (256 * unat b) :: u32)"
    by (simp add: push_bit_eq_mult)
  moreover have "256 * unat b < 4294967296"
    using unat_u8 [of b] by linarith
  ultimately have "unat (push_bit 8 (ucast b) :: u32) = 256 * unat b"
    by (simp only: unat_of_nat) simp
  with 2 show ?case by (simp add: unat_word_ariths)
next
  case (3 s a b ds)
  have "unat (ucast (be16 a b) :: u32) = 256 * unat a + unat b"
    by (simp only: unat_ucast_u16 unat_be16)
  with 3 show ?case by (simp add: unat_word_ariths)
qed simp

text \<open>The common body of the two checksum functions satisfies the law.\<close>

lemma fold_add_chunks_law:
  assumes ck: "\<And>ds. ck ds = NOT (ucast (fold_carries (add_chunks 0 ds)))"
  shows "internet_checksum ck"
proof
  fix ds :: bytes
  assume len: "length ds \<le> 65536"
  let ?r = "fold_carries (add_chunks 0 ds)"
  have "(length ds + 1) div 2 \<le> 32768"
    using len by linarith
  then have "word_total ds < 4294967296"
    using word_total_bound [of ds] by linarith
  then have n: "unat (add_chunks 0 ds) = word_total ds"
    using unat_add_chunks [of 0 ds] by simp
  have r: "unat ?r < 65536" "unat ?r mod 65535 = word_total ds mod 65535"
    "unat ?r = 0 \<longleftrightarrow> word_total ds = 0"
    using fold_carries_sum [of "add_chunks 0 ds"] by (simp_all only: n)
  have "unat (ucast ?r :: u16) = unat ?r"
    using r(1) by (simp add: unsigned_ucast_eq unsigned_take_bit_eq take_bit_nat_eq_self)
  moreover have "unat (NOT w) = 65535 - unat w" for w :: u16
  proof -
    have "NOT w = - 1 - w"
      by (simp add: not_eq_complement)
    then have "unat (NOT w) = unat (- 1 :: u16) - unat w"
      by (simp only: unat_sub [OF word_n1_ge])
    then show ?thesis
      by (simp only: iffD2 [OF unat_all_ones refl])
  qed
  ultimately have c: "unat (ck ds) = 65535 - unat ?r"
    by (simp add: ck)
  show "65535 dvd unat (ck ds) + word_total ds"
  proof -
    have "unat (ck ds) + word_total ds = 65535 - unat ?r + word_total ds"
      by (simp only: c)
    moreover have "unat ?r \<le> 65535" using r(1) by simp
    ultimately have "unat (ck ds) + word_total ds + unat ?r = 65535 + word_total ds"
      by linarith
    then have "(unat (ck ds) + word_total ds + unat ?r) mod 65535 = unat ?r mod 65535"
      using r(2) by (simp only: mod_add_self1)
    then have "65535 dvd unat (ck ds) + word_total ds + unat ?r - unat ?r"
      by (subst (asm) mod_eq_dvd_iff_nat) simp_all
    then show ?thesis by simp
  qed
  show "ck ds = - 1 \<longleftrightarrow> word_total ds = 0"
    using c r by (auto simp flip: unat_all_ones)
qed

end
