(* ===== verification/Arp.thy ===== *)
theory Arp
  imports Net_Addr Checksum
begin

text \<open>
  \<open>src/net/arp.rs\<close>: the filter that decides which neighbours are worth scanning, the text form of
  hardware addresses, and the three readers of the kernel's neighbour table (the text of
  \<open>/proc/net/arp\<close>, the routing messages of the BSD sysctl, the rows of the Windows table).  The
  kernel's answers are arguments; the layout of the C structures, which the \<open>libc\<close> crate defines,
  is a parameter.
\<close>

section \<open>Hardware addresses and the unicast filter\<close>

datatype mac_addr = Mac u8 u8 u8 u8 u8 u8

definition zero_mac :: mac_addr where
  "zero_mac = Mac 0 0 0 0 0 0"

fun mac_bytes :: "mac_addr \<Rightarrow> bytes" where
  "mac_bytes (Mac a b c d e f) = [a, b, c, d, e, f]"

definition is_loopback :: "ipv4 \<Rightarrow> bool" where
  "is_loopback ip = (octets ip ! 0 = 127)"

definition is_unicast_target :: "ipv4 \<Rightarrow> mac_addr \<Rightarrow> bool" where
  "is_unicast_target ip mac =
     (if is_loopback ip \<or> is_multicast ip then False
      else if octets ip ! 3 = 255 then False
      else let m = mac_bytes mac;
               mac_is_broadcast = (m ! 0 = 0xFF \<and> m ! 1 = 0xFF \<and> m ! 2 = 0xFF \<and> m ! 3 = 0xFF \<and>
                                   m ! 4 = 0xFF \<and> m ! 5 = 0xFF)
           in if mac_is_broadcast then False
              else if m ! 0 AND 0x01 \<noteq> 0 then False
              else True)"

fun format_mac :: "mac_addr \<Rightarrow> string" where
  "format_mac (Mac a b c d e f) =
     fmt_02x a @ '':'' @ fmt_02x b @ '':'' @ fmt_02x c @ '':'' @ fmt_02x d @ '':'' @ fmt_02x e @
     '':'' @ fmt_02x f"

definition parse_mac_colons :: "string \<Rightarrow> mac_addr option" where
  "parse_mac_colons s =
     (let parts = split_on (CHR '':'') s
      in if length parts \<noteq> 6 then None
         else (case map (u8_from_str 16) parts of
                 [Some a, Some b, Some c, Some d, Some e, Some f] \<Rightarrow> Some (Mac a b c d e f)
               | _ \<Rightarrow> None))"

section \<open>Linux: the text of \<open>/proc/net/arp\<close>\<close>

definition proc_arp_line :: "string \<Rightarrow> (ipv4 \<times> mac_addr) option" where
  "proc_arp_line line =
     (case split_ascii_whitespace line of
        ip_str # _ # flags_str # mac_str # _ \<Rightarrow>
          (case parse_ipv4 ip_str of
             None \<Rightarrow> None
           | Some ip \<Rightarrow>
               if is_loopback ip then None
               else (case u8_from_str 16 (trim_start_0x flags_str) of
                       None \<Rightarrow> None
                     | Some flags \<Rightarrow>
                         if flags = 0 then None
                         else (case parse_mac_colons mac_str of
                                 None \<Rightarrow> None
                               | Some mac \<Rightarrow> if mac = zero_mac then None else Some (ip, mac))))
      | _ \<Rightarrow> None)"

definition parse_proc_arp :: "string \<Rightarrow> (ipv4 \<times> mac_addr) list" where
  "parse_proc_arp content = List.map_filter proc_arp_line (drop 1 (lines content))"

definition linux_arp_cache_hosts :: "string option \<Rightarrow> (ipv4 \<times> mac_addr) list" where
  "linux_arp_cache_hosts file = (case file of None \<Rightarrow> [] | Some content \<Rightarrow> parse_proc_arp content)"

section \<open>macOS: routing messages\<close>

text \<open>
  Sizes and field offsets of \<open>rt_msghdr\<close>, \<open>sockaddr_in\<close> and \<open>sockaddr_dl\<close>, and the two address
  family numbers.  \<open>layout_ok\<close> says that the fields lie inside their structures.
\<close>

record bsd_layout =
  hdr_size :: nat
  sin_size :: nat
  sin_len_at :: nat
  sin_family_at :: nat
  sin_addr_at :: nat
  sdl_size :: nat
  sdl_family_at :: nat
  sdl_nlen_at :: nat
  sdl_alen_at :: nat
  sdl_data_len :: nat
  af_inet :: u8
  af_link :: u8

definition layout_ok :: "bsd_layout \<Rightarrow> bool" where
  "layout_ok L =
     (sin_len_at L < sin_size L \<and> sin_family_at L < sin_size L \<and> sin_addr_at L + 4 \<le> sin_size L \<and>
      sdl_family_at L < sdl_size L \<and> sdl_nlen_at L < sdl_size L \<and> sdl_alen_at L < sdl_size L \<and>
      sdl_data_len L \<le> sdl_size L)"

definition sa_size :: "u8 \<Rightarrow> nat" where
  "sa_size sa_len = (if sa_len = 0 then 4 else 1 + ((unat sa_len - 1) OR 3))"

text \<open>
  The sources copy whole structures out of the buffer through raw pointers.  Such a read is a \<open>slice\<close>
  of the structure's size: outside the buffer it is undefined behaviour there, which \<open>Panics\<close> stands
  for.
\<close>

fun outcome_bind :: "'a outcome \<Rightarrow> ('a \<Rightarrow> 'b outcome) \<Rightarrow> 'b outcome" where
  "outcome_bind (Returns a) f = f a"
| "outcome_bind Panics f = Panics"

definition parse_one_msg :: "bsd_layout \<Rightarrow> bytes \<Rightarrow> (ipv4 \<times> mac_addr) option outcome" where
  "parse_one_msg L msg =
     (if length msg \<le> hdr_size L then Returns None
      else let p = hdr_size L
      in if p + sin_size L > length msg then Returns None
      else outcome_bind (slice p (p + sin_size L) msg) (\<lambda>sin.
      if sin ! sin_family_at L \<noteq> af_inet L then Returns None
      else
      let a = drop (sin_addr_at L) sin;
          ip = Ipv4 (a ! 0) (a ! 1) (a ! 2) (a ! 3);
          sin_len = (if sin ! sin_len_at L = 0 then word_of_nat (sin_size L) else sin ! sin_len_at L);
          p = p + sa_size sin_len
      in if p + sdl_size L > length msg then Returns None
      else outcome_bind (slice p (p + sdl_size L) msg) (\<lambda>sdl.
      if sdl ! sdl_family_at L \<noteq> af_link L then Returns None
      else if sdl ! sdl_alen_at L \<noteq> 6 then Returns None
      else
      let sdl_data_offset = p + sdl_size L - sdl_data_len L;
          mac_start = sdl_data_offset + unat (sdl ! sdl_nlen_at L);
          mac_end = mac_start + 6
      in if mac_end > length msg then Returns None
      else outcome_map (\<lambda>m. Some (ip, Mac (m ! 0) (m ! 1) (m ! 2) (m ! 3) (m ! 4) (m ! 5)))
             (slice mac_start mac_end msg))))"

text \<open>
  The walk over the messages.  The header the sources read, \<open>RtMsgHdrHead\<close>, is sixteen bytes; its
  first field is the message length in the byte order of the machine, little endian on every
  supported Mac.
\<close>

definition rt_head_size :: nat where
  "rt_head_size = 16"

definition rtm_msglen :: "bytes \<Rightarrow> nat \<Rightarrow> nat outcome" where
  "rtm_msglen buf offset =
     outcome_map (\<lambda>hdr. unat (be16 (hdr ! 1) (hdr ! 0))) (slice offset (offset + rt_head_size) buf)"

function parse_rt_from ::
  "bsd_layout \<Rightarrow> bytes \<Rightarrow> nat \<Rightarrow> (ipv4 \<times> mac_addr) list \<Rightarrow> (ipv4 \<times> mac_addr) list outcome" where
  "parse_rt_from L buf offset out =
     (if offset + rt_head_size \<le> length buf
      then outcome_bind (rtm_msglen buf offset) (\<lambda>msg_len.
               if msg_len < rt_head_size \<or> offset + msg_len > length buf then Returns out
               else outcome_bind (slice offset (offset + msg_len) buf) (\<lambda>msg.
                    outcome_bind (parse_one_msg L msg) (\<lambda>entry.
                    parse_rt_from L buf (offset + msg_len)
                      (case entry of
                         None \<Rightarrow> out
                       | Some (ip, mac) \<Rightarrow>
                           if \<not> is_loopback ip \<and> mac \<noteq> zero_mac then out @ [(ip, mac)] else out))))
      else Returns out)"
  by pat_completeness auto
termination
  by (relation "measure (\<lambda>(L, buf, offset, out). length buf - offset)")
    (auto simp: rt_head_size_def)

declare parse_rt_from.simps [simp del]

definition parse_rt_buffer :: "bsd_layout \<Rightarrow> bytes \<Rightarrow> (ipv4 \<times> mac_addr) list outcome" where
  "parse_rt_buffer L buf = parse_rt_from L buf 0 []"

text \<open>
  The two \<open>sysctl\<close> calls: the first gives a return code and the size needed, the second a return
  code and what it wrote, of which the reported size is kept.
\<close>

definition macos_arp_cache_hosts ::
  "bsd_layout \<Rightarrow> int \<times> nat \<Rightarrow> (nat \<Rightarrow> int \<times> nat \<times> bytes) \<Rightarrow> (ipv4 \<times> mac_addr) list outcome" where
  "macos_arp_cache_hosts L query fetch =
     (let (rc, needed) = query
      in if rc \<noteq> 0 \<or> needed = 0 then Returns []
         else let (rc, needed', buf) = fetch needed
              in if rc \<noteq> 0 then Returns []
                 else parse_rt_buffer L (take needed' buf))"

section \<open>Windows: the neighbour table\<close>

record mib_row =
  State :: int
  PhysicalAddressLength :: u32
  si_family :: u16
  sin_addr :: ipv4
  PhysicalAddress :: bytes

definition table_row :: "u16 \<Rightarrow> mib_row \<Rightarrow> (ipv4 \<times> mac_addr) option" where
  "table_row af row =
     (if State row = 1 \<or> State row = 6 then None
      else if PhysicalAddressLength row \<noteq> 6 then None
      else if si_family row \<noteq> af then None
      else let ip = sin_addr row
           in if is_loopback ip then None
              else let m = PhysicalAddress row;
                       mac = Mac (m ! 0) (m ! 1) (m ! 2) (m ! 3) (m ! 4) (m ! 5)
                   in if mac = zero_mac then None else Some (ip, mac))"

definition parse_table :: "u16 \<Rightarrow> mib_row list \<Rightarrow> (ipv4 \<times> mac_addr) list" where
  "parse_table af rows = List.map_filter (table_row af) rows"

definition windows_arp_cache_hosts :: "u16 \<Rightarrow> mib_row list option \<Rightarrow> (ipv4 \<times> mac_addr) list" where
  "windows_arp_cache_hosts af table = (case table of None \<Rightarrow> [] | Some rows \<Rightarrow> parse_table af rows)"

section \<open>The cache as the scanner sees it\<close>

text \<open>
  The \<open>os\<close> module that a build selects, with what its system answers; any other system has a stub
  without entries.
\<close>

datatype os_module =
    OsLinux "string option"
  | OsMacos bsd_layout "int \<times> nat" "nat \<Rightarrow> int \<times> nat \<times> bytes"
  | OsWindows u16 "mib_row list option"
  | OsOther

fun os_arp_cache_hosts :: "os_module \<Rightarrow> (ipv4 \<times> mac_addr) list outcome" where
  "os_arp_cache_hosts (OsLinux file) = Returns (linux_arp_cache_hosts file)"
| "os_arp_cache_hosts (OsMacos L query fetch) = macos_arp_cache_hosts L query fetch"
| "os_arp_cache_hosts (OsWindows af table) = Returns (windows_arp_cache_hosts af table)"
| "os_arp_cache_hosts OsOther = Returns []"

definition arp_cache_hosts :: "(ipv4 \<times> mac_addr) list \<Rightarrow> (ipv4 \<times> mac_addr) list" where
  "arp_cache_hosts os_hosts = filter (\<lambda>(ip, mac). is_unicast_target ip mac) os_hosts"

section \<open>Facts about addresses\<close>

lemma is_loopback_eq: "is_loopback ip = ipv4_is_loopback ip"
  by (cases ip) (simp add: is_loopback_def)

lemma fmt_02x_no_char:
  assumes "(of_char c :: nat) < 48 \<or> 57 < (of_char c :: nat) \<and> (of_char c :: nat) < 97
    \<or> 102 < (of_char c :: nat)"
  shows "c \<notin> set (fmt_02x b)"
  using hex_pad_no_char [OF assms] by (simp add: fmt_02x_def)

lemma parse_format_mac_text: "parse_mac_colons (format_mac m) = Some m"
proof (cases m)
  case (Mac a b c d e f)
  have colon: "CHR '':'' \<notin> set (fmt_02x b)" for b
    by (rule fmt_02x_no_char) simp
  show ?thesis
    by (simp add: Mac parse_mac_colons_def split_on_sep [OF colon] split_on_none [OF colon] u8_fmt_02x)
qed

text \<open>
  Formatting a hardware address and parsing the text gives the address back, and the text is
  seventeen characters long.
\<close>

theorem parse_format_mac:
  "parse_mac_colons (format_mac m) = Some m \<and> length (format_mac m) = 17"
  by (rule conjI [OF parse_format_mac_text]) (cases m, simp add: fmt_02x_def)

text \<open>The filter, stated on the octets: the separate test for the broadcast address is implied.\<close>

lemma even_unat: "even (w :: u8) \<longleftrightarrow> even (unat w)"
proof -
  have "bit (unat w) 0 \<longleftrightarrow> bit w 0"
    by (simp only: bit_unsigned_iff) simp
  then show ?thesis by (simp add: bit_0)
qed

lemma is_unicast_target_iff:
  "is_unicast_target (Ipv4 a b c d) (Mac m n p q r s) \<longleftrightarrow>
     a \<noteq> 127 \<and> \<not> (224 \<le> a \<and> a \<le> 239) \<and> d \<noteq> 255 \<and> even (unat m)"
proof -
  have "m AND 1 = 0 \<longleftrightarrow> even m"
    by (simp add: and_one_eq even_iff_mod_2_eq_zero)
  moreover have "even m \<longleftrightarrow> even (unat m)"
    by (rule even_unat)
  moreover have "odd (255 :: u8)"
    by simp
  ultimately show ?thesis
    by (auto simp: is_unicast_target_def is_loopback_def Let_def)
qed

text \<open>
  What the scanner is offered from the neighbour table: exactly the table's entries whose
  address is neither loopback, nor multicast, nor ends in 255, and whose hardware address has the
  group bit clear (so that neither a multicast nor the broadcast address passes), in table order.
\<close>

theorem arp_cache_hosts_spec:
  "arp_cache_hosts os_hosts =
     filter (\<lambda>(ip, mac). octets ip ! 0 \<noteq> 127 \<and> \<not> (224 \<le> octets ip ! 0 \<and> octets ip ! 0 \<le> 239) \<and>
       octets ip ! 3 \<noteq> 255 \<and> even (unat (mac_bytes mac ! 0))) os_hosts"
proof -
  have "is_unicast_target ip mac \<longleftrightarrow>
      octets ip ! 0 \<noteq> 127 \<and> \<not> (224 \<le> octets ip ! 0 \<and> octets ip ! 0 \<le> 239) \<and>
      octets ip ! 3 \<noteq> 255 \<and> even (unat (mac_bytes mac ! 0))" for ip mac
    by (cases ip; cases mac) (simp add: is_unicast_target_iff)
  then show ?thesis
    by (simp add: arp_cache_hosts_def split_def)
qed

section \<open>Facts about the Linux reader\<close>

text \<open>
  A row of the table: the fields in their textual form with any white space between them.
\<close>

record arp_row =
  row_ip :: ipv4
  row_hw :: string
  row_flags :: u8
  row_mac :: mac_addr
  row_gaps :: "string \<times> string \<times> string"
  row_rest :: string

definition row_text :: "arp_row \<Rightarrow> string" where
  "row_text r = (case row_gaps r of (g1, g2, g3) \<Rightarrow>
     show_ipv4 (row_ip r) @ g1 @ row_hw r @ g2 @
     (''0x'' @ show_radix 16 (unat (row_flags r))) @ g3 @ format_mac (row_mac r) @ row_rest r)"

definition row_ok :: "arp_row \<Rightarrow> bool" where
  "row_ok r = (case row_gaps r of (g1, g2, g3) \<Rightarrow>
     all_ws g1 \<and> g1 \<noteq> [] \<and> all_ws g2 \<and> g2 \<noteq> [] \<and> all_ws g3 \<and> g3 \<noteq> [] \<and>
     no_ws (row_hw r) \<and> row_hw r \<noteq> [] \<and> (row_rest r = [] \<or> ascii_ws (hd (row_rest r))) \<and>
     CHR 0x0A \<notin> set (row_text r) \<and> last (row_text r) \<noteq> CHR 0x0D)"

definition row_usable :: "arp_row \<Rightarrow> bool" where
  "row_usable r = (\<not> is_loopback (row_ip r) \<and> row_flags r \<noteq> 0 \<and> row_mac r \<noteq> zero_mac)"

lemma ascii_ws_code:
  "ascii_ws c \<Longrightarrow> (of_char c :: nat) < 48"
  by (auto simp: ascii_ws_def)

lemma no_ws_show_ipv4: "no_ws (show_ipv4 ip)"
  using show_dec_neq ascii_ws_code by (cases ip) (fastforce simp: no_ws_def ascii_ws_def)

lemma no_ws_format_mac: "no_ws (format_mac m)"
proof -
  have *: "\<not> ascii_ws c" if "c \<in> set (fmt_02x b)" for b c
    using that fmt_02x_no_char [of c b] ascii_ws_code [of c] by auto
  show ?thesis
    using * by (cases m) (auto simp: no_ws_def ascii_ws_def)
qed

lemma no_ws_flags: "no_ws (''0x'' @ show_radix 16 n)"
  using show_hex_no_char ascii_ws_code by (auto simp: no_ws_def ascii_ws_def)

lemma u8_from_str_show_hex: "u8_from_str 16 (show_radix 16 (unat b)) = Some b"
proof -
  have "CHR ''+'' \<notin> set (show_radix 16 (unat b))"
    by (rule show_hex_no_char) simp
  then have "hd (show_radix 16 (unat b)) \<noteq> CHR ''+''"
    using hd_in_set [OF show_radix_nonempty] by metis
  then have "from_str_radix 8 16 (show_radix 16 (unat b)) = Some (unat b)"
    by (intro from_str_radix_digits) (simp_all add: parse_show_radix)
  then show ?thesis by (simp add: u8_from_str_def)
qed

lemma x_notin_show_hex: "CHR ''x'' \<notin> set (show_radix 16 n)"
  by (rule show_hex_no_char) simp

lemma format_mac_nonempty: "format_mac m \<noteq> []"
  by (cases m) simp

lemma show_ipv4_nonempty: "show_ipv4 ip \<noteq> []"
  by (cases ip) simp

lemma row_ok_no_newline:
  "row_ok r \<Longrightarrow> CHR 0x0A \<notin> set (row_text r) \<and> last (row_text r) \<noteq> CHR 0x0D"
  by (cases "row_gaps r") (auto simp: row_ok_def)

lemma proc_arp_line_row:
  assumes "row_ok r"
  shows "proc_arp_line (row_text r) =
    (if row_usable r then Some (row_ip r, row_mac r) else None)"
proof -
  obtain g1 g2 g3 where g: "row_gaps r = (g1, g2, g3)" by (cases "row_gaps r") auto
  let ?flags = "''0x'' @ show_radix 16 (unat (row_flags r))"
  from assms have gaps: "all_ws g1" "g1 \<noteq> []" "all_ws g2" "g2 \<noteq> []" "all_ws g3" "g3 \<noteq> []"
    and hw: "no_ws (row_hw r)" "row_hw r \<noteq> []"
    and rest: "row_rest r = [] \<or> ascii_ws (hd (row_rest r))"
    by (auto simp: row_ok_def g)
  obtain ws where ws: "split_ascii_whitespace (format_mac (row_mac r) @ row_rest r) =
      format_mac (row_mac r) # ws"
    using split_ascii_whitespace_end [OF no_ws_format_mac format_mac_nonempty rest] by blast
  have "row_text r = show_ipv4 (row_ip r) @ g1 @ (row_hw r @ g2 @ (?flags @ g3 @
      (format_mac (row_mac r) @ row_rest r)))"
    by (simp add: row_text_def g)
  then have "split_ascii_whitespace (row_text r) =
      show_ipv4 (row_ip r) # row_hw r # ?flags # format_mac (row_mac r) # ws"
    using gaps hw ws no_ws_flags
    by (simp only: split_ascii_whitespace_word no_ws_show_ipv4 show_ipv4_nonempty
        append_is_Nil_conv list.distinct simp_thms)
  then show ?thesis
    by (simp add: proc_arp_line_def parse_show_ipv4 parse_format_mac_text trim_start_0x_id
        x_notin_show_hex u8_from_str_show_hex [of 0, simplified] u8_from_str_show_hex row_usable_def)
qed

text \<open>
  C37.  Reading back a neighbour table: for any rows in textual form, under any header line, the
  reader returns the address and hardware address of exactly the rows that are complete, not
  loopback and not the zero hardware address, in their order.
\<close>

theorem parse_proc_arp_table:
  assumes "\<forall>r \<in> set rows. row_ok r" "CHR 0x0A \<notin> set header" "header = [] \<or> last header \<noteq> CHR 0x0D"
  shows "parse_proc_arp (concat (map (\<lambda>l. l @ [CHR 0x0A]) (header # map row_text rows))) =
    map (\<lambda>r. (row_ip r, row_mac r)) (filter row_usable rows)"
proof -
  have "lines (concat (map (\<lambda>l. l @ [CHR 0x0A]) (header # map row_text rows))) =
      header # map row_text rows"
    using assms row_ok_no_newline by (intro lines_concat) auto
  then have "parse_proc_arp (concat (map (\<lambda>l. l @ [CHR 0x0A]) (header # map row_text rows))) =
      List.map_filter proc_arp_line (map row_text rows)"
    by (simp add: parse_proc_arp_def)
  also have "\<dots> = map (\<lambda>r. (row_ip r, row_mac r)) (filter row_usable rows)"
    using assms(1) by (induction rows) (auto simp: map_filter_simps proc_arp_line_row)
  finally show ?thesis .
qed

theorem parse_proc_arp_table_witness:
  "parse_proc_arp (concat (map (\<lambda>l. l @ [CHR 0x0A]) (''IP address'' # map row_text
     [\<lparr>row_ip = Ipv4 192 168 1 1, row_hw = ''0x1'', row_flags = 2, row_mac = Mac 170 187 204 221 238 1,
       row_gaps = (''  '', '' '', '' ''), row_rest = '' * eth0''\<rparr>,
      \<lparr>row_ip = Ipv4 192 168 1 50, row_hw = ''0x1'', row_flags = 0, row_mac = zero_mac,
       row_gaps = (''  '', '' '', '' ''), row_rest = '' * eth0''\<rparr>]))) =
   [(Ipv4 192 168 1 1, Mac 170 187 204 221 238 1)]"
proof -
  let ?rows = "[\<lparr>row_ip = Ipv4 192 168 1 1, row_hw = ''0x1'', row_flags = 2,
      row_mac = Mac 170 187 204 221 238 1, row_gaps = (''  '', '' '', '' ''), row_rest = '' * eth0''\<rparr>,
    \<lparr>row_ip = Ipv4 192 168 1 50, row_hw = ''0x1'', row_flags = 0, row_mac = zero_mac,
      row_gaps = (''  '', '' '', '' ''), row_rest = '' * eth0''\<rparr>]"
  have "\<forall>r \<in> set ?rows. row_ok r"
    by code_simp
  moreover have "CHR 0x0A \<notin> set ''IP address''" "''IP address'' = [] \<or> last ''IP address'' \<noteq> CHR 0x0D"
    by simp_all
  ultimately have "parse_proc_arp (concat (map (\<lambda>l. l @ [CHR 0x0A]) (''IP address'' # map row_text ?rows))) =
      map (\<lambda>r. (row_ip r, row_mac r)) (filter row_usable ?rows)"
    by (rule parse_proc_arp_table)
  also have "\<dots> = [(Ipv4 192 168 1 1, Mac 170 187 204 221 238 1)]"
    by (simp add: row_usable_def is_loopback_def zero_mac_def)
  finally show ?thesis .
qed

section \<open>Facts about the macOS reader\<close>

lemma or_3_nat: "(n :: nat) OR 3 = 4 * (n div 4) + 3"
proof -
  have m: "(3 :: nat) = mask 2"
    by (simp add: mask_eq_exp_minus_1)
  have two: "Suc (Suc (k - 2)) = k" if "\<not> k < 2" for k
    using that by simp
  have "n OR 3 = push_bit 2 (drop_bit 2 n) OR mask 2"
    unfolding m by (rule bit_eqI) (auto simp: bit_simps two)
  also have "\<dots> = push_bit 2 (drop_bit 2 n) + mask 2"
    by (rule disjunctive_add_eq_or [symmetric]) (rule bit_eqI, auto simp: bit_simps)
  finally show ?thesis
    by (simp add: push_bit_eq_mult drop_bit_eq_div mask_eq_exp_minus_1)
qed

lemma sa_size_rounds_up:
  "4 dvd sa_size l \<and> unat l \<le> sa_size l \<and> sa_size l \<le> max 4 (unat l + 3)"
proof (cases "l = 0")
  case True
  then show ?thesis by (simp add: sa_size_def)
next
  case False
  then have "0 < unat l" by (simp add: unat_gt_0)
  moreover from this have "sa_size l = 4 * ((unat l - 1) div 4) + 4"
    using False by (simp add: sa_size_def or_3_nat)
  ultimately show ?thesis by (simp del: unat_gt_0) linarith
qed

lemma parse_one_msg_safe:
  assumes "layout_ok L"
  shows "\<exists>e. parse_one_msg L msg = Returns e"
proof -
  have sl: "outcome_bind (slice i j msg) f = f (take (j - i) (drop i msg))" if "i \<le> j" "j \<le> length msg" for i j f
    using that by (simp add: slice_def)
  have mac: "outcome_map f (slice i j msg) = Returns (f (take (j - i) (drop i msg)))"
    if "i \<le> j" "j \<le> length msg" for i j and f :: "bytes \<Rightarrow> 'b"
    using that by (simp add: slice_def outcome_map_def)
  show ?thesis
    unfolding parse_one_msg_def Let_def by (auto simp: sl mac not_le)
qed

definition rt_entry :: "bsd_layout \<Rightarrow> bytes \<Rightarrow> (ipv4 \<times> mac_addr) option" where
  "rt_entry L msg = (case parse_one_msg L msg of
       Returns (Some (ip, mac)) \<Rightarrow> (if \<not> is_loopback ip \<and> mac \<noteq> zero_mac then Some (ip, mac) else None)
     | _ \<Rightarrow> None)"

text \<open>A message that is framed as the kernel frames it: its length field is its length.\<close>

definition rt_framed :: "bytes \<Rightarrow> bool" where
  "rt_framed msg = (rt_head_size \<le> length msg \<and> rtm_msglen msg 0 = Returns (length msg))"

text \<open>Reading the header inside the buffer.\<close>

lemma rtm_msglen_inside:
  "offset + rt_head_size \<le> length buf \<Longrightarrow>
     rtm_msglen buf offset = Returns (unat (be16 (buf ! Suc offset) (buf ! offset)))"
  by (simp add: rtm_msglen_def slice_def outcome_map_def rt_head_size_def)

lemma parse_rt_from_safe:
  assumes "layout_ok L" "\<forall>(ip, mac) \<in> set out. \<not> is_loopback ip \<and> mac \<noteq> zero_mac"
  shows "\<exists>res. parse_rt_from L buf offset out = Returns res \<and>
    (\<forall>(ip, mac) \<in> set res. \<not> is_loopback ip \<and> mac \<noteq> zero_mac)"
  using assms
proof (induction L buf offset out rule: parse_rt_from.induct)
  case (1 L buf offset out)
  let ?n = "unat (be16 (buf ! Suc offset) (buf ! offset))"
  have head: "offset + rt_head_size \<le> length buf \<Longrightarrow> rtm_msglen buf offset = Returns ?n"
    by (rule rtm_msglen_inside)
  show ?case
  proof (cases "offset + rt_head_size \<le> length buf \<and> rt_head_size \<le> ?n \<and> offset + ?n \<le> length buf")
    case False
    then show ?thesis
      using "1.prems" head by (cases "offset + rt_head_size \<le> length buf")
        (auto simp: parse_rt_from.simps [of L buf offset out])
  next
    case True
    let ?msg = "take ?n (drop offset buf)"
    have sl: "slice offset (offset + ?n) buf = Returns ?msg"
      using True by (simp add: slice_def)
    obtain e where e: "parse_one_msg L ?msg = Returns e"
      using parse_one_msg_safe [OF "1.prems"(1)] by blast
    let ?out = "case e of None \<Rightarrow> out | Some (ip, mac) \<Rightarrow>
      if \<not> is_loopback ip \<and> mac \<noteq> zero_mac then out @ [(ip, mac)] else out"
    have step: "parse_rt_from L buf offset out = parse_rt_from L buf (offset + ?n) ?out"
      using True by (simp add: parse_rt_from.simps [of L buf offset out] head sl e Let_def)
    have "\<forall>(ip, mac) \<in> set ?out. \<not> is_loopback ip \<and> mac \<noteq> zero_mac"
      using "1.prems"(2) by (auto split: option.splits prod.splits)
    then show ?thesis
      unfolding step using True "1.prems"(1) head by (intro "1.IH") auto
  qed
qed

lemma parse_rt_from_framed:
  assumes "layout_ok L" "\<forall>m \<in> set msgs. rt_framed m"
  shows "parse_rt_from L (pre @ concat msgs) (length pre) out =
    Returns (out @ List.map_filter (rt_entry L) msgs)"
  using assms(2)
proof (induction msgs arbitrary: pre out)
  case Nil
  then show ?case
    by (simp add: parse_rt_from.simps rt_head_size_def map_filter_simps)
next
  case (Cons m ms)
  let ?buf = "pre @ m @ concat ms"
  have m: "rt_head_size \<le> length m" "rtm_msglen m 0 = Returns (length m)"
    using Cons.prems by (auto simp: rt_framed_def)
  then have "2 \<le> length m" by (simp add: rt_head_size_def)
  then have "m \<noteq> []" "Suc 0 < length m" by auto
  then have n: "rtm_msglen ?buf (length pre) = Returns (length m)"
    using m rtm_msglen_inside [of 0 m] rtm_msglen_inside [of "length pre" ?buf]
    by (simp add: nth_append)
  have sl: "slice (length pre) (length pre + length m) ?buf = Returns m"
    by (simp add: slice_def)
  obtain e where e: "parse_one_msg L m = Returns e"
    using parse_one_msg_safe [OF assms(1)] by blast
  let ?out = "case e of None \<Rightarrow> out | Some (ip, mac) \<Rightarrow>
    if \<not> is_loopback ip \<and> mac \<noteq> zero_mac then out @ [(ip, mac)] else out"
  have "parse_rt_from L ?buf (length pre) out = parse_rt_from L ?buf (length pre + length m) ?out"
    using m by (simp add: parse_rt_from.simps [of L ?buf "length pre" out] n sl e Let_def)
  also have "\<dots> = Returns (?out @ List.map_filter (rt_entry L) ms)"
    using Cons.IH [of "pre @ m" ?out] Cons.prems by simp
  also have "?out @ List.map_filter (rt_entry L) ms = out @ List.map_filter (rt_entry L) (m # ms)"
    by (auto simp: rt_entry_def e map_filter_simps split: option.splits)
  finally show ?case by simp
qed

text \<open>
  C38.  The walk over the routing messages stays inside the buffer and ends, whatever the kernel
  returns: no read is out of bounds, and every pair it yields is neither loopback nor the zero
  hardware address.  On a well framed buffer it visits every message exactly once, in order.
\<close>

theorem parse_rt_buffer_safe:
  assumes "layout_ok L"
  shows "(\<exists>res. parse_rt_buffer L buf = Returns res \<and>
      (\<forall>(ip, mac) \<in> set res. \<not> is_loopback ip \<and> mac \<noteq> zero_mac)) \<and>
    ((\<forall>m \<in> set msgs. rt_framed m) \<longrightarrow>
      parse_rt_buffer L (concat msgs) = Returns (List.map_filter (rt_entry L) msgs))"
  using parse_rt_from_safe [OF assms, of "[]" buf 0] parse_rt_from_framed [OF assms, of msgs "[]" "[]"]
  by (auto simp: parse_rt_buffer_def)

text \<open>
  On every system the reader returns, and what passes the filter is usable: no loopback and no group
  address, and a hardware address that is neither empty nor a group address.
\<close>

lemma no_zero_mac_row: "table_row af row = Some (ip, mac) \<Longrightarrow> \<not> is_loopback ip \<and> mac \<noteq> zero_mac"
  by (auto simp: table_row_def Let_def split: if_splits)

lemma no_zero_mac_line: "proc_arp_line line = Some (ip, mac) \<Longrightarrow> \<not> is_loopback ip \<and> mac \<noteq> zero_mac"
  by (auto simp: proc_arp_line_def Let_def split: if_splits option.splits list.splits)

lemma readers_nonzero:
  "(ip, mac) \<in> set (linux_arp_cache_hosts file) \<Longrightarrow> mac \<noteq> zero_mac"
  "(ip, mac) \<in> set (windows_arp_cache_hosts af table) \<Longrightarrow> mac \<noteq> zero_mac"
  using no_zero_mac_line no_zero_mac_row
  by (auto simp: linux_arp_cache_hosts_def windows_arp_cache_hosts_def parse_proc_arp_def parse_table_def
      List.map_filter_def split: option.splits) (metis option.sel)+

theorem os_arp_cache_hosts_usable:
  assumes "\<And>L query fetch. os = OsMacos L query fetch \<Longrightarrow> layout_ok L"
  shows "\<exists>hosts. os_arp_cache_hosts os = Returns hosts \<and>
    (\<forall>(ip, mac) \<in> set (arp_cache_hosts hosts). is_unicast_target ip mac \<and> mac \<noteq> zero_mac)"
proof -
  have "\<exists>hosts. os_arp_cache_hosts os = Returns hosts \<and> (\<forall>(ip, mac) \<in> set hosts. mac \<noteq> zero_mac)"
  proof (cases os)
    case (OsMacos L query fetch)
    then have "layout_ok L" by (rule assms)
    then show ?thesis
      using parse_rt_from_safe [of L "[]" _ 0]
      by (fastforce simp: OsMacos macos_arp_cache_hosts_def parse_rt_buffer_def Let_def split: prod.splits)
  qed (auto dest: readers_nonzero)
  then show ?thesis
    by (fastforce simp: arp_cache_hosts_def)
qed

section \<open>Facts about the Windows reader\<close>

text \<open>
  Which rows are used.  The states the sources exclude are 1 and 6; in Windows' \<open>NL_NEIGHBOR_STATE\<close>
  1 is \<open>NlnsIncomplete\<close>, but \<open>NlnsUnreachable\<close> is 0 and 6 is \<open>NlnsPermanent\<close>, so that an unreachable
  neighbour is used and a permanent one is not.
\<close>

definition row_mac :: "mib_row \<Rightarrow> mac_addr" where
  "row_mac row = (let m = PhysicalAddress row in Mac (m ! 0) (m ! 1) (m ! 2) (m ! 3) (m ! 4) (m ! 5))"

theorem windows_rows_exact:
  "(ip, mac) \<in> set (windows_arp_cache_hosts af (Some rows)) \<longleftrightarrow>
     (\<exists>row \<in> set rows. State row \<notin> {1, 6} \<and> PhysicalAddressLength row = 6 \<and> si_family row = af \<and>
        ip = sin_addr row \<and> \<not> is_loopback ip \<and> mac = row_mac row \<and> mac \<noteq> zero_mac)"
proof -
  have row: "table_row af row = Some (ip, mac) \<longleftrightarrow> State row \<notin> {1, 6} \<and> PhysicalAddressLength row = 6 \<and>
      si_family row = af \<and> ip = sin_addr row \<and> \<not> is_loopback ip \<and> mac = row_mac row \<and> mac \<noteq> zero_mac" for row
    by (auto simp: table_row_def row_mac_def Let_def)
  have "(ip, mac) \<in> set (windows_arp_cache_hosts af (Some rows)) \<longleftrightarrow>
      (\<exists>row \<in> set rows. table_row af row = Some (ip, mac))"
    by (force simp: windows_arp_cache_hosts_def parse_table_def List.map_filter_def)
  then show ?thesis
    by (simp only: row)
qed

theorem windows_states_swapped:
  assumes "PhysicalAddressLength row = 6" "si_family row = af" "\<not> is_loopback (sin_addr row)"
    "row_mac row \<noteq> zero_mac"
  shows "table_row af (row\<lparr>State := 0\<rparr>) = Some (sin_addr row, row_mac row)" "table_row af (row\<lparr>State := 6\<rparr>) = None"
  using assms by (simp_all add: table_row_def row_mac_def Let_def)

text \<open>The layout of a 64-bit macOS, and a message with one neighbour.\<close>

definition macos_layout :: bsd_layout where
  "macos_layout = \<lparr>hdr_size = 92, sin_size = 16, sin_len_at = 0, sin_family_at = 1, sin_addr_at = 4,
     sdl_size = 20, sdl_family_at = 1, sdl_nlen_at = 5, sdl_alen_at = 6, sdl_data_len = 12,
     af_inet = 2, af_link = 18\<rparr>"

definition sample_rt_msg :: bytes where
  "sample_rt_msg = [128, 0] @ replicate 90 0 @ [16, 2, 0, 0, 192, 168, 1, 7] @ replicate 8 0 @
     [20, 18, 0, 0, 6, 0, 6, 0, 170, 187, 204, 221, 238, 1] @ replicate 6 0"

theorem parse_rt_buffer_safe_witness:
  "parse_rt_buffer macos_layout (concat [sample_rt_msg, sample_rt_msg]) =
     Returns [(Ipv4 192 168 1 7, Mac 170 187 204 221 238 1), (Ipv4 192 168 1 7, Mac 170 187 204 221 238 1)]"
proof -
  have "layout_ok macos_layout"
    by (simp add: layout_ok_def macos_layout_def)
  moreover have "rt_framed sample_rt_msg"
    by code_simp
  moreover have "rt_entry macos_layout sample_rt_msg =
      Some (Ipv4 192 168 1 7, Mac 170 187 204 221 238 1)"
    by code_simp
  ultimately show ?thesis
    using parse_rt_buffer_safe [of macos_layout "[]" "[sample_rt_msg, sample_rt_msg]"]
    by (simp add: map_filter_simps)
qed

end
