(* ===== verification/Icmp.thy ===== *)
theory Icmp
  imports Checksum Net_Addr
begin

text \<open>
  \<open>src/net/icmp.rs\<close>: the checksum, the echo request, and the sweep that sends one request per
  host and collects the sources of the replies until the deadline.  The raw socket is the
  environment: whether it opens, and what each turn of the receive loop gets.
\<close>

section \<open>Checksum and request\<close>

definition checksum :: "bytes \<Rightarrow> u16" where
  "checksum data = NOT (ucast (fold_carries (add_chunks 0 data)))"

interpretation icmp_ck: internet_checksum checksum
  by (rule fold_add_chunks_law) (rule checksum_def)

definition echo_request :: "u16 \<Rightarrow> u16 \<Rightarrow> bytes" where
  "echo_request ident seq =
     (let pkt = [8, 0, 0, 0, 0, 0, 0, 0];
          pkt = put 4 (to_be16 ident) pkt;
          pkt = put 6 (to_be16 seq) pkt;
          ck = checksum pkt
      in put 2 (to_be16 ck) pkt)"

section \<open>The receive loop\<close>

text \<open>
  One turn of the loop that starts before the deadline: a datagram arrives, or the read fails,
  and then \<open>RecvErr late\<close> says whether the deadline has passed.  After the last turn the
  remaining time is zero.
\<close>

datatype recv = Datagram bytes | RecvErr bool

text \<open>\<open>recv_from\<close> copies what fits and returns the count; the rest of the buffer stays.\<close>

definition recv_into :: "bytes \<Rightarrow> bytes \<Rightarrow> nat \<times> bytes" where
  "recv_into d buf = (let n = min (length d) (length buf) in (n, take n d @ drop n buf))"

definition icmp_buf_len :: nat where
  "icmp_buf_len = 28"

definition reply_source :: "u16 \<Rightarrow> nat \<Rightarrow> bytes \<Rightarrow> ipv4 option" where
  "reply_source ident n buf =
     (if n \<ge> 28
      then (let src_ip = Ipv4 (buf ! 12) (buf ! 13) (buf ! 14) (buf ! 15);
                icmp = take 8 (drop 20 buf);
                reply_id = be16 (icmp ! 4) (icmp ! 5)
            in if icmp ! 0 = 0 \<and> reply_id = ident \<and> \<not> ipv4_is_loopback src_ip
               then Some src_ip else None)
      else None)"

fun ping_listen :: "u16 \<Rightarrow> bytes \<Rightarrow> ipv4 list \<Rightarrow> recv list \<Rightarrow> ipv4 list" where
  "ping_listen ident buf alive [] = alive"
| "ping_listen ident buf alive (Datagram d # es) =
     (let (n, buf') = recv_into d buf
      in ping_listen ident buf'
           (case reply_source ident n buf' of Some ip \<Rightarrow> List.insert ip alive | None \<Rightarrow> alive) es)"
| "ping_listen ident buf alive (RecvErr late # es) =
     (if late then alive else ping_listen ident buf alive es)"

text \<open>
  The sweep returns the packets it sent and its result; \<open>order\<close> stands for the iteration order
  of the set of addresses.
\<close>

definition ping_sweep_sync ::
  "bool \<Rightarrow> u32 \<Rightarrow> ipv4 list \<Rightarrow> recv list \<Rightarrow> nat list \<Rightarrow> (ipv4 \<times> bytes) list \<times> ipv4 list option" where
  "ping_sweep_sync opened pid hosts events order =
     (if \<not> opened then ([], None)
      else let ident = ucast (pid AND 0xFFFF);
               sent = map (\<lambda>(seq, h). (h, echo_request ident (word_of_nat seq))) (enumerate 0 hosts);
               alive = ping_listen ident (replicate icmp_buf_len 0) [] events
           in (sent, Some (pick_order order alive)))"

text \<open>\<open>spawn_blocking(..).await.ok().flatten()\<close>: a panic of the blocking task counts as \<open>None\<close>.\<close>

definition ping_sweep :: "ipv4 list option outcome \<Rightarrow> ipv4 list option" where
  "ping_sweep joined = (case joined of Returns r \<Rightarrow> r | Panics \<Rightarrow> None)"

section \<open>What a datagram means\<close>

text \<open>The datagrams the loop sees before it stops, and when one is an echo reply to this process.\<close>

fun heard :: "recv list \<Rightarrow> bytes list" where
  "heard [] = []"
| "heard (Datagram d # es) = d # heard es"
| "heard (RecvErr late # es) = (if late then [] else heard es)"

definition echo_reply_from :: "u16 \<Rightarrow> bytes \<Rightarrow> ipv4 \<Rightarrow> bool" where
  "echo_reply_from ident d ip =
     (28 \<le> length d \<and> take 4 (drop 12 d) = octets ip \<and> d ! 20 = 0 \<and>
      take 2 (drop 24 d) = to_be16 ident \<and> \<not> ipv4_is_loopback ip)"

section \<open>Facts\<close>

lemma length_echo_request [simp]: "length (echo_request ident seq) = 8"
  by (simp add: echo_request_def Let_def put_def to_be16_def)

text \<open>
  Every echo request is well formed: eight bytes, type 8 and code 0, identifier and sequence
  number in network order at their places, and a checksum under which the whole message verifies.
\<close>

theorem echo_request_wellformed:
  "length (echo_request ident seq) = 8 \<and> take 2 (echo_request ident seq) = [8, 0] \<and>
   drop 4 (echo_request ident seq) = to_be16 ident @ to_be16 seq \<and>
   checksum (echo_request ident seq) = 0"
proof -
  let ?p = "put 6 (to_be16 seq) (put 4 (to_be16 ident) [8, 0, 0, 0, 0, 0, 0, 0])"
  have p: "?p = [8, 0, 0, 0] @ to_be16 ident @ to_be16 seq"
    by (simp add: put_def to_be16_def)
  have "checksum (put 2 (to_be16 (checksum ?p)) ?p) = 0"
    by (rule icmp_ck.insert_verifies) (simp_all add: p)
  then show ?thesis
    by (simp add: echo_request_def Let_def p) (simp add: put_def to_be16_def)
qed

lemma reply_source_iff:
  assumes "length buf = icmp_buf_len" "recv_into d buf = (n, buf')"
  shows "reply_source ident n buf' = Some ip \<longleftrightarrow> echo_reply_from ident d ip"
proof -
  have n: "n = min (length d) 28" and buf': "buf' = take n d @ drop n buf"
    using assms by (auto simp: recv_into_def Let_def icmp_buf_len_def)
  show ?thesis
  proof (cases "28 \<le> length d")
    case False
    then show ?thesis
      using n by (simp add: reply_source_def echo_reply_from_def)
  next
    case True
    then have n28: "n = 28" and nth: "\<And>k. k < 28 \<Longrightarrow> buf' ! k = d ! k"
      using n buf' by (simp_all add: nth_append)
    have icmp: "drop 20 buf' ! k = d ! (20 + k)" if "k < 8" for k
      using that nth [of "20 + k"] True n buf' assms(1) by (simp add: icmp_buf_len_def)
    have "take 2 (drop 24 d) = to_be16 ident \<longleftrightarrow> be16 (d ! 24) (d ! 25) = ident"
      using True to_be16_be16 [of "d ! 24" "d ! 25"] be16_to_be16 [of ident]
      by (auto simp: take_2_drop to_be16_def)
    moreover have "take 4 (drop 12 d) = octets ip \<longleftrightarrow> Ipv4 (d ! 12) (d ! 13) (d ! 14) (d ! 15) = ip"
      using True by (cases ip) (simp add: take_4_drop)
    moreover have "reply_source ident n buf' =
      (if d ! 20 = 0 \<and> be16 (d ! 24) (d ! 25) = ident \<and>
          \<not> ipv4_is_loopback (Ipv4 (d ! 12) (d ! 13) (d ! 14) (d ! 15))
       then Some (Ipv4 (d ! 12) (d ! 13) (d ! 14) (d ! 15)) else None)"
      by (simp add: reply_source_def n28 nth icmp Let_def)
    ultimately show ?thesis
      using True by (cases ip) (auto simp: echo_reply_from_def)
  qed
qed

lemma length_recv_into: "recv_into d buf = (n, buf') \<Longrightarrow> length buf' = length buf"
  by (auto simp: recv_into_def Let_def)

lemma ping_listen_set:
  assumes "length buf = icmp_buf_len"
  shows "set (ping_listen ident buf alive es) =
    set alive \<union> {ip. \<exists>d \<in> set (heard es). echo_reply_from ident d ip}"
  using assms
proof (induction ident buf alive es rule: ping_listen.induct)
  case (2 ident buf alive d es)
  obtain n buf' where r: "recv_into d buf = (n, buf')" by force
  have "length buf' = icmp_buf_len"
    using 2(2) length_recv_into [OF r] by simp
  note IH = 2(1) [OF r [symmetric] refl this]
  have "reply_source ident n buf' = Some ip \<longleftrightarrow> echo_reply_from ident d ip" for ip
    using 2(2) r by (rule reply_source_iff)
  then have "{ip. echo_reply_from ident d ip} = set_option (reply_source ident n buf')"
    by (auto simp: elem_set)
  moreover have "set (ping_listen ident buf alive (Datagram d # es)) =
      (set alive \<union> set_option (reply_source ident n buf')) \<union>
      {ip. \<exists>d \<in> set (heard es). echo_reply_from ident d ip}"
    using IH by (auto simp: r split: option.splits)
  ultimately show ?case by auto
qed auto

lemma ping_listen_distinct: "distinct alive \<Longrightarrow> distinct (ping_listen ident buf alive es)"
  by (induction ident buf alive es rule: ping_listen.induct) (auto split: prod.splits option.splits)

lemma ping_sweep_alive:
  assumes "ping_sweep_sync opened pid hosts events order = (sent, Some alive)"
  shows "set alive = {ip. \<exists>d \<in> set (heard events). echo_reply_from (ucast (pid AND 0xFFFF)) d ip}"
  using assms by (auto simp: ping_sweep_sync_def Let_def ping_listen_set icmp_buf_len_def split: if_splits)

text \<open>
  C36.  The sweep answers \<open>None\<close> exactly when the raw socket does not open.  Otherwise it sends one
  request to every host in order, the sequence number counting modulo 65536, and returns, without
  duplicates, exactly the addresses of the echo replies to its identifier that arrive before the
  deadline; what an earlier, longer datagram left in the receive buffer plays no part.
\<close>

theorem ping_sweep_sync_spec:
  "case ping_sweep_sync opened pid hosts events order of
     (sent, None) \<Rightarrow> \<not> opened \<and> sent = []
   | (sent, Some alive) \<Rightarrow>
       opened \<and> map fst sent = hosts \<and>
       (\<forall>i < length hosts. snd (sent ! i) = echo_request (ucast (pid AND 0xFFFF)) (word_of_nat i)) \<and>
       distinct alive \<and>
       set alive = {ip. \<exists>d \<in> set (heard events). echo_reply_from (ucast (pid AND 0xFFFF)) d ip}"
  by (auto simp: ping_sweep_sync_def Let_def ping_listen_set ping_listen_distinct icmp_buf_len_def
      nth_enumerate_eq enumerate_eq_zip split_def comp_def intro!: nth_equalityI)

text \<open>A reply of 10.0.0.7 to process 7, with an IP header of twenty bytes.\<close>

definition sample_reply :: bytes where
  "sample_reply = replicate 12 0 @ [10, 0, 0, 7, 10, 0, 0, 2] @ [0, 0, 0, 0, 0, 7, 0, 0]"

lemma sample_reply_from: "echo_reply_from (ucast ((7 :: u32) AND 0xFFFF)) sample_reply (Ipv4 10 0 0 7)"
  by code_simp

theorem ping_sweep_sync_spec_witness:
  "\<exists>sent alive. ping_sweep_sync True 7 [Ipv4 10 0 0 7] [Datagram sample_reply] [] = (sent, Some alive) \<and>
     map fst sent = [Ipv4 10 0 0 7] \<and> Ipv4 10 0 0 7 \<in> set alive"
  using ping_sweep_sync_spec [where opened = True and pid = 7 and hosts = "[Ipv4 10 0 0 7]"
      and events = "[Datagram sample_reply]" and order = "[]"] sample_reply_from
  by (auto split: prod.splits option.splits)

end
