(* ===== verification/Syn_Scan.thy ===== *)
theory Syn_Scan
  imports Icmp
begin

text \<open>
  \<open>src/net/syn_scan.rs\<close>, the Linux implementation: the crafted SYN packets with their two
  checksums, the map from source ports to targets, the classification of what the raw socket
  delivers, and the scan that puts them together.  The receive loop has the shape of the one in
  \<open>Icmp\<close> and shares its environment.
\<close>

section \<open>Packets\<close>

definition ones_complement_sum :: "bytes \<Rightarrow> u16" where
  "ones_complement_sum data = NOT (ucast (fold_carries (add_chunks 0 data)))"

interpretation syn_ck: internet_checksum ones_complement_sum
  by (rule fold_add_chunks_law) (rule ones_complement_sum_def)

definition tcp_checksum :: "ipv4 \<Rightarrow> ipv4 \<Rightarrow> bytes \<Rightarrow> u16" where
  "tcp_checksum src dst tcp_hdr =
     (let len = word_of_nat (length tcp_hdr);
          pseudo = replicate 12 0;
          pseudo = put 0 (octets src) pseudo;
          pseudo = put 4 (octets dst) pseudo;
          pseudo = pseudo[9 := 6];
          pseudo = put 10 (to_be16 len) pseudo
      in ones_complement_sum (pseudo @ tcp_hdr))"

definition build_syn :: "ipv4 \<Rightarrow> ipv4 \<Rightarrow> u16 \<Rightarrow> u16 \<Rightarrow> u32 \<Rightarrow> bytes" where
  "build_syn src_ip dst_ip src_port dst_port seq =
     (let pkt = replicate 40 0;
          pkt = pkt[0 := 0x45];
          pkt = put 2 (to_be16 40) pkt;
          pkt = pkt[6 := 0x40];
          pkt = pkt[8 := 64];
          pkt = pkt[9 := 6];
          pkt = put 12 (octets src_ip) pkt;
          pkt = put 16 (octets dst_ip) pkt;
          ip_ck = ones_complement_sum (take 20 pkt);
          pkt = put 10 (to_be16 ip_ck) pkt;
          pkt = put 20 (to_be16 src_port) pkt;
          pkt = put 22 (to_be16 dst_port) pkt;
          pkt = put 24 (to_be32 seq) pkt;
          pkt = pkt[32 := 0x50];
          pkt = pkt[33 := 0x02];
          pkt = put 34 (to_be16 65535) pkt;
          tcp_ck = tcp_checksum src_ip dst_ip (drop 20 pkt)
      in put 36 (to_be16 tcp_ck) pkt)"

section \<open>The scan\<close>

text \<open>The source port range is derived from the process id; both additions wrap in 16 bits.\<close>

definition base_port :: "u32 \<Rightarrow> u16" where
  "base_port pid = 40000 + ucast (pid AND 0x0FFF)"

text \<open>Collecting the pairs into a \<open>HashMap\<close>: a later pair with the same key replaces an earlier one.\<close>

definition port_map :: "u16 \<Rightarrow> (ipv4 \<times> u16) list \<Rightarrow> (u16 \<rightharpoonup> ipv4 \<times> u16)" where
  "port_map base targets =
     map_of (rev (map (\<lambda>(i, t). (base + word_of_nat i, t)) (enumerate 0 targets)))"

definition syn_buf_len :: nat where
  "syn_buf_len = 80"

definition syn_classify ::
  "(u16 \<rightharpoonup> ipv4 \<times> u16) \<Rightarrow> nat \<Rightarrow> bytes \<Rightarrow> (ipv4 \<times> u16) option outcome" where
  "syn_classify ports n buf =
     (if n \<ge> 40
      then (let ihl = unat (buf ! 0 AND 0x0F) * 4
            in if n < ihl + 20 then Returns None
               else (case slice ihl (ihl + 20) buf of
                       Panics \<Rightarrow> Panics
                     | Returns tcp \<Rightarrow>
                         if tcp ! 13 \<noteq> 0x12 then Returns None
                         else (case ports (be16 (tcp ! 2) (tcp ! 3)) of
                                 None \<Rightarrow> Returns None
                               | Some target \<Rightarrow>
                                   (let src_ip = Ipv4 (buf ! 12) (buf ! 13) (buf ! 14) (buf ! 15)
                                    in Returns (if src_ip = fst target then Some target else None)))))
      else Returns None)"

fun syn_listen ::
  "(u16 \<rightharpoonup> ipv4 \<times> u16) \<Rightarrow> bytes \<Rightarrow> (ipv4 \<times> u16) list \<Rightarrow> recv list \<Rightarrow>
   (ipv4 \<times> u16) list outcome" where
  "syn_listen ports buf opens [] = Returns opens"
| "syn_listen ports buf opens (Datagram d # es) =
     (let (n, buf') = recv_into d buf
      in (case syn_classify ports n buf' of
            Panics \<Rightarrow> Panics
          | Returns None \<Rightarrow> syn_listen ports buf' opens es
          | Returns (Some t) \<Rightarrow> syn_listen ports buf' (List.insert t opens) es))"
| "syn_listen ports buf opens (RecvErr late # es) =
     (if late then Returns opens else syn_listen ports buf opens es)"

definition syn_packets :: "u16 \<Rightarrow> ipv4 \<Rightarrow> (ipv4 \<times> u16) list \<Rightarrow> (ipv4 \<times> bytes) list" where
  "syn_packets base src_ip targets =
     map (\<lambda>(i, dst_ip, dst_port).
            (dst_ip, build_syn src_ip dst_ip (base + word_of_nat i) dst_port (word_of_nat i * 7919)))
         (enumerate 0 targets)"

definition syn_scan ::
  "bool \<Rightarrow> u32 \<Rightarrow> ipv4 \<Rightarrow> (ipv4 \<times> u16) list \<Rightarrow> recv list \<Rightarrow> nat list \<Rightarrow>
   ((ipv4 \<times> bytes) list \<times> (ipv4 \<times> u16) list option) outcome" where
  "syn_scan opened pid src_ip targets events order =
     (if targets = [] then Returns ([], Some [])
      else if \<not> opened then Returns ([], None)
      else let base = base_port pid;
               ports = port_map base targets;
               sent = syn_packets base src_ip targets
           in outcome_map (\<lambda>opens. (sent, Some (pick_order order opens)))
                (syn_listen ports (replicate syn_buf_len 0) [] events))"

text \<open>
  Which of the two \<open>os\<close> modules a build has: the stub of the other systems sends nothing and finds no
  raw socket.  For a scan with targets this is the Linux code with a socket that does not open.
\<close>

definition syn_scan_stub ::
  "ipv4 \<Rightarrow> (ipv4 \<times> u16) list \<Rightarrow> ((ipv4 \<times> bytes) list \<times> (ipv4 \<times> u16) list option) outcome" where
  "syn_scan_stub src_ip targets = Returns ([], None)"

definition os_syn_scan ::
  "bool \<Rightarrow> bool \<Rightarrow> u32 \<Rightarrow> ipv4 \<Rightarrow> (ipv4 \<times> u16) list \<Rightarrow> recv list \<Rightarrow> nat list \<Rightarrow>
   ((ipv4 \<times> bytes) list \<times> (ipv4 \<times> u16) list option) outcome" where
  "os_syn_scan linux opened pid src_ip targets events order =
     (if linux then syn_scan opened pid src_ip targets events order
      else syn_scan_stub src_ip targets)"

lemma os_syn_scan_stub:
  "targets \<noteq> [] \<Longrightarrow> os_syn_scan False opened pid src_ip targets events order =
     syn_scan False pid src_ip targets events order"
  by (simp add: os_syn_scan_def syn_scan_stub_def syn_scan_def)

section \<open>What a datagram means\<close>

text \<open>
  The datagram is a SYN-ACK from the address to the local port: its IP header length field says
  where the TCP header starts, and both headers are complete.
\<close>

definition ip_header_len :: "bytes \<Rightarrow> nat" where
  "ip_header_len d = unat (d ! 0 AND 0x0F) * 4"

definition syn_ack_from :: "bytes \<Rightarrow> ipv4 \<Rightarrow> u16 \<Rightarrow> bool" where
  "syn_ack_from d ip local_port =
     (40 \<le> length d \<and> ip_header_len d + 20 \<le> length d \<and> take 4 (drop 12 d) = octets ip \<and>
      d ! (ip_header_len d + 13) = 0x12 \<and>
      take 2 (drop (ip_header_len d + 2) d) = to_be16 local_port)"

section \<open>Facts about the packets\<close>

text \<open>
  A SYN packet is what the target's stack accepts: forty bytes, IPv4 with a twenty byte
  header, protocol TCP, the two addresses, the two ports, the sequence number and the SYN flag at
  their places, and both the IP header checksum and the TCP checksum over the pseudo header verify.
\<close>

theorem build_syn_wellformed:
  "let p = build_syn src dst sport dport seq
   in length p = 40 \<and> take 2 p = [0x45, 0] \<and> take 2 (drop 8 p) = [64, 6] \<and>
      take 8 (drop 12 p) = octets src @ octets dst \<and>
      take 8 (drop 20 p) = to_be16 sport @ to_be16 dport @ to_be32 seq \<and>
      p ! 33 = 0x02 \<and>
      ones_complement_sum (take 20 p) = 0 \<and> tcp_checksum src dst (drop 20 p) = 0"
proof -
  obtain a b c d where src: "src = Ipv4 a b c d" by (cases src)
  obtain e f g h where dst: "dst = Ipv4 e f g h" by (cases dst)
  define ip where "ip = [0x45, 0, 0, 40, 0, 0, 0x40, 0, 64, 6, 0, 0, a, b, c, d, e, f, g, h :: u8]"
  define tcp where "tcp = to_be16 sport @ to_be16 dport @ to_be32 seq @
    [0, 0, 0, 0, 0x50, 0x02] @ to_be16 65535 @ [0, 0, 0, 0]"
  define pseudo where "pseudo = [a, b, c, d, e, f, g, h, 0, 6, 0, 20 :: u8]"
  have z12: "replicate 12 (0 :: u8) = [0, 0, 0, 0, 0, 0, 0, 0, 0, 0, 0, 0]"
    by (simp add: numeral_eq_Suc)
  have z40: "replicate 40 (0 :: u8) = [0, 0, 0, 0, 0, 0, 0, 0, 0, 0, 0, 0, 0, 0, 0, 0, 0, 0, 0, 0,
      0, 0, 0, 0, 0, 0, 0, 0, 0, 0, 0, 0, 0, 0, 0, 0, 0, 0, 0, 0]"
    by (simp add: numeral_eq_Suc)
  have tcp_ck: "tcp_checksum src dst t = ones_complement_sum (pseudo @ t)" if "length t = 20" for t
    using that by (simp add: tcp_checksum_def Let_def src dst put_eval to_be16_def pseudo_def z12
        update_eval)
  have build: "build_syn src dst sport dport seq =
      put 10 (to_be16 (ones_complement_sum ip)) ip @
      put 16 (to_be16 (tcp_checksum src dst tcp)) tcp"
    by (simp add: build_syn_def Let_def src dst put_eval to_be16_def to_be32_def ip_def tcp_def z40
        update_eval)
  have ip_ok: "ones_complement_sum (put 10 (to_be16 (ones_complement_sum ip)) ip) = 0"
    by (rule syn_ck.insert_verifies) (simp_all add: ip_def)
  have "ones_complement_sum (put 28 (to_be16 (ones_complement_sum (pseudo @ tcp))) (pseudo @ tcp)) = 0"
    by (rule syn_ck.insert_verifies) (simp_all add: pseudo_def tcp_def to_be16_def to_be32_def)
  moreover have len: "length ip = 20" "length tcp = 20"
    by (simp_all add: ip_def tcp_def to_be16_def to_be32_def)
  moreover have "put 28 w (pseudo @ tcp) = pseudo @ put 16 w tcp" for w
    by (simp add: pseudo_def put_eval)
  ultimately have tcp_ok: "tcp_checksum src dst (put 16 (to_be16 (tcp_checksum src dst tcp)) tcp) = 0"
    by (simp add: tcp_ck)
  have heads: "take 2 (put 10 (to_be16 w) ip) = [0x45, 0]" "take 2 (drop 8 (put 10 (to_be16 w) ip)) = [64, 6]"
    "drop 12 (put 10 (to_be16 w) ip) = octets src @ octets dst"
    "take 8 (put 16 (to_be16 w) tcp) = to_be16 sport @ to_be16 dport @ to_be32 seq"
    "put 16 (to_be16 w) tcp ! 13 = 0x02" for w
    by (simp_all add: ip_def tcp_def src dst put_eval to_be16_def to_be32_def)
  show ?thesis
    by (simp add: build Let_def heads len ip_ok tcp_ok nth_append)
qed

section \<open>Facts about the classification\<close>

lemma header_len_le: "unat (x AND 0x0F :: u8) * 4 \<le> 60"
proof -
  have "x AND 0x0F \<le> 0x0F" by (rule word_and_le1)
  then have "unat (x AND 0x0F) \<le> unat (0x0F :: u8)"
    by (simp only: word_le_nat_alt)
  then show ?thesis by simp
qed

text \<open>
  The classification of a datagram that was just received: the slice of the TCP header is always
  inside the buffer, and the verdict depends on the received bytes only.
\<close>

lemma syn_classify_received:
  assumes "length buf = syn_buf_len" "recv_into d buf = (n, buf')"
  shows "\<exists>r. syn_classify ports n buf' = Returns r \<and>
    (\<forall>t. r = Some t \<longleftrightarrow> (\<exists>p. ports p = Some t \<and> syn_ack_from d (fst t) p))"
proof -
  have n: "n = min (length d) 80" and buf': "buf' = take n d @ drop n buf" and len: "length buf' = 80"
    using assms by (auto simp: recv_into_def Let_def syn_buf_len_def)
  have nth: "buf' ! k = d ! k" if "k < n" for k
    using that n buf' by (simp add: nth_append)
  let ?h = "ip_header_len d"
  have h: "?h \<le> 60" unfolding ip_header_len_def by (rule header_len_le)
  show ?thesis
  proof (cases "40 \<le> n \<and> ?h + 20 \<le> n")
    case False
    moreover have "syn_classify ports n buf' = Returns None"
      using False nth [of 0] by (auto simp: syn_classify_def ip_header_len_def Let_def)
    ultimately show ?thesis
      using h n by (auto simp: syn_ack_from_def)
  next
    case True
    have h': "unat (buf' ! 0 AND 0x0F) * 4 = ?h"
      using True nth [of 0] by (simp add: ip_header_len_def)
    have tcp: "take 20 (drop ?h buf') ! k = d ! (?h + k)" if "k < 20" for k
      using that True nth [of "?h + k"] len h by simp
    have sl: "slice ?h (?h + 20) buf' = Returns (take 20 (drop ?h buf'))"
      using h len by (simp add: slice_def)
    define src where "src = Ipv4 (d ! 12) (d ! 13) (d ! 14) (d ! 15)"
    define lport where "lport = be16 (d ! (?h + 2)) (d ! (?h + 3))"
    have "syn_classify ports n buf' = Returns
      (if d ! (?h + 13) \<noteq> 0x12 then None
       else case ports lport of None \<Rightarrow> None
            | Some t \<Rightarrow> if src = fst t then Some t else None)"
      using True unfolding syn_classify_def Let_def h' sl
      by (simp add: tcp nth src_def lport_def del: nth_take nth_drop split: option.splits)
    moreover have "syn_ack_from d ip q \<longleftrightarrow> d ! (?h + 13) = 0x12 \<and> src = ip \<and> lport = q" for ip q
    proof -
      have "take 2 (drop (?h + 2) d) = to_be16 q \<longleftrightarrow> lport = q"
        using True n be16_to_be16 [of q] to_be16_be16 [of "d ! (?h + 2)" "d ! (?h + 3)"]
        by (auto simp: take_2_drop lport_def to_be16_def numeral_3_eq_3)
      moreover have "take 4 (drop 12 d) = octets ip \<longleftrightarrow> src = ip"
        using True n by (cases ip) (simp add: take_4_drop src_def)
      ultimately show ?thesis
        using True n by (auto simp: syn_ack_from_def)
    qed
    ultimately show ?thesis by (auto split: option.splits if_splits)
  qed
qed

section \<open>Facts about the scan\<close>

lemma syn_listen_spec:
  assumes "length buf = syn_buf_len" "distinct opens"
  shows "\<exists>res. syn_listen ports buf opens es = Returns res \<and> distinct res \<and>
    set res = set opens \<union>
      {t. \<exists>d \<in> set (heard es). \<exists>p. ports p = Some t \<and> syn_ack_from d (fst t) p}"
  using assms
proof (induction ports buf opens es rule: syn_listen.induct)
  case (2 ports buf opens d es)
  obtain n buf' where r: "recv_into d buf = (n, buf')" by force
  have len: "length buf' = syn_buf_len"
    using 2(3) length_recv_into [OF r] by simp
  obtain v where v: "syn_classify ports n buf' = Returns v"
    "\<And>t. v = Some t \<longleftrightarrow> (\<exists>p. ports p = Some t \<and> syn_ack_from d (fst t) p)"
    using syn_classify_received [OF 2(3) r] by blast
  show ?case
  proof (cases v)
    case None
    with v(2) have "\<nexists>t p. ports p = Some t \<and> syn_ack_from d (fst t) p" by blast
    then show ?thesis
      using 2(1) [OF r [symmetric] refl _ _ len 2(4)] v(1) None by (auto simp: r)
  next
    case (Some t)
    then have t: "{t. \<exists>p. ports p = Some t \<and> syn_ack_from d (fst t) p} = {t}"
      unfolding v(2) [symmetric] by auto
    have "distinct (List.insert t opens)" using 2(4) by simp
    then obtain res where res: "syn_listen ports buf' (List.insert t opens) es = Returns res"
      "distinct res" "set res = insert t (set opens) \<union>
        {t. \<exists>d \<in> set (heard es). \<exists>p. ports p = Some t \<and> syn_ack_from d (fst t) p}"
      using 2(2) [OF r [symmetric] refl _ _ len] v(1) Some by auto
    have "syn_listen ports buf opens (Datagram d # es) = Returns res"
      using res(1) v(1) Some by (simp add: r)
    moreover have "set res = set opens \<union> ({t. \<exists>p. ports p = Some t \<and> syn_ack_from d (fst t) p} \<union>
        {t. \<exists>d \<in> set (heard es). \<exists>p. ports p = Some t \<and> syn_ack_from d (fst t) p})"
      unfolding t res(3) by simp
    ultimately show ?thesis
      using res(2) by auto
  qed
qed auto

lemma port_offset_inj:
  assumes "i < 65536" "j < 65536" "base + word_of_nat i = (base + word_of_nat j :: u16)"
  shows "i = j"
proof -
  have "unat (word_of_nat i :: u16) = unat (word_of_nat j :: u16)"
    using assms(3) by simp
  then show ?thesis
    using assms(1,2) by (simp add: unat_of_nat)
qed

text \<open>Offsets less than 65536 apart have different ports, and 65536 apart the same.\<close>

lemma port_offset_near:
  assumes "i \<le> n" "n < i + 65536" "base + word_of_nat i = (base + word_of_nat n :: u16)"
  shows "i = n"
proof -
  have "unat (word_of_nat i :: u16) = unat (word_of_nat n :: u16)"
    using assms(3) by simp
  then have "i mod 65536 = n mod 65536"
    by (simp add: unat_of_nat)
  then have "65536 dvd n - i"
    using mod_eq_dvd_iff_nat [OF assms(1), of 65536] by simp
  then have "n - i = 0"
    using assms(2) dvd_imp_le [of 65536 "n - i"] by linarith
  then show ?thesis
    using assms(1) by simp
qed

lemma port_offset_far:
  assumes "65536 \<le> n"
  shows "base + word_of_nat (n - 65536) = (base + word_of_nat n :: u16)"
proof -
  have "(n - 65536) mod 65536 = n mod 65536"
    using assms by (simp add: le_mod_geq)
  then have "word_of_nat (n - 65536) = (word_of_nat n :: u16)"
    by (simp add: word_unat_eq_iff unat_of_nat)
  then show ?thesis
    by simp
qed

lemma port_map_append:
  "port_map base (ts @ [t]) = (port_map base ts)(base + word_of_nat (length ts) \<mapsto> t)"
  by (simp add: port_map_def enumerate_append_eq)

text \<open>
  The source ports wrap: of the targets that are a multiple of 65536 apart the map keeps the last
  one, so that the last 65536 targets have an entry and no others.
\<close>

lemma port_map_iff:
  "port_map base targets p = Some t \<longleftrightarrow>
    (\<exists>i < length targets. length targets \<le> i + 65536 \<and> p = base + word_of_nat i \<and> t = targets ! i)"
proof (induction targets arbitrary: t rule: rev_induct)
  case Nil
  then show ?case by (simp add: port_map_def)
next
  case (snoc x ts)
  let ?n = "length ts" and ?port = "\<lambda>i. base + word_of_nat i :: u16"
  show ?case
  proof (cases "p = ?port ?n")
    case True
    have "(\<exists>i < Suc ?n. Suc ?n \<le> i + 65536 \<and> p = ?port i \<and> t = (ts @ [x]) ! i) \<longleftrightarrow> t = x"
    proof
      assume "\<exists>i < Suc ?n. Suc ?n \<le> i + 65536 \<and> p = ?port i \<and> t = (ts @ [x]) ! i"
      then obtain i where i: "i < Suc ?n" "Suc ?n \<le> i + 65536" "p = ?port i" "t = (ts @ [x]) ! i"
        by blast
      then have "i = ?n"
        by (intro port_offset_near [of i ?n base]) (simp_all add: True)
      then show "t = x" using i(4) by simp
    next
      assume "t = x"
      then show "\<exists>i < Suc ?n. Suc ?n \<le> i + 65536 \<and> p = ?port i \<and> t = (ts @ [x]) ! i"
        by (intro exI [of _ ?n]) (simp add: True)
    qed
    then show ?thesis
      using True by (auto simp: port_map_append)
  next
    case False
    then have "?n \<le> i + 65536 \<longleftrightarrow> Suc ?n \<le> i + 65536" if "p = ?port i" for i
      using port_offset_far [of ?n base] that by (cases "?n = i + 65536") auto
    then show ?thesis
      using False by (auto simp: port_map_append snoc.IH nth_append less_Suc_eq)
  qed
qed

text \<open>What a scan whose socket opens returns.\<close>

lemma syn_scan_opens:
  assumes "targets \<noteq> []"
  obtains opens where
    "syn_scan True pid src targets events order = Returns (syn_packets (base_port pid) src targets, Some opens)"
    "distinct opens"
    "set opens = {targets ! i | i. i < length targets \<and> length targets \<le> i + 65536 \<and>
       (\<exists>d \<in> set (heard events). syn_ack_from d (fst (targets ! i)) (base_port pid + word_of_nat i))}"
proof -
  let ?ports = "port_map (base_port pid) targets"
  obtain res where res: "syn_listen ?ports (replicate syn_buf_len 0) [] events = Returns res"
    "distinct res"
    "set res = {t. \<exists>d \<in> set (heard events). \<exists>p. ?ports p = Some t \<and> syn_ack_from d (fst t) p}"
    using syn_listen_spec [of "replicate syn_buf_len 0" "[]" ?ports events] by auto
  have "set res = {targets ! i | i. i < length targets \<and> length targets \<le> i + 65536 \<and>
      (\<exists>d \<in> set (heard events). syn_ack_from d (fst (targets ! i)) (base_port pid + word_of_nat i))}"
    unfolding res(3) port_map_iff by blast
  then show thesis
    using that [of "pick_order order res"] assms res(1,2)
    by (simp add: syn_scan_def outcome_map_def Let_def)
qed

text \<open>
  C35.  The SYN scan never panics, whatever the socket delivers.  It answers \<open>None\<close> only when the
  raw socket does not open; otherwise it sends target \<open>i\<close> one SYN from source port \<open>base + i\<close>, and
  its result is, without duplicates, exactly those of the last 65536 targets whose own address
  answered their own source port with a SYN-ACK before the deadline: the ports wrap, and a target
  before these is never found.
\<close>

theorem syn_scan_spec:
  "\<exists>sent res. syn_scan opened pid src targets events order = Returns (sent, res) \<and>
    (res = None \<longleftrightarrow> targets \<noteq> [] \<and> \<not> opened) \<and>
    (\<forall>opens. res = Some opens \<longrightarrow>
       distinct opens \<and>
       sent = map (\<lambda>i. (fst (targets ! i),
          build_syn src (fst (targets ! i)) (base_port pid + word_of_nat i) (snd (targets ! i))
            (word_of_nat i * 7919))) [0..<length targets] \<and>
       set opens = {targets ! i | i. i < length targets \<and> length targets \<le> i + 65536 \<and>
          (\<exists>d \<in> set (heard events). syn_ack_from d (fst (targets ! i)) (base_port pid + word_of_nat i))})"
proof (cases "targets = [] \<or> \<not> opened")
  case True
  then show ?thesis by (auto simp: syn_scan_def)
next
  case False
  then have t: "targets \<noteq> []" and opened by simp_all
  have "syn_packets (base_port pid) src targets = map (\<lambda>i. (fst (targets ! i),
      build_syn src (fst (targets ! i)) (base_port pid + word_of_nat i) (snd (targets ! i))
        (word_of_nat i * 7919))) [0..<length targets]"
    by (rule nth_equalityI) (auto simp: syn_packets_def nth_enumerate_eq split: prod.splits)
  with \<open>opened\<close> show ?thesis
    using t by (auto intro: syn_scan_opens [OF t, of pid src events order])
qed

text \<open>A SYN-ACK of the target 10.0.0.1:80 to the first source port of process 7.\<close>

definition sample_syn_ack :: bytes where
  "sample_syn_ack =
     [0x45, 0, 0, 40, 0, 0, 0x40, 0, 64, 6, 0, 0, 10, 0, 0, 1, 10, 0, 0, 2] @
     [0, 80, 0x9C, 0x47, 0, 0, 0, 0, 0, 0, 0, 1, 0x50, 0x12, 0, 0, 0, 0, 0, 0]"

lemma sample_syn_ack_from: "syn_ack_from sample_syn_ack (Ipv4 10 0 0 1) (base_port 7 + word_of_nat 0)"
  by (simp add: syn_ack_from_def sample_syn_ack_def ip_header_len_def base_port_def to_be16_def)

theorem syn_scan_spec_witness:
  "\<exists>sent opens. syn_scan True 7 (Ipv4 10 0 0 2) [(Ipv4 10 0 0 1, 80)] [Datagram sample_syn_ack] []
     = Returns (sent, Some opens) \<and> (Ipv4 10 0 0 1, 80) \<in> set opens"
  using syn_scan_spec [of True 7 "Ipv4 10 0 0 2" "[(Ipv4 10 0 0 1, 80)]" "[Datagram sample_syn_ack]" "[]"]
    sample_syn_ack_from by auto

end
