(* ===== verification/Tcp_Scan.thy ===== *)
theory Tcp_Scan
  imports Tcp_Probe Ip_Net Arp Syn_Scan
begin

text \<open>
  The second half of \<open>src/tcp/scan.rs\<close>: the local subnets, the priority addresses, batches of
  probes under the semaphore, and the scan of several subnets.  The network, the token and the completion order of the
  tasks are the environment.
\<close>

section \<open>Local subnets\<close>

text \<open>An entry of \<open>if_addrs::get_if_addrs\<close>: whether it is a loopback, and its IPv4 address and netmask.\<close>

record iface =
  if_loopback :: bool
  if_v4 :: "(ipv4 \<times> ipv4) option"

definition unwrap_or_net :: "'net \<Rightarrow> 'net option \<Rightarrow> 'net" where
  "unwrap_or_net n x = (case x of None \<Rightarrow> n | Some m \<Rightarrow> m)"

definition iface_cidr :: "'net ipnet_api \<Rightarrow> 'net \<Rightarrow> u8 \<Rightarrow> iface \<Rightarrow> string option" where
  "iface_cidr api link_local max_prefix i =
     (case if_v4 i of
        None \<Rightarrow> None
      | Some (ip, netmask) \<Rightarrow>
          (case net_with_netmask api ip netmask of
             None \<Rightarrow> None
           | Some net \<Rightarrow>
               (if net_contains api link_local (IpV4 ip) then None
                else
                  (let net = (if net_prefix_len api net < max_prefix
                              then unwrap_or_net net (net_new api ip max_prefix) else net)
                   in case net_v4_network api net of
                        None \<Rightarrow> None
                      | Some nw \<Rightarrow>
                          Some (show_ipv4 nw @ ''/'' @ show_dec (unat (net_prefix_len api net)))))))"

text \<open>\<open>ifaces\<close> is \<open>None\<close> when the interfaces cannot be enumerated.\<close>

definition local_subnets ::
  "'net ipnet_api \<Rightarrow> iface list option \<Rightarrow> u8 \<Rightarrow> (dafydd_error + string list) outcome" where
  "local_subnets api ifaces max_prefix =
     (if \<not> (16 \<le> max_prefix \<and> max_prefix \<le> 32)
      then Returns (Inl (InvalidSubnet (''subnet prefix /'' @ show_dec (unat max_prefix) @
             '' out of range; must be /16..=/32 (max 65k hosts)'')))
      else
        (case ifaces of
           None \<Rightarrow> Returns (Inr [])
         | Some entries \<Rightarrow>
             (case net_parse api ''169.254.0.0/16'' of
                Inl _ \<Rightarrow> Panics
              | Inr link_local \<Rightarrow>
                  Returns (Inr (keep_first {} (\<lambda>s. s)
                    (List.map_filter (iface_cidr api link_local max_prefix)
                      (filter (\<lambda>i. \<not> if_loopback i) entries)))))))"

section \<open>Environment and state\<close>

text \<open>A UDP socket: whether it binds and connects, and the local address it then has.\<close>

record udp_probe =
  up_bind_ok :: bool
  up_connect_ok :: bool
  up_local_addr :: "sock_addr option"

text \<open>
  \<open>dial n a\<close> is the peer at \<open>a\<close> as the \<open>n\<close>-th probe finds it, \<open>flag n\<close> the \<open>n\<close>-th read of the token,
  \<open>joins n\<close> the completion order of the \<open>n\<close>-th batch, \<open>route_probe a\<close> the UDP socket that is connected
  to \<open>a\<close>.  The ICMP and SYN fields are the environment
  of \<open>src/net/icmp.rs\<close> and \<open>src/net/syn_scan.rs\<close>.
\<close>

record 'net tcp_env =
  ipnet :: "'net ipnet_api"
  dial :: "nat \<Rightarrow> sock_addr \<Rightarrow> conn"
  flag :: "nat \<Rightarrow> bool"
  joins :: "nat \<Rightarrow> nat list"
  arp_table :: "(ipv4 \<times> mac_addr) list"
  process_id :: u32
  icmp_opened :: bool
  icmp_events :: "recv list"
  icmp_order :: "nat list"
  route_probe :: "sock_addr \<Rightarrow> udp_probe"
  syn_opened :: bool
  syn_events :: "recv list"
  syn_order :: "nat list"

text \<open>
  The state of a discovery: how many probes were started, how often the token was read, how many
  batches were joined, how many names were looked up, the milliseconds slept, the streaming
  channel, and, as a ghost, every address probed.
\<close>

record scan_state =
  clock :: nat
  polls :: nat
  batches :: nat
  lookups :: nat
  slept_ms :: nat
  out :: sender
  dialled_addrs :: "sock_addr list"

definition scan_start :: scan_state where
  "scan_start =
     \<lparr>clock = 0, polls = 0, batches = 0, lookups = 0, slept_ms = 0, out = sender_new, dialled_addrs = []\<rparr>"

record scan_cfg =
  sc_ports :: "u16 list"
  sc_params :: tcp_params
  sc_max_concurrent :: nat
  sc_use_arp :: bool
  sc_token :: "token option"

definition poll_token :: "'net tcp_env \<Rightarrow> token option \<Rightarrow> scan_state \<Rightarrow> bool \<times> scan_state" where
  "poll_token env tok st = (cancel_seen tok (flag env (polls st)), st\<lparr>polls := Suc (polls st)\<rparr>)"

section \<open>Priority addresses\<close>

definition priority_last_octets :: "u8 list" where
  "priority_last_octets = [1, 2, 10, 50, 100, 101, 200, 253, 254]"

definition first_net :: "'net ipnet_api \<Rightarrow> 'net list \<Rightarrow> ipv4 \<Rightarrow> bool" where
  "first_net api nets ip = (\<exists>net \<in> set nets. net_contains api net (IpV4 ip))"

text \<open>The cached hosts inside the subnets, with each port; a repeated socket address is skipped.\<close>

definition arp_addrs ::
  "'net ipnet_api \<Rightarrow> 'net list \<Rightarrow> u16 list \<Rightarrow> (ipv4 \<times> mac_addr) list \<Rightarrow> sock_addr list" where
  "arp_addrs api nets ports hosts =
     keep_first {} (\<lambda>a. a)
       (concat (map (\<lambda>(ip, mac). map (SockAddr (IpV4 ip)) ports)
          (filter (\<lambda>(ip, mac). first_net api nets ip) hosts)))"

fun arp_macs :: "'net ipnet_api \<Rightarrow> 'net list \<Rightarrow> (ipv4 \<times> mac_addr) list \<Rightarrow> ipv4 \<rightharpoonup> mac_addr" where
  "arp_macs api nets [] = Map.empty"
| "arp_macs api nets ((ip, mac) # hosts) =
     (if first_net api nets ip then (Map.empty(ip \<mapsto> mac)) ++ arp_macs api nets hosts
      else arp_macs api nets hosts)"

fun with_last_octet :: "ipv4 \<Rightarrow> u8 \<Rightarrow> ipv4" where
  "with_last_octet (Ipv4 a b c _) l = Ipv4 a b c l"

definition heuristic_ips :: "'net ipnet_api \<Rightarrow> 'net \<Rightarrow> ipv4 list" where
  "heuristic_ips api net =
     (case net_v4_network api net of
        None \<Rightarrow> []
      | Some nw \<Rightarrow>
          filter (\<lambda>ip. net_contains api net (IpV4 ip) \<and> \<not> is_broadcast ip)
            (map (with_last_octet nw) priority_last_octets))"

definition heuristic_addrs ::
  "'net ipnet_api \<Rightarrow> 'net list \<Rightarrow> u16 list \<Rightarrow> sock_addr set \<Rightarrow> sock_addr list" where
  "heuristic_addrs api nets ports arp_seen =
     keep_first {} (\<lambda>a. a)
       (filter (\<lambda>a. a \<notin> arp_seen)
         (concat (map (\<lambda>net. concat (map (\<lambda>ip. map (SockAddr (IpV4 ip)) ports) (heuristic_ips api net)))
            nets)))"

definition build_priority_addrs ::
  "'net ipnet_api \<Rightarrow> 'net list \<Rightarrow> u16 list \<Rightarrow> bool \<Rightarrow> (ipv4 \<times> mac_addr) list \<Rightarrow>
   sock_addr list \<times> (ipv4 \<rightharpoonup> mac_addr) \<times> sock_addr list" where
  "build_priority_addrs api nets ports use_arp cache =
     (let hosts = (if use_arp then arp_cache_hosts cache else []);
          arp_out = arp_addrs api nets ports hosts
      in (arp_out, arp_macs api nets hosts, heuristic_addrs api nets ports (set arp_out)))"

section \<open>Batches\<close>

fun spawn_batch ::
  "'net tcp_env \<Rightarrow> token option \<Rightarrow> scan_state \<Rightarrow> sock_addr list \<Rightarrow> sock_addr list \<times> scan_state" where
  "spawn_batch env tok st [] = ([], st)"
| "spawn_batch env tok st (a # as) =
     (let (cancelled, st) = poll_token env tok st
      in if cancelled then ([], st)
         else (let (spawned, st) = spawn_batch env tok st as in (a # spawned, st)))"

text \<open>
  A task first waits for a permit.  Without permits a spawned task never starts, and joining it
  never returns, which is the value \<open>None\<close>.
\<close>

definition run_batch ::
  "'net tcp_env \<Rightarrow> scan_cfg \<Rightarrow> sock_addr list \<Rightarrow> scan_state \<Rightarrow> (device_match list \<times> scan_state) option" where
  "run_batch env cfg addrs st =
     (let (spawned, st) = spawn_batch env (sc_token cfg) st addrs
      in if spawned \<noteq> [] \<and> sc_max_concurrent cfg = 0 then None
         else
           (let results = map (\<lambda>(n, a). probe_addr (sc_params cfg) None (dial env n a) a)
                            (enumerate (clock st) spawned)
            in Some (join_all (joins env (batches st)) results,
                     st\<lparr>clock := clock st + length spawned, batches := Suc (batches st),
                        dialled_addrs := dialled_addrs st @ spawned\<rparr>)))"

text \<open>The local address used to reach \<open>dst\<close>, asked from a connected UDP socket.\<close>

definition local_ip_for :: "'net tcp_env \<Rightarrow> ipv4 \<Rightarrow> ipv4 option" where
  "local_ip_for env dst =
     (let s = route_probe env (SockAddr (IpV4 dst) 80)
      in if \<not> up_bind_ok s then None
         else if \<not> up_connect_ok s then None
         else (case up_local_addr s of
                 None \<Rightarrow> None
               | Some (SockAddr (IpV4 ip) _) \<Rightarrow> Some ip
               | Some (SockAddr (IpV6 _) _) \<Rightarrow> None))"

text \<open>Sending each match on and appending it to the result.\<close>

definition forward ::
  "(nat \<Rightarrow> bool) option \<Rightarrow> device_match list \<Rightarrow> device_match list \<times> scan_state \<Rightarrow>
   device_match list \<times> scan_state" where
  "forward tx found acc = (fst acc @ found, (snd acc)\<lparr>out := send_all tx found (out (snd acc))\<rparr>)"

definition stamp_match :: "string \<Rightarrow> (ipv4 \<rightharpoonup> mac_addr) option \<Rightarrow> device_match \<Rightarrow> device_match" where
  "stamp_match source_tag macs m =
     (let m = info_insert ''source'' source_tag m
      in case macs of
           None \<Rightarrow> m
         | Some table \<Rightarrow>
             (case parse_sock_v4 (address m) of
                None \<Rightarrow> m
              | Some (ip, _) \<Rightarrow>
                  (case table ip of
                     None \<Rightarrow> m
                   | Some mac \<Rightarrow> info_insert ''mac'' (format_mac mac) m)))"

definition run_priority_batch ::
  "'net tcp_env \<Rightarrow> scan_cfg \<Rightarrow> (nat \<Rightarrow> bool) option \<Rightarrow> sock_addr list \<Rightarrow> string \<Rightarrow>
   (ipv4 \<rightharpoonup> mac_addr) option \<Rightarrow> device_match list \<times> scan_state \<Rightarrow> (device_match list \<times> scan_state) option" where
  "run_priority_batch env cfg tx addrs source_tag macs acc =
     (case run_batch env cfg addrs (snd acc) of
        None \<Rightarrow> None
      | Some (found, st) \<Rightarrow> Some (forward tx (map (stamp_match source_tag macs) found) (fst acc, st)))"

definition run_plain_batch ::
  "'net tcp_env \<Rightarrow> scan_cfg \<Rightarrow> (nat \<Rightarrow> bool) option \<Rightarrow> sock_addr list \<Rightarrow>
   device_match list \<times> scan_state \<Rightarrow> (device_match list \<times> scan_state) option" where
  "run_plain_batch env cfg tx addrs acc =
     (case run_batch env cfg addrs (snd acc) of
        None \<Rightarrow> None
      | Some (found, st) \<Rightarrow> Some (forward tx found (fst acc, st)))"

section \<open>The scan\<close>

fun parse_nets :: "'net ipnet_api \<Rightarrow> string list \<Rightarrow> dafydd_error + 'net list" where
  "parse_nets api [] = Inr []"
| "parse_nets api (s # ss) =
     (case net_parse api s of
        Inl e \<Rightarrow> Inl (InvalidSubnet e)
      | Inr n \<Rightarrow> map_sum id (\<lambda>ns. n # ns) (parse_nets api ss))"

fun v4_of :: "ip_addr \<Rightarrow> ipv4 option" where
  "v4_of (IpV4 ip) = Some ip"
| "v4_of (IpV6 _) = None"

definition remaining_ips ::
  "'net ipnet_api \<Rightarrow> 'net list \<Rightarrow> u16 list \<Rightarrow> sock_addr set \<Rightarrow> ipv4 list" where
  "remaining_ips api nets ports priority =
     filter (\<lambda>ip. \<forall>p \<in> set ports. SockAddr (IpV4 ip) p \<notin> priority)
       (List.map_filter v4_of (concat (map (net_hosts api) nets)))"

definition host_iter :: "'net ipnet_api \<Rightarrow> 'net list \<Rightarrow> u16 list \<Rightarrow> sock_addr list" where
  "host_iter api nets ports =
     concat (map (\<lambda>net. concat (map (\<lambda>h. map (SockAddr h) ports) (net_hosts api net))) nets)"

definition build_raw_probe_targets ::
  "'net tcp_env \<Rightarrow> ipv4 list \<Rightarrow> u16 list \<Rightarrow> sock_addr list" where
  "build_raw_probe_targets env alive ports =
     (let targets = concat (map (\<lambda>ip. map (\<lambda>p. (ip, p)) ports) alive);
          src = (case alive of [] \<Rightarrow> None | ip # _ \<Rightarrow> local_ip_for env ip);
          opened = (case src of
                      None \<Rightarrow> None
                    | Some src_ip \<Rightarrow>
                        (case syn_scan (syn_opened env) (process_id env) src_ip targets
                                (syn_events env) (syn_order env) of
                           Panics \<Rightarrow> None
                         | Returns (sent, found) \<Rightarrow> found))
      in map (\<lambda>(ip, p). SockAddr (IpV4 ip) p) (case opened of None \<Rightarrow> targets | Some pairs \<Rightarrow> pairs))"

text \<open>
  The loop over batches of the addresses that were not probed first: \<open>by_ref().filter(..).take(n)\<close>
  takes the next \<open>n\<close> of them from the iterator.
\<close>

function sweep_loop ::
  "'net tcp_env \<Rightarrow> scan_cfg \<Rightarrow> (nat \<Rightarrow> bool) option \<Rightarrow> nat \<Rightarrow> sock_addr list \<Rightarrow>
   device_match list \<times> scan_state \<Rightarrow> (device_match list \<times> scan_state) option" where
  "sweep_loop env cfg tx batch_size iter acc =
     (let (cancelled, st) = poll_token env (sc_token cfg) (snd acc)
      in if cancelled then Some (fst acc, st)
         else (let batch = take batch_size iter
               in if batch = [] then Some (fst acc, st)
                  else (case run_plain_batch env cfg tx batch (fst acc, st) of
                          None \<Rightarrow> None
                        | Some acc' \<Rightarrow> sweep_loop env cfg tx batch_size (drop batch_size iter) acc')))"
  by pat_completeness auto
termination
  by (relation "measure (\<lambda>(env, cfg, tx, n, iter, acc). length iter)") auto

declare sweep_loop.simps [simp del]

definition batch_size_of :: "nat \<Rightarrow> nat" where
  "batch_size_of max_concurrent = max (min (max_concurrent * 4) (2 ^ 64 - 1)) 1024"

definition main_sweep ::
  "'net tcp_env \<Rightarrow> scan_cfg \<Rightarrow> (nat \<Rightarrow> bool) option \<Rightarrow> 'net list \<Rightarrow> sock_addr set \<Rightarrow>
   device_match list \<times> scan_state \<Rightarrow> (device_match list \<times> scan_state) option" where
  "main_sweep env cfg tx nets priority acc =
     (case ping_sweep (Returns (snd (ping_sweep_sync (icmp_opened env) (process_id env)
              (remaining_ips (ipnet env) nets (sc_ports cfg) priority) (icmp_events env) (icmp_order env)))) of
        Some alive \<Rightarrow>
          (if alive \<noteq> [] then
             (let targets = build_raw_probe_targets env alive (sc_ports cfg)
              in if targets = [] then Some acc
                 else (let (cancelled, st) = poll_token env (sc_token cfg) (snd acc)
                       in if cancelled then Some (fst acc, st)
                          else run_plain_batch env cfg tx targets (fst acc, st)))
           else Some acc)
      | None \<Rightarrow>
          sweep_loop env cfg tx (batch_size_of (sc_max_concurrent cfg))
            (filter (\<lambda>a. a \<notin> priority) (host_iter (ipnet env) nets (sc_ports cfg))) acc)"

text \<open>\<open>Semaphore::new\<close> panics beyond its maximum, an eighth of the range of \<open>usize\<close>.\<close>

definition max_permits :: nat where
  "max_permits = (2 ^ 64 - 1) div 8"

definition priority_stage ::
  "'net tcp_env \<Rightarrow> scan_cfg \<Rightarrow> (nat \<Rightarrow> bool) option \<Rightarrow> sock_addr list \<Rightarrow> string \<Rightarrow>
   (ipv4 \<rightharpoonup> mac_addr) option \<Rightarrow> device_match list \<times> scan_state \<Rightarrow> (device_match list \<times> scan_state) option" where
  "priority_stage env cfg tx addrs source_tag macs acc =
     (if addrs \<noteq> [] then run_priority_batch env cfg tx addrs source_tag macs acc else Some acc)"

definition scan_nets ::
  "'net tcp_env \<Rightarrow> scan_cfg \<Rightarrow> (nat \<Rightarrow> bool) option \<Rightarrow> 'net list \<Rightarrow> scan_state \<Rightarrow>
   (device_match list \<times> scan_state) option" where
  "scan_nets env cfg tx nets st =
     (let (arp, macs, heuristic) =
            build_priority_addrs (ipnet env) nets (sc_ports cfg) (sc_use_arp cfg) (arp_table env)
      in case priority_stage env cfg tx arp ''arp_cache'' (Some macs) ([], st) of
           None \<Rightarrow> None
         | Some (ms, st) \<Rightarrow>
             (let (cancelled, st) = poll_token env (sc_token cfg) st
              in if cancelled then Some (ms, st)
                 else (case priority_stage env cfg tx heuristic ''heuristic'' None (ms, st) of
                         None \<Rightarrow> None
                       | Some (ms, st) \<Rightarrow>
                           (let (cancelled, st) = poll_token env (sc_token cfg) st
                            in if cancelled then Some (ms, st)
                               else main_sweep env cfg tx nets (set arp \<union> set heuristic) (ms, st)))))"

definition scan_subnets ::
  "'net tcp_env \<Rightarrow> scan_cfg \<Rightarrow> (nat \<Rightarrow> bool) option \<Rightarrow> string list \<Rightarrow> scan_state \<Rightarrow>
   ((dafydd_error + device_match list) outcome \<times> scan_state) option" where
  "scan_subnets env cfg tx subnets st =
     (if sc_ports cfg = [] then Some (Returns (Inr []), st)
      else if max_permits < sc_max_concurrent cfg then Some (Panics, st)
      else (case parse_nets (ipnet env) subnets of
              Inl e \<Rightarrow> Some (Returns (Inl e), st)
            | Inr nets \<Rightarrow>
                map_option (\<lambda>(ms, st). (Returns (Inr ms), st)) (scan_nets env cfg tx nets st)))"

end
