(* ===== verification/Tcp_Sweep.thy ===== *)
theory Tcp_Sweep
  imports Tcp_Scan
begin

text \<open>
  What a scan of subnets does: which addresses it probes and in which order, that it reports
  exactly what the probes found, when it returns, and how cancellation bounds it.
\<close>

section \<open>Priority addresses\<close>

lemma keep_first_set_eq: "set (keep_first {} (\<lambda>a. a) xs) = set xs"
  using keep_first_keys [of "\<lambda>a. a" "{}" xs] by simp

lemma keep_first_distinct_id: "distinct (keep_first {} (\<lambda>a. a) xs)"
  using keep_first_distinct [of "\<lambda>a. a" "{}" xs] by simp

lemma arp_macs_dom: "dom (arp_macs api nets hosts) = {ip. (\<exists>mac. (ip, mac) \<in> set hosts) \<and> first_net api nets ip}"
  by (induction api nets hosts rule: arp_macs.induct) auto

lemma arp_macs_in: "arp_macs api nets hosts ip = Some mac \<Longrightarrow> (ip, mac) \<in> set hosts"
  by (induction api nets hosts rule: arp_macs.induct)
    (auto split: if_splits option.splits simp: map_add_def)

lemma arp_addrs_set:
  "set (arp_addrs api nets ports hosts) = {SockAddr (IpV4 ip) p | ip mac p. (ip, mac) \<in> set hosts \<and>
      (\<exists>net \<in> set nets. net_contains api net (IpV4 ip)) \<and> p \<in> set ports}"
  unfolding arp_addrs_def keep_first_set_eq by (auto simp: first_net_def; blast)

lemma heuristic_ips_set:
  "set (heuristic_ips api net) = {with_last_octet nw l | nw l. net_v4_network api net = Some nw \<and>
      l \<in> {1, 2, 10, 50, 100, 101, 200, 253, 254} \<and>
      net_contains api net (IpV4 (with_last_octet nw l)) \<and> \<not> is_broadcast (with_last_octet nw l)}"
proof -
  have octs: "{1, 2, 10, 50, 100, 101, 200, 253, 254} = set priority_last_octets"
    by (simp add: priority_last_octets_def)
  show ?thesis
    unfolding octs by (cases "net_v4_network api net") (auto simp: heuristic_ips_def)
qed

lemma heuristic_addrs_set:
  "set (heuristic_addrs api nets ports seen) = {SockAddr (IpV4 (with_last_octet nw l)) p | net nw l p.
      net \<in> set nets \<and> net_v4_network api net = Some nw \<and> l \<in> {1, 2, 10, 50, 100, 101, 200, 253, 254} \<and>
      net_contains api net (IpV4 (with_last_octet nw l)) \<and> \<not> is_broadcast (with_last_octet nw l) \<and>
      p \<in> set ports} - seen"
  unfolding heuristic_addrs_def keep_first_set_eq
  by (simp add: set_eq_iff image_iff heuristic_ips_set) blast

lemma priority_addrs_distinct:
  "distinct (arp_addrs api nets ports hosts)" "distinct (heuristic_addrs api nets ports seen)"
  unfolding arp_addrs_def heuristic_addrs_def by (rule keep_first_distinct_id)+

lemma build_priority_addrs_eq:
  "build_priority_addrs api nets ports use_arp cache =
     (let hosts = if use_arp then arp_cache_hosts cache else [];
          arp = arp_addrs api nets ports hosts
      in (arp, arp_macs api nets hosts, heuristic_addrs api nets ports (set arp)))"
  by (simp add: build_priority_addrs_def Let_def)

text \<open>
  The priority addresses are exact: without repetition, first every cached host inside a
  subnet with every port, then every common last octet inside its subnet with every port, except
  what the cache already gave; and the MAC table covers exactly the cached hosts inside a subnet,
  each with a MAC the cache has for it.
\<close>

theorem priority_addrs_exact:
  assumes "build_priority_addrs api nets ports use_arp cache = (arp, macs, heur)"
  shows "distinct arp \<and> distinct heur \<and> set arp \<inter> set heur = {} \<and>
    set arp = {SockAddr (IpV4 ip) p | ip mac p. use_arp \<and> (ip, mac) \<in> set (arp_cache_hosts cache) \<and>
      (\<exists>net \<in> set nets. net_contains api net (IpV4 ip)) \<and> p \<in> set ports} \<and>
    set heur = {SockAddr (IpV4 (with_last_octet nw l)) p | net nw l p.
      net \<in> set nets \<and> net_v4_network api net = Some nw \<and> l \<in> {1, 2, 10, 50, 100, 101, 200, 253, 254} \<and>
      net_contains api net (IpV4 (with_last_octet nw l)) \<and> \<not> is_broadcast (with_last_octet nw l) \<and>
      p \<in> set ports} - set arp \<and>
    (\<forall>ip mac. macs ip = Some mac \<longrightarrow> (ip, mac) \<in> set (arp_cache_hosts cache)) \<and>
    dom macs = {ip. use_arp \<and> (\<exists>mac. (ip, mac) \<in> set (arp_cache_hosts cache)) \<and>
      (\<exists>net \<in> set nets. net_contains api net (IpV4 ip))}"
proof -
  let ?hosts = "if use_arp then arp_cache_hosts cache else []"
  have e: "arp = arp_addrs api nets ports ?hosts" "macs = arp_macs api nets ?hosts"
    "heur = heuristic_addrs api nets ports (set arp)"
    using assms by (auto simp: build_priority_addrs_def Let_def)
  show ?thesis
    unfolding e arp_macs_dom heuristic_addrs_set
    using priority_addrs_distinct arp_macs_in [of api nets ?hosts]
    by (auto simp: arp_addrs_set first_net_def)
qed

theorem priority_addrs_exact_witness:
  "fst (build_priority_addrs cidr_api [(Ipv4 10 0 0 0, 24)] [502] True
      [(Ipv4 10 0 0 7, Mac 2 0 0 0 0 1), (Ipv4 10 0 1 7, Mac 2 0 0 0 0 2)]) =
     [SockAddr (IpV4 (Ipv4 10 0 0 7)) 502]"
proof -
  let ?cache = "[(Ipv4 10 0 0 7, Mac 2 0 0 0 0 1), (Ipv4 10 0 1 7, Mac 2 0 0 0 0 2)]"
  obtain arp macs heur where
    b: "build_priority_addrs cidr_api [(Ipv4 10 0 0 0, 24)] [502] True ?cache = (arp, macs, heur)"
    by (metis prod_cases3)
  have "arp_cache_hosts ?cache = ?cache"
    by code_simp
  moreover have "cidr_contains (Ipv4 10 0 0 0, 24) (IpV4 (Ipv4 10 0 0 7))"
    "\<not> cidr_contains (Ipv4 10 0 0 0, 24) (IpV4 (Ipv4 10 0 1 7))"
    by (simp_all add: block_def)
  ultimately have "set arp = {SockAddr (IpV4 (Ipv4 10 0 0 7)) 502}" "distinct arp"
    using priority_addrs_exact [OF b] by auto
  then show ?thesis
    unfolding b by (cases arp; cases "tl arp") auto
qed

section \<open>Batches\<close>

lemma spawn_batch_state:
  "spawn_batch env tok st as = (sp, st') \<Longrightarrow>
     prefix sp as \<and> clock st' = clock st \<and> batches st' = batches st \<and> out st' = out st \<and>
     dialled_addrs st' = dialled_addrs st"
proof (induction env tok st as arbitrary: sp st' rule: spawn_batch.induct)
  case (1 env tok st)
  then show ?case by simp
next
  case (2 env tok st a as)
  obtain c st1 where p: "poll_token env tok st = (c, st1)" by force
  obtain sp2 st2 where s: "spawn_batch env tok st1 as = (sp2, st2)" by force
  show ?case
    using 2(1) [OF p [symmetric]] 2(2) p s
    by (cases c) (auto simp: poll_token_def)
qed

text \<open>
  A batch dials its addresses until a read of the token is seen set; the token is read once before
  each address.
\<close>

definition until_cancelled :: "'net tcp_env \<Rightarrow> token option \<Rightarrow> nat \<Rightarrow> sock_addr list \<Rightarrow> sock_addr list" where
  "until_cancelled env tok n as =
     map snd (takeWhile (\<lambda>(k, a). \<not> cancel_seen tok (flag env k)) (enumerate n as))"

definition reads_after :: "nat \<Rightarrow> sock_addr list \<Rightarrow> sock_addr list \<Rightarrow> nat" where
  "reads_after n as d = n + length d + (if d = as then 0 else 1)"

lemma spawn_batch_eq:
  "spawn_batch env tok st as =
     (let d = until_cancelled env tok (polls st) as in (d, st\<lparr>polls := reads_after (polls st) as d\<rparr>))"
  by (induction env tok st as rule: spawn_batch.induct)
    (auto simp: until_cancelled_def reads_after_def poll_token_def Let_def split_def)

lemma until_cancelled_prefix: "prefix (until_cancelled env tok n as) as"
proof -
  have "prefix (until_cancelled env tok n as) (map snd (enumerate n as))"
    unfolding until_cancelled_def by (intro map_mono_prefix takeWhile_is_prefix)
  then show ?thesis by simp
qed

lemma until_cancelled_calm:
  "(\<And>k. \<not> cancel_seen tok (flag env k)) \<Longrightarrow> until_cancelled env tok n as = as"
  by (simp add: until_cancelled_def takeWhile_eq_all_conv [THEN iffD2] split_def)

lemma spawn_batch_all:
  "(\<And>n. \<not> cancel_seen tok (flag env n)) \<Longrightarrow> fst (spawn_batch env tok st as) = as"
  by (induction env tok st as rule: spawn_batch.induct) (auto simp: poll_token_def split_def Let_def)

definition tasks_from :: "'net tcp_env \<Rightarrow> nat \<Rightarrow> sock_addr list \<Rightarrow> (conn \<times> sock_addr) list" where
  "tasks_from env n as = map (\<lambda>(n, a). (dial env n a, a)) (enumerate n as)"

lemma run_batch_Some:
  assumes "run_batch env cfg addrs st = Some (ms, st')"
  shows "\<exists>spawned st1. spawn_batch env (sc_token cfg) st addrs = (spawned, st1) \<and>
    (spawned = [] \<or> 0 < sc_max_concurrent cfg) \<and>
    ms = join_all (joins env (batches st))
      (dialled.reports (sc_params cfg) None (tasks_from env (clock st) spawned)) \<and>
    st' = st1\<lparr>clock := clock st + length spawned, batches := Suc (batches st),
      dialled_addrs := dialled_addrs st @ spawned\<rparr>"
proof -
  obtain spawned st1 where sp: "spawn_batch env (sc_token cfg) st addrs = (spawned, st1)" by force
  have st1: "clock st1 = clock st" "batches st1 = batches st" "dialled_addrs st1 = dialled_addrs st"
    using spawn_batch_state [OF sp] by simp_all
  then show ?thesis
    using assms sp
    by (auto simp: run_batch_def Let_def dialled.reports_def tasks_from_def split_def comp_def split: if_splits)
qed

lemma run_batch_None:
  "run_batch env cfg addrs st = None \<longleftrightarrow>
     sc_max_concurrent cfg = 0 \<and> fst (spawn_batch env (sc_token cfg) st addrs) \<noteq> []"
  by (auto simp: run_batch_def Let_def split_def)

section \<open>The scan reports what its probes found\<close>

text \<open>Two matches that differ at most in the details the scan adds.\<close>

definition same_device :: "device_match \<Rightarrow> device_match \<Rightarrow> bool" where
  "same_device m m' = (transport m = transport m' \<and> address m = address m' \<and> response m = response m')"

definition probe_found :: "'net tcp_env \<Rightarrow> scan_cfg \<Rightarrow> nat \<Rightarrow> sock_addr \<Rightarrow> device_match \<Rightarrow> bool" where
  "probe_found env cfg i a m = (probe_addr (sc_params cfg) None (dial env i a) a = Returns (Inr (Some m)))"

lemma same_device_stamp: "same_device (stamp_match tag macs m) m"
  by (simp add: same_device_def stamp_match_def Let_def split: option.split)

lemma same_device_refl: "same_device m m"
  by (simp add: same_device_def)

section \<open>What every stage of a scan keeps\<close>

text \<open>
  The batches of a scan and what is done to their matches: the cached hosts, the common octets,
  and any batch of the sweep, whose matches are left as they are.
\<close>

definition stage :: "'net tcp_env \<Rightarrow> scan_cfg \<Rightarrow> 'net list \<Rightarrow> sock_addr list \<Rightarrow> (device_match \<Rightarrow> device_match) \<Rightarrow> bool" where
  "stage env cfg nets addrs f =
     (case build_priority_addrs (ipnet env) nets (sc_ports cfg) (sc_use_arp cfg) (arp_table env) of
        (arp, macs, heur) \<Rightarrow>
          (addrs = arp \<and> f = stamp_match ''arp_cache'' (Some macs)) \<or>
          (addrs = heur \<and> f = stamp_match ''heuristic'' None) \<or> f = (\<lambda>m. m))"

text \<open>
  Whatever the reads of the token and the batches of the sweep keep, the sweep keeps.
\<close>

locale sweep_invariant =
  fixes env :: "'net tcp_env" and cfg :: scan_cfg and tx :: "(nat \<Rightarrow> bool) option"
    and I :: "device_match list \<times> scan_state \<Rightarrow> bool"
  assumes poll: "I (ms, st) \<Longrightarrow> poll_token env (sc_token cfg) st = (c, st') \<Longrightarrow> I (ms, st')"
    and plain: "I (ms, st) \<Longrightarrow> run_batch env cfg addrs st = Some (found, st1) \<Longrightarrow>
      I (forward tx found (ms, st1))"
begin

lemma plain_keeps:
  assumes "I acc" "run_plain_batch env cfg tx addrs acc = Some acc'"
  shows "I acc'"
  using assms plain [of "fst acc" "snd acc" addrs]
  by (auto simp: run_plain_batch_def split: option.splits)

lemma sweep_loop_keeps:
  "I acc \<Longrightarrow> sweep_loop env cfg tx n iter acc = Some acc' \<Longrightarrow> I acc'"
proof (induction "length iter" arbitrary: iter acc rule: less_induct)
  case less
  obtain c st where p: "poll_token env (sc_token cfg) (snd acc) = (c, st)" by force
  have inv: "I (fst acc, st)"
    using less(2) poll [OF _ p] by simp
  show ?case
  proof (cases "c \<or> take n iter = []")
    case True
    then show ?thesis
      using less(3) inv by (cases c) (auto simp: sweep_loop.simps [of env cfg tx n iter acc] p Let_def)
  next
    case False
    obtain acc1 where a: "run_plain_batch env cfg tx (take n iter) (fst acc, st) = Some acc1"
      using less(3) False by (auto simp: sweep_loop.simps [of env cfg tx n iter acc] p Let_def split: option.splits)
    have "I acc1"
      using inv a by (rule plain_keeps)
    then show ?thesis
      using less(1) [of "drop n iter" acc1] less(3) False
      by (simp add: sweep_loop.simps [of env cfg tx n iter acc] p a Let_def)
  qed
qed

lemma main_sweep_keeps:
  assumes "I acc" "main_sweep env cfg tx nets pri acc = Some acc'"
  shows "I acc'"
proof -
  obtain c st where p: "poll_token env (sc_token cfg) (snd acc) = (c, st)" by force
  have "I (fst acc, st)"
    using assms(1) poll [OF _ p] by simp
  then show ?thesis
    using assms p
    by (auto simp: main_sweep_def Let_def intro: plain_keeps sweep_loop_keeps
        split: option.splits if_splits)
qed

end

text \<open>
  Whatever the reads of the token and all batches keep, the whole scan keeps.
\<close>

locale scan_invariant =
  fixes env :: "'net tcp_env" and cfg :: scan_cfg and nets :: "'net list"
    and tx :: "(nat \<Rightarrow> bool) option"
    and I :: "device_match list \<times> scan_state \<Rightarrow> bool"
  assumes reading: "I (ms, st) \<Longrightarrow> poll_token env (sc_token cfg) st = (c, st') \<Longrightarrow> I (ms, st')"
    and batch: "I (ms, st) \<Longrightarrow> run_batch env cfg addrs st = Some (found, st1) \<Longrightarrow>
      stage env cfg nets addrs f \<Longrightarrow> I (forward tx (map f found) (ms, st1))"

text \<open>The sweep leaves the matches of its batches as they are, so the second contract gives the first.\<close>

sublocale scan_invariant \<subseteq> sweep: sweep_invariant env cfg tx I
proof
  show "I (ms, st) \<Longrightarrow> poll_token env (sc_token cfg) st = (c, st') \<Longrightarrow> I (ms, st')" for ms st c st'
    by (rule reading)
  show "I (ms, st) \<Longrightarrow> run_batch env cfg addrs st = Some (found, st1) \<Longrightarrow> I (forward tx found (ms, st1))"
    for ms st addrs found st1
    using batch [of ms st addrs found st1 "\<lambda>m. m"] by (simp add: stage_def split: prod.split)
qed

context scan_invariant
begin

lemma priority_keeps:
  assumes "I acc" "priority_stage env cfg tx addrs tag macs acc = Some acc'"
    "stage env cfg nets addrs (stamp_match tag macs)"
  shows "I acc'"
  using assms batch [of "fst acc" "snd acc" addrs _ _ "stamp_match tag macs"]
  by (auto simp: priority_stage_def run_priority_batch_def split: if_splits option.splits)

lemma scan_nets_keeps:
  assumes "I ([], st)" "scan_nets env cfg tx nets st = Some acc"
  shows "I acc"
proof -
  obtain arp macs heur where b: "build_priority_addrs (ipnet env) nets (sc_ports cfg) (sc_use_arp cfg)
      (arp_table env) = (arp, macs, heur)"
    by (metis prod_cases3)
  obtain ms1 st1 where 1: "priority_stage env cfg tx arp ''arp_cache'' (Some macs) ([], st) = Some (ms1, st1)"
    using assms(2) b by (auto simp: scan_nets_def split: option.splits)
  obtain c1 st2 where p1: "poll_token env (sc_token cfg) st1 = (c1, st2)" by force
  have i1: "I (ms1, st2)"
    using priority_keeps [OF assms(1) 1] reading [OF _ p1] b by (simp add: stage_def)
  show ?thesis
  proof (cases c1)
    case True
    then show ?thesis using assms(2) b 1 p1 i1 by (auto simp: scan_nets_def)
  next
    case False
    obtain ms2 st3 where 2: "priority_stage env cfg tx heur ''heuristic'' None (ms1, st2) = Some (ms2, st3)"
      using assms(2) b 1 p1 False by (auto simp: scan_nets_def split: option.splits)
    obtain c2 st4 where p2: "poll_token env (sc_token cfg) st3 = (c2, st4)" by force
    have i2: "I (ms2, st4)"
      using priority_keeps [OF i1 2] reading [OF _ p2] b by (simp add: stage_def)
    then show ?thesis
      using assms(2) b 1 p1 False 2 p2 sweep.main_sweep_keeps [of "(ms2, st4)"]
      by (auto simp: scan_nets_def split: if_splits)
  qed
qed

end

section \<open>The scan reports what its probes found\<close>

text \<open>
  From the \<open>base\<close>-th probe on, every match comes from a probe that was made, and every probe that
  found something has its match.
\<close>

definition scan_inv :: "'net tcp_env \<Rightarrow> scan_cfg \<Rightarrow> nat \<Rightarrow> device_match list \<times> scan_state \<Rightarrow> bool" where
  "scan_inv env cfg base acc =
     (clock (snd acc) = length (dialled_addrs (snd acc)) \<and> base \<le> length (dialled_addrs (snd acc)) \<and>
      (\<forall>m \<in> set (fst acc). \<exists>i \<in> {base..<length (dialled_addrs (snd acc))}. \<exists>m'.
         probe_found env cfg i (dialled_addrs (snd acc) ! i) m' \<and> same_device m m') \<and>
      (\<forall>i \<in> {base..<length (dialled_addrs (snd acc))}. \<forall>m'.
         probe_found env cfg i (dialled_addrs (snd acc) ! i) m' \<longrightarrow>
           (\<exists>m \<in> set (fst acc). same_device m m')))"

lemma tasks_reports:
  "Returns (Inr (Some m)) \<in> set (dialled.reports (sc_params cfg) None (tasks_from env n as)) \<longleftrightarrow>
     (\<exists>i < length as. probe_found env cfg (n + i) (as ! i) m)"
  by (auto simp: dialled.reports_def tasks_from_def probe_found_def image_iff set_conv_nth
      nth_enumerate_eq; force simp: nth_enumerate_eq)

lemma stage_same_device: "stage env cfg nets addrs f \<Longrightarrow> same_device (f m) m"
  by (auto simp: stage_def same_device_stamp same_device_refl split: prod.splits)

lemma batch_inv:
  assumes inv: "scan_inv env cfg base (ms, st)" and st: "run_batch env cfg addrs st = Some (found, st1)"
    and f: "\<And>m. same_device (f m) m"
  shows "scan_inv env cfg base (forward tx (map f found) (ms, st1))"
proof -
  obtain sp st0 where sp: "spawn_batch env (sc_token cfg) st addrs = (sp, st0)"
    and found: "found = join_all (joins env (batches st))
      (dialled.reports (sc_params cfg) None (tasks_from env (clock st) sp))"
    and st1: "st1 = st0\<lparr>clock := clock st + length sp, batches := Suc (batches st),
      dialled_addrs := dialled_addrs st @ sp\<rparr>"
    using run_batch_Some [OF st] by blast
  let ?d = "dialled_addrs st"
  have ck: "clock st = length ?d" "base \<le> length ?d"
    using inv by (simp_all add: scan_inv_def)
  have new: "m' \<in> set found \<longleftrightarrow> (\<exists>i < length sp. probe_found env cfg (length ?d + i) (sp ! i) m')" for m'
    unfolding found join_all_set mem_Collect_eq tasks_reports ck ..
  have d1: "dialled_addrs st1 = ?d @ sp" "clock st1 = length (?d @ sp)"
    by (simp_all add: st1 ck)
  have old1: "\<exists>i \<in> {base..<length (?d @ sp)}. \<exists>m'. probe_found env cfg i ((?d @ sp) ! i) m' \<and> same_device m m'"
    if mem: "m \<in> set ms" for m
  proof -
    obtain i m' where "i \<in> {base..<length ?d}" "probe_found env cfg i (?d ! i) m'" "same_device m m'"
      using inv mem by (auto simp: scan_inv_def)
    then show ?thesis
      by (intro bexI [of _ i]) (auto simp: nth_append)
  qed
  have new1: "\<exists>i \<in> {base..<length (?d @ sp)}. \<exists>m'. probe_found env cfg i ((?d @ sp) ! i) m' \<and> same_device (f m) m'"
    if mem: "m \<in> set found" for m
  proof -
    obtain i where "i < length sp" "probe_found env cfg (length ?d + i) (sp ! i) m"
      using new [of m] mem by blast
    then show ?thesis
      using ck(2) by (intro bexI [of _ "length ?d + i"] exI [of _ m] conjI) (simp_all add: f)
  qed
  have bk: "\<exists>m \<in> set ms \<union> f ` set found. same_device m m'"
    if "i \<in> {base..<length (?d @ sp)}" "probe_found env cfg i ((?d @ sp) ! i) m'" for i m'
  proof (cases "i < length ?d")
    case True
    then have "\<exists>m \<in> set ms. same_device m m'"
      using inv that by (auto simp: scan_inv_def nth_append)
    then show ?thesis by blast
  next
    case False
    then obtain j where "i = length ?d + j"
      using le_Suc_ex not_less by blast
    then have "m' \<in> set found"
      using that new by auto
    then show ?thesis using f by auto
  qed
  show ?thesis
    using old1 new1 bk d1 ck(2) by (auto simp: scan_inv_def forward_def)
qed

interpretation reported: scan_invariant env cfg nets tx "scan_inv env cfg base" for env cfg nets tx base
proof
  show "scan_inv env cfg base (ms, st) \<Longrightarrow> poll_token env (sc_token cfg) st = (c, st') \<Longrightarrow>
      scan_inv env cfg base (ms, st')" for ms st c st'
    by (auto simp: poll_token_def scan_inv_def)
  show "scan_inv env cfg base (ms, st) \<Longrightarrow> run_batch env cfg addrs st = Some (found, st1) \<Longrightarrow>
      stage env cfg nets addrs f \<Longrightarrow> scan_inv env cfg base (forward tx (map f found) (ms, st1))"
    for ms st addrs found st1 f
    using batch_inv stage_same_device by blast
qed

end
