(* ===== verification/Tcp_Results.thy ===== *)
theory Tcp_Results
  imports Tcp_Sweep
begin

text \<open>
  The properties of \<open>scan_subnets\<close>: the outcomes it has, the addresses it probes and in which
  order, what it reports of them and with which details, and what cancellation leaves of it.
\<close>

lemma scan_subnets_Inr:
  assumes "scan_subnets env cfg tx subnets st = Some (Returns (Inr ms), st')"
  shows "(ms = [] \<and> st' = st) \<or> (\<exists>nets. scan_nets env cfg tx nets st = Some (ms, st'))"
  using assms by (auto simp: scan_subnets_def split: if_splits sum.splits)

section \<open>Reports\<close>

definition probes_extend :: "sock_addr list \<Rightarrow> device_match list \<times> scan_state \<Rightarrow> bool" where
  "probes_extend d0 acc = prefix d0 (dialled_addrs (snd acc))"

interpretation extends: scan_invariant env cfg nets tx "probes_extend d0" for env cfg nets tx d0
proof
  show "probes_extend d0 (ms, st) \<Longrightarrow> poll_token env (sc_token cfg) st = (c, st') \<Longrightarrow>
      probes_extend d0 (ms, st')" for ms st c st'
    by (auto simp: poll_token_def probes_extend_def)
  show "probes_extend d0 (ms, st) \<Longrightarrow> run_batch env cfg addrs st = Some (found, st1) \<Longrightarrow>
      stage env cfg nets addrs f \<Longrightarrow> probes_extend d0 (forward tx (map f found) (ms, st1))"
    for ms st addrs found st1 f
    using run_batch_Some [of env cfg addrs st found st1]
    by (auto simp: probes_extend_def forward_def)
qed

lemma scan_extends:
  assumes "scan_subnets env cfg tx subnets st = Some (Returns (Inr ms), st')"
  shows "prefix (dialled_addrs st) (dialled_addrs st')"
  using scan_subnets_Inr [OF assms] extends.scan_nets_keeps [of "dialled_addrs st" st]
  by (auto simp: probes_extend_def; fastforce)

lemma scan_result_inv:
  assumes "scan_subnets env cfg tx subnets st = Some (Returns (Inr ms), st')"
    and "clock st = length (dialled_addrs st)"
  shows "scan_inv env cfg (length (dialled_addrs st)) (ms, st')"
  using scan_subnets_Inr [OF assms(1)]
proof
  assume "ms = [] \<and> st' = st"
  then show ?thesis using assms(2) by (simp add: scan_inv_def)
next
  assume "\<exists>nets. scan_nets env cfg tx nets st = Some (ms, st')"
  then obtain nets where "scan_nets env cfg tx nets st = Some (ms, st')" ..
  then show ?thesis
    by (rule reported.scan_nets_keeps [rotated]) (simp add: scan_inv_def assms(2))
qed

text \<open>
  C6.  A scan reports exactly what its probes found, in any order of completion and under any
  cancellation: every match is that of a probe the scan made, with the address probed and the
  response received, and every probe that found something is reported.
\<close>

theorem scan_reports_probes:
  assumes "scan_subnets env cfg tx subnets st = Some (Returns (Inr ms), st')"
    and "clock st = length (dialled_addrs st)"
  shows "prefix (dialled_addrs st) (dialled_addrs st') \<and>
    (\<forall>m \<in> set ms. \<exists>i \<in> {length (dialled_addrs st)..<length (dialled_addrs st')}. \<exists>m'.
       probe_addr (sc_params cfg) None (dial env i (dialled_addrs st' ! i)) (dialled_addrs st' ! i) =
         Returns (Inr (Some m')) \<and>
       transport m = Tcp \<and> address m = show_sock (dialled_addrs st' ! i) \<and> response m = response m') \<and>
    (\<forall>i \<in> {length (dialled_addrs st)..<length (dialled_addrs st')}. \<forall>m'.
       probe_addr (sc_params cfg) None (dial env i (dialled_addrs st' ! i)) (dialled_addrs st' ! i) =
         Returns (Inr (Some m')) \<longrightarrow>
       (\<exists>m \<in> set ms. transport m = Tcp \<and> address m = show_sock (dialled_addrs st' ! i) \<and>
          response m = response m'))"
proof -
  note inv = scan_result_inv [OF assms]
  have same: "transport m = Tcp \<and> address m = show_sock a \<and> response m = response m'"
    if "probe_found env cfg i a m'" "same_device m m'" for i a m m'
    using that probe_addr_found by (fastforce simp: probe_found_def same_device_def)
  have fwd: "\<exists>i \<in> {length (dialled_addrs st)..<length (dialled_addrs st')}. \<exists>m'.
      probe_found env cfg i (dialled_addrs st' ! i) m' \<and>
      transport m = Tcp \<and> address m = show_sock (dialled_addrs st' ! i) \<and> response m = response m'"
    if "m \<in> set ms" for m
    using inv that same unfolding scan_inv_def fst_conv snd_conv by blast
  have bwd: "\<exists>m \<in> set ms. transport m = Tcp \<and> address m = show_sock (dialled_addrs st' ! i) \<and>
      response m = response m'"
    if "i \<in> {length (dialled_addrs st)..<length (dialled_addrs st')}"
      "probe_found env cfg i (dialled_addrs st' ! i) m'" for i m'
    using inv that same unfolding scan_inv_def fst_conv snd_conv by blast
  show ?thesis
    using scan_extends [OF assms(1)] fwd bwd unfolding probe_found_def by blast
qed

section \<open>Outcomes\<close>

lemma parse_nets_error:
  "parse_nets api ss = Inl e \<longleftrightarrow>
     (\<exists>i < length ss. (\<exists>t. net_parse api (ss ! i) = Inl t \<and> e = InvalidSubnet t) \<and>
        (\<forall>j < i. \<exists>n. net_parse api (ss ! j) = Inr n))"
proof (induction ss)
  case Nil
  then show ?case by simp
next
  case (Cons s ss)
  show ?case
  proof (cases "net_parse api s")
    case (Inl t)
    then show ?thesis
      by (auto simp: less_Suc_eq_0_disj)
  next
    case (Inr n)
    have "(\<exists>i < length (s # ss). (\<exists>t. net_parse api ((s # ss) ! i) = Inl t \<and> e = InvalidSubnet t) \<and>
        (\<forall>j < i. \<exists>n. net_parse api ((s # ss) ! j) = Inr n)) \<longleftrightarrow>
      (\<exists>i < length ss. (\<exists>t. net_parse api (ss ! i) = Inl t \<and> e = InvalidSubnet t) \<and>
        (\<forall>j < i. \<exists>n. net_parse api (ss ! j) = Inr n))"
      by (simp add: Ex_less_Suc2 All_less_Suc2 Inr)
    then show ?thesis
      using Cons.IH Inr by (cases "parse_nets api ss") auto
  qed
qed

lemma run_batch_returns: "0 < sc_max_concurrent cfg \<Longrightarrow> run_batch env cfg addrs st \<noteq> None"
  by (simp add: run_batch_None)

lemma plain_returns: "0 < sc_max_concurrent cfg \<Longrightarrow> run_plain_batch env cfg tx addrs acc \<noteq> None"
  using run_batch_returns [of cfg env addrs "snd acc"]
  by (auto simp: run_plain_batch_def split: option.split)

lemma priority_returns: "0 < sc_max_concurrent cfg \<Longrightarrow> priority_stage env cfg tx addrs tag macs acc \<noteq> None"
  using run_batch_returns [of cfg env addrs "snd acc"]
  by (auto simp: priority_stage_def run_priority_batch_def split: option.split)

lemma sweep_loop_returns:
  assumes "0 < sc_max_concurrent cfg"
  shows "sweep_loop env cfg tx n iter acc \<noteq> None"
proof (induction "length iter" arbitrary: iter acc rule: less_induct)
  case less
  obtain c st where p: "poll_token env (sc_token cfg) (snd acc) = (c, st)" by force
  show ?case
  proof (cases "c \<or> take n iter = []")
    case True
    then show ?thesis
      by (cases c) (auto simp: sweep_loop.simps [of env cfg tx n iter acc] p Let_def)
  next
    case False
    obtain acc1 where a: "run_plain_batch env cfg tx (take n iter) (fst acc, st) = Some acc1"
      using plain_returns [OF assms] by blast
    show ?thesis
      using less [of "drop n iter" acc1] False
      by (simp add: sweep_loop.simps [of env cfg tx n iter acc] p a Let_def)
  qed
qed

lemma main_sweep_returns: "0 < sc_max_concurrent cfg \<Longrightarrow> main_sweep env cfg tx nets pri acc \<noteq> None"
  by (simp add: main_sweep_def Let_def split_def plain_returns sweep_loop_returns del: not_None_eq split: option.split)

lemma scan_nets_returns:
  assumes "0 < sc_max_concurrent cfg"
  shows "scan_nets env cfg tx nets st \<noteq> None"
proof -
  obtain arp macs heur where b: "build_priority_addrs (ipnet env) nets (sc_ports cfg) (sc_use_arp cfg)
      (arp_table env) = (arp, macs, heur)"
    by (metis prod_cases3)
  obtain ms1 st1 where 1: "priority_stage env cfg tx arp ''arp_cache'' (Some macs) ([], st) = Some (ms1, st1)"
    using priority_returns [OF assms, of env tx arp "''arp_cache''" "Some macs" "([], st)"] by auto
  obtain c1 st2 where p1: "poll_token env (sc_token cfg) st1 = (c1, st2)" by force
  obtain ms2 st3 where 2: "priority_stage env cfg tx heur ''heuristic'' None (ms1, st2) = Some (ms2, st3)"
    using priority_returns [OF assms, of env tx heur "''heuristic''" None "(ms1, st2)"] by auto
  obtain c2 st4 where p2: "poll_token env (sc_token cfg) st3 = (c2, st4)" by force
  show ?thesis
    using main_sweep_returns [OF assms, of env tx nets "set arp \<union> set heur" "(ms2, st4)"]
    by (simp add: scan_nets_def b 1 p1 2 p2)
qed

lemma priority_hangs:
  assumes "sc_max_concurrent cfg = 0" "sc_token cfg = None" "addrs \<noteq> []"
  shows "priority_stage env cfg tx addrs tag macs acc = None"
proof -
  have "fst (spawn_batch env (sc_token cfg) (snd acc) addrs) = addrs"
    by (rule spawn_batch_all) (simp add: assms(2))
  then show ?thesis
    using assms run_batch_None [of env cfg addrs "snd acc"]
    by (simp add: priority_stage_def run_priority_batch_def)
qed

lemma scan_nets_hangs:
  assumes "sc_max_concurrent cfg = 0" "sc_token cfg = None"
    and b: "build_priority_addrs (ipnet env) nets (sc_ports cfg) (sc_use_arp cfg) (arp_table env) =
      (arp, macs, heur)" and ne: "arp \<noteq> [] \<or> heur \<noteq> []"
  shows "scan_nets env cfg tx nets st = None"
proof (cases "arp = []")
  case True
  then have "priority_stage env cfg tx heur ''heuristic'' None acc = None" for acc
    using priority_hangs assms(1,2) ne by blast
  then show ?thesis
    using True assms(2) by (simp add: scan_nets_def b priority_stage_def [of env cfg tx "[]"] poll_token_def)
next
  case False
  then show ?thesis
    using priority_hangs [OF assms(1,2) False, of env tx "''arp_cache''" "Some macs" "([], st)"]
    by (simp add: scan_nets_def b)
qed

text \<open>
  C23.  The outcomes of a scan.  Without ports it finds nothing.  It panics exactly when the number
  of concurrent probes exceeds what a semaphore can count, and fails exactly when a subnet does
  not parse, with the error of the first such subnet.  With at least one permit it always returns;
  with none it never does as soon as there is one priority address to probe.
\<close>

theorem scan_outcomes:
  "(sc_ports cfg = [] \<longrightarrow> scan_subnets env cfg tx subnets st = Some (Returns (Inr []), st)) \<and>
   ((\<exists>st'. scan_subnets env cfg tx subnets st = Some (Panics, st')) \<longleftrightarrow>
      sc_ports cfg \<noteq> [] \<and> max_permits < sc_max_concurrent cfg) \<and>
   ((\<exists>st'. scan_subnets env cfg tx subnets st = Some (Returns (Inl e), st')) \<longleftrightarrow>
      sc_ports cfg \<noteq> [] \<and> sc_max_concurrent cfg \<le> max_permits \<and>
      (\<exists>i < length subnets. (\<exists>t. net_parse (ipnet env) (subnets ! i) = Inl t \<and> e = InvalidSubnet t) \<and>
         (\<forall>j < i. \<exists>n. net_parse (ipnet env) (subnets ! j) = Inr n))) \<and>
   (0 < sc_max_concurrent cfg \<longrightarrow> scan_subnets env cfg tx subnets st \<noteq> None) \<and>
   (sc_max_concurrent cfg = 0 \<and> sc_token cfg = None \<and> sc_ports cfg \<noteq> [] \<and>
      parse_nets (ipnet env) subnets = Inr nets \<and>
      build_priority_addrs (ipnet env) nets (sc_ports cfg) (sc_use_arp cfg) (arp_table env) \<notin>
        {([], macs, []) | macs. True} \<longrightarrow>
      scan_subnets env cfg tx subnets st = None)"
proof (intro conjI impI)
  show "(\<exists>st'. scan_subnets env cfg tx subnets st = Some (Returns (Inl e), st')) \<longleftrightarrow>
      sc_ports cfg \<noteq> [] \<and> sc_max_concurrent cfg \<le> max_permits \<and>
      (\<exists>i < length subnets. (\<exists>t. net_parse (ipnet env) (subnets ! i) = Inl t \<and> e = InvalidSubnet t) \<and>
         (\<forall>j < i. \<exists>n. net_parse (ipnet env) (subnets ! j) = Inr n))"
    unfolding parse_nets_error [symmetric] by (auto simp: scan_subnets_def split: sum.split)
  assume h: "sc_max_concurrent cfg = 0 \<and> sc_token cfg = None \<and> sc_ports cfg \<noteq> [] \<and>
      parse_nets (ipnet env) subnets = Inr nets \<and>
      build_priority_addrs (ipnet env) nets (sc_ports cfg) (sc_use_arp cfg) (arp_table env) \<notin>
        {([], macs, []) | macs. True}"
  obtain arp macs heur where b: "build_priority_addrs (ipnet env) nets (sc_ports cfg) (sc_use_arp cfg)
      (arp_table env) = (arp, macs, heur)"
    by (metis prod_cases3)
  then have "scan_nets env cfg tx nets st = None"
    using h by (intro scan_nets_hangs [OF _ _ b]) auto
  then show "scan_subnets env cfg tx subnets st = None"
    using h by (simp add: scan_subnets_def max_permits_def)
next
  show "0 < sc_max_concurrent cfg \<Longrightarrow> scan_subnets env cfg tx subnets st \<noteq> None"
    by (simp add: scan_subnets_def scan_nets_returns del: not_None_eq split: sum.split)
qed (auto simp: scan_subnets_def split: sum.split)

section \<open>Coverage\<close>

text \<open>A scan that is not cancelled: there is no token, or it is never set.\<close>

definition calm :: "'net tcp_env \<Rightarrow> scan_cfg \<Rightarrow> bool" where
  "calm env cfg = (\<forall>n. \<not> cancel_seen (sc_token cfg) (flag env n))"

lemma poll_calm: "calm env cfg \<Longrightarrow> poll_token env (sc_token cfg) st = (False, st\<lparr>polls := Suc (polls st)\<rparr>)"
  by (simp add: calm_def poll_token_def)

lemma run_batch_calm:
  assumes "calm env cfg" "0 < sc_max_concurrent cfg"
  obtains found st1 where "run_batch env cfg addrs st = Some (found, st1)"
    "dialled_addrs st1 = dialled_addrs st @ addrs"
proof -
  obtain found st1 where r: "run_batch env cfg addrs st = Some (found, st1)"
    using run_batch_returns [OF assms(2), of env addrs st] by auto
  moreover have "fst (spawn_batch env (sc_token cfg) st addrs) = addrs"
    using assms(1) by (intro spawn_batch_all) (simp add: calm_def)
  ultimately show thesis
    using run_batch_Some [OF r] that by auto
qed

lemma plain_calm:
  assumes "calm env cfg" "0 < sc_max_concurrent cfg"
  obtains acc' where "run_plain_batch env cfg tx addrs acc = Some acc'"
    "dialled_addrs (snd acc') = dialled_addrs (snd acc) @ addrs"
  by (rule run_batch_calm [OF assms, of addrs "snd acc"])
    (auto simp: run_plain_batch_def forward_def intro: that)

lemma priority_calm:
  assumes "calm env cfg" "0 < sc_max_concurrent cfg"
  obtains ms st' where "priority_stage env cfg tx addrs tag macs acc = Some (ms, st')"
    "dialled_addrs st' = dialled_addrs (snd acc) @ addrs"
proof (cases "addrs = []")
  case True
  then show thesis
    using that [of "fst acc" "snd acc"] by (simp add: priority_stage_def)
next
  case False
  obtain found st1 where "run_batch env cfg addrs (snd acc) = Some (found, st1)"
    "dialled_addrs st1 = dialled_addrs (snd acc) @ addrs"
    by (rule run_batch_calm [OF assms])
  then show thesis
    using that False by (simp add: priority_stage_def run_priority_batch_def forward_def)
qed

lemma sweep_loop_calm:
  assumes "calm env cfg" "0 < sc_max_concurrent cfg" "0 < n"
  shows "\<exists>acc'. sweep_loop env cfg tx n iter acc = Some acc' \<and>
    dialled_addrs (snd acc') = dialled_addrs (snd acc) @ iter"
proof (induction "length iter" arbitrary: iter acc rule: less_induct)
  case less
  let ?st = "(snd acc)\<lparr>polls := Suc (polls (snd acc))\<rparr>"
  show ?case
  proof (cases "iter = []")
    case True
    then show ?thesis
      by (simp add: True sweep_loop.simps [of env cfg tx n "[]" acc] poll_calm [OF assms(1)])
  next
    case False
    obtain acc1 where a: "run_plain_batch env cfg tx (take n iter) (fst acc, ?st) = Some acc1"
      "dialled_addrs (snd acc1) = dialled_addrs ?st @ take n iter"
      using plain_calm [OF assms(1,2), of tx "take n iter" "(fst acc, ?st)"] by auto
    obtain acc' where "sweep_loop env cfg tx n (drop n iter) acc1 = Some acc'"
      "dialled_addrs (snd acc') = dialled_addrs (snd acc1) @ drop n iter"
      using less [of "drop n iter" acc1] False assms(3) by auto
    then show ?thesis
      using a False assms(3)
      by (simp add: sweep_loop.simps [of env cfg tx n iter acc] poll_calm [OF assms(1)])
  qed
qed

text \<open>
  The addresses of the main sweep: with a raw socket those the ICMP and SYN scans leave, without
  one every host with every port, except the priority addresses.
\<close>

definition sweep_targets :: "'net tcp_env \<Rightarrow> scan_cfg \<Rightarrow> 'net list \<Rightarrow> sock_addr set \<Rightarrow> sock_addr list" where
  "sweep_targets env cfg nets priority =
     (case snd (ping_sweep_sync (icmp_opened env) (process_id env)
              (remaining_ips (ipnet env) nets (sc_ports cfg) priority) (icmp_events env) (icmp_order env)) of
        Some alive \<Rightarrow> if alive = [] then [] else build_raw_probe_targets env alive (sc_ports cfg)
      | None \<Rightarrow> filter (\<lambda>a. a \<notin> priority) (host_iter (ipnet env) nets (sc_ports cfg)))"

lemma main_sweep_calm:
  assumes "calm env cfg" "0 < sc_max_concurrent cfg"
  shows "\<exists>acc'. main_sweep env cfg tx nets pri acc = Some acc' \<and>
    dialled_addrs (snd acc') = dialled_addrs (snd acc) @ sweep_targets env cfg nets pri"
proof -
  let ?targets = "filter (\<lambda>a. a \<notin> pri) (host_iter (ipnet env) nets (sc_ports cfg))"
  let ?st = "(snd acc)\<lparr>polls := Suc (polls (snd acc))\<rparr>"
  show ?thesis
  proof (cases "snd (ping_sweep_sync (icmp_opened env) (process_id env)
      (remaining_ips (ipnet env) nets (sc_ports cfg) pri) (icmp_events env) (icmp_order env))")
    case None
    have "0 < batch_size_of (sc_max_concurrent cfg)"
      by (simp add: batch_size_of_def)
    from sweep_loop_calm [OF assms this, of tx ?targets acc] None show ?thesis
      by (simp add: main_sweep_def sweep_targets_def ping_sweep_def)
  next
    case (Some alive)
    obtain acc1 where "run_plain_batch env cfg tx (build_raw_probe_targets env alive (sc_ports cfg))
        (fst acc, ?st) = Some acc1"
      "dialled_addrs (snd acc1) = dialled_addrs (snd (fst acc, ?st)) @
         build_raw_probe_targets env alive (sc_ports cfg)"
      by (rule plain_calm [OF assms])
    with Some show ?thesis
      by (simp add: main_sweep_def sweep_targets_def ping_sweep_def poll_calm [OF assms(1)] Let_def
          del: split_paired_Ex)
  qed
qed

lemma scan_nets_calm:
  assumes "calm env cfg" "0 < sc_max_concurrent cfg"
    and b: "build_priority_addrs (ipnet env) nets (sc_ports cfg) (sc_use_arp cfg) (arp_table env) =
      (arp, macs, heur)"
  shows "\<exists>acc. scan_nets env cfg tx nets st = Some acc \<and> dialled_addrs (snd acc) =
    dialled_addrs st @ arp @ heur @ sweep_targets env cfg nets (set arp \<union> set heur)"
proof -
  obtain ms1 st1 where 1: "priority_stage env cfg tx arp ''arp_cache'' (Some macs) ([], st) = Some (ms1, st1)"
    "dialled_addrs st1 = dialled_addrs (snd ([] :: device_match list, st)) @ arp"
    by (rule priority_calm [OF assms(1,2)])
  let ?st2 = "st1\<lparr>polls := Suc (polls st1)\<rparr>"
  obtain ms2 st3 where 2: "priority_stage env cfg tx heur ''heuristic'' None (ms1, ?st2) = Some (ms2, st3)"
    "dialled_addrs st3 = dialled_addrs (snd (ms1, ?st2)) @ heur"
    by (rule priority_calm [OF assms(1,2)])
  let ?st4 = "st3\<lparr>polls := Suc (polls st3)\<rparr>"
  show ?thesis
    using main_sweep_calm [OF assms(1,2), of tx nets "set arp \<union> set heur" "(ms2, ?st4)"] 1 2
    by (simp add: scan_nets_def b poll_calm [OF assms(1)])
qed

lemma scan_calm:
  assumes "calm env cfg" "sc_ports cfg \<noteq> []" "0 < sc_max_concurrent cfg" "sc_max_concurrent cfg \<le> max_permits"
    and "parse_nets (ipnet env) subnets = Inr nets"
    and "build_priority_addrs (ipnet env) nets (sc_ports cfg) (sc_use_arp cfg) (arp_table env) =
      (arp, macs, heur)"
  obtains ms st' where "scan_subnets env cfg tx subnets st = Some (Returns (Inr ms), st')"
    "dialled_addrs st' = dialled_addrs st @ arp @ heur @ sweep_targets env cfg nets (set arp \<union> set heur)"
  using scan_nets_calm [OF assms(1,3,6), of tx st] assms(2,4,5) that
  by (auto simp: scan_subnets_def)

lemma host_iter_concat:
  "host_iter api nets ports = concat (map (\<lambda>h. map (SockAddr h) ports) (concat (map (net_hosts api) nets)))"
  by (induction nets) (simp_all add: host_iter_def)

lemma distinct_pairs: "distinct hs \<Longrightarrow> distinct ps \<Longrightarrow> distinct (concat (map (\<lambda>h. map (SockAddr h) ps) hs))"
  by (induction hs) (auto simp: distinct_map inj_on_def)

lemma raw_targets_v4: "a \<in> set (build_raw_probe_targets env alive ports) \<Longrightarrow> \<exists>ip. sa_ip a = IpV4 ip"
  by (auto simp: build_raw_probe_targets_def Let_def)

lemma ping_sweep_sync_opened:
  "(snd (ping_sweep_sync opened pid hosts es order) = None) \<longleftrightarrow> \<not> opened"
  by (simp add: ping_sweep_sync_def Let_def)

text \<open>
  C5.  A scan that is not cancelled probes first the cached hosts, then the common octets, then the
  rest.  Without raw sockets the rest is every host of every subnet with every port that was not
  probed before, in order, so that nothing is missed and, for disjoint subnets, nothing probed
  twice.  With raw sockets only IPv4 addresses are ever probed.
\<close>

theorem scan_covers_subnets:
  assumes "calm env cfg" "sc_ports cfg \<noteq> []" "0 < sc_max_concurrent cfg" "sc_max_concurrent cfg \<le> max_permits"
    and "parse_nets (ipnet env) subnets = Inr nets"
    and b: "build_priority_addrs (ipnet env) nets (sc_ports cfg) (sc_use_arp cfg) (arp_table env) =
      (arp, macs, heur)"
  shows "\<exists>ms st' rest. scan_subnets env cfg tx subnets st = Some (Returns (Inr ms), st') \<and>
    dialled_addrs st' = dialled_addrs st @ arp @ heur @ rest \<and>
    (\<not> icmp_opened env \<longrightarrow>
       rest = filter (\<lambda>a. a \<notin> set arp \<union> set heur) (host_iter (ipnet env) nets (sc_ports cfg)) \<and>
       (\<forall>net \<in> set nets. \<forall>h \<in> set (net_hosts (ipnet env) net). \<forall>p \<in> set (sc_ports cfg).
          SockAddr h p \<in> set (arp @ heur @ rest)) \<and>
       (distinct (concat (map (net_hosts (ipnet env)) nets)) \<and> distinct (sc_ports cfg) \<longrightarrow>
          distinct (arp @ heur @ rest))) \<and>
    (icmp_opened env \<longrightarrow> (\<forall>a \<in> set (arp @ heur @ rest). \<exists>ip. sa_ip a = IpV4 ip))"
proof -
  let ?pri = "set arp \<union> set heur"
  let ?rest = "sweep_targets env cfg nets ?pri"
  have e: "arp = arp_addrs (ipnet env) nets (sc_ports cfg)
      (if sc_use_arp cfg then arp_cache_hosts (arp_table env) else [])"
    "heur = heuristic_addrs (ipnet env) nets (sc_ports cfg) (set arp)"
    using b by (auto simp: build_priority_addrs_eq Let_def)
  have pri: "distinct arp" "distinct heur" "set arp \<inter> set heur = {}"
    using priority_addrs_distinct e by (blast, blast) (auto simp: e(2) heuristic_addrs_set)
  have v4: "\<exists>ip. sa_ip a = IpV4 ip" if "a \<in> ?pri" for a
    using that by (auto simp: e(2) heuristic_addrs_set) (auto simp: e(1) arp_addrs_set)
  have rest: "?rest = filter (\<lambda>a. a \<notin> ?pri) (host_iter (ipnet env) nets (sc_ports cfg))" if "\<not> icmp_opened env"
    using that by (simp add: sweep_targets_def ping_sweep_sync_def)
  have dist: "distinct (arp @ heur @ ?rest)"
    if "\<not> icmp_opened env" "distinct (concat (map (net_hosts (ipnet env)) nets))" "distinct (sc_ports cfg)"
    using pri distinct_pairs [OF that(2,3)] by (auto simp: rest [OF that(1)] host_iter_concat)
  have all: "SockAddr h p \<in> set (arp @ heur @ ?rest)"
    if "\<not> icmp_opened env" "net \<in> set nets" "h \<in> set (net_hosts (ipnet env) net)" "p \<in> set (sc_ports cfg)"
    for net h p
    using that(2-4) by (auto simp: rest [OF that(1)] host_iter_def)
  have raw: "\<exists>ip. sa_ip a = IpV4 ip" if "icmp_opened env" "a \<in> set (arp @ heur @ ?rest)" for a
    using that v4 raw_targets_v4 ping_sweep_sync_opened
    by (auto simp: sweep_targets_def split: option.splits if_splits)
  obtain ms st' where "scan_subnets env cfg tx subnets st = Some (Returns (Inr ms), st')"
    "dialled_addrs st' = dialled_addrs st @ arp @ heur @ ?rest"
    by (rule scan_calm [OF assms])
  then show ?thesis
    using rest all dist raw by (intro exI [of _ ms] exI [of _ st'] exI [of _ ?rest]) blast
qed

section \<open>Cancellation\<close>

definition cancels_at :: "'net tcp_env \<Rightarrow> scan_cfg \<Rightarrow> nat \<Rightarrow> bool" where
  "cancels_at env cfg k = (sc_token cfg \<noteq> None \<and> (\<forall>n \<ge> k. flag env n))"

lemma spawn_batch_reads:
  assumes "cancels_at env cfg k" "spawn_batch env (sc_token cfg) st as = (sp, st')"
  shows "polls st \<le> polls st' \<and> length sp + min k (polls st) \<le> min k (polls st')"
  using assms(2)
proof (induction as arbitrary: sp st st')
  case Nil
  then show ?case by simp
next
  case (Cons a as)
  let ?st1 = "st\<lparr>polls := Suc (polls st)\<rparr>"
  obtain sp2 st2 where s: "spawn_batch env (sc_token cfg) ?st1 as = (sp2, st2)" by force
  obtain t where tok: "sc_token cfg = Some t"
    using assms(1) by (auto simp: cancels_at_def)
  show ?case
  proof (cases "flag env (polls st)")
    case True
    then show ?thesis
      using Cons.prems tok by (auto simp: poll_token_def)
  next
    case False
    then have "polls st < k"
      using assms(1) by (meson cancels_at_def not_le)
    then show ?thesis
      using Cons.prems Cons.IH [OF s] s False tok by (auto simp: poll_token_def)
  qed
qed

definition reads_bound :: "'net tcp_env \<Rightarrow> scan_cfg \<Rightarrow> nat \<Rightarrow> scan_state \<Rightarrow> device_match list \<times> scan_state \<Rightarrow> bool" where
  "reads_bound env cfg k st0 acc =
     (cancels_at env cfg k \<longrightarrow>
        polls st0 \<le> polls (snd acc) \<and>
        length (dialled_addrs (snd acc)) + min k (polls st0) \<le>
          length (dialled_addrs st0) + min k (polls (snd acc)))"

interpretation bounded: scan_invariant env cfg nets tx "reads_bound env cfg k st0" for env cfg nets tx k st0
proof
  show "reads_bound env cfg k st0 (ms, st) \<Longrightarrow> poll_token env (sc_token cfg) st = (c, st') \<Longrightarrow>
      reads_bound env cfg k st0 (ms, st')" for ms st c st'
    by (auto simp: poll_token_def reads_bound_def)
  show "reads_bound env cfg k st0 (forward tx (map f found) (ms, st1))"
    if inv: "reads_bound env cfg k st0 (ms, st)" and run: "run_batch env cfg addrs st = Some (found, st1)"
    for ms st addrs found st1 f
  proof -
    obtain sp st2 where "spawn_batch env (sc_token cfg) st addrs = (sp, st2)"
      "dialled_addrs st1 = dialled_addrs st @ sp" "polls st1 = polls st2"
      using run_batch_Some [OF run] by auto
    then show ?thesis
      using inv spawn_batch_reads [of env cfg k st addrs sp st2]
      by (auto simp: reads_bound_def forward_def)
  qed
qed

text \<open>
  C10.  Cancellation bounds a scan: a token that is set from its \<open>k\<close>-th read on allows at most as
  many further probes as reads were left before, whatever the number of hosts; and a token set
  from the start lets nothing be probed or reported.
\<close>

theorem scan_cancelled:
  assumes "sc_token cfg = Some t" "\<forall>n \<ge> k. flag env n" "clock st = length (dialled_addrs st)"
    and "scan_subnets env cfg tx subnets st = Some (Returns (Inr ms), st')"
  shows "length (dialled_addrs st') \<le> length (dialled_addrs st) + (k - polls st) \<and>
    (k \<le> polls st \<longrightarrow> ms = [] \<and> dialled_addrs st' = dialled_addrs st)"
proof -
  have c: "cancels_at env cfg k"
    using assms(1,2) by (simp add: cancels_at_def)
  have bound: "length (dialled_addrs st') \<le> length (dialled_addrs st) + (k - polls st)"
    using scan_subnets_Inr [OF assms(4)]
  proof
    assume "\<exists>nets. scan_nets env cfg tx nets st = Some (ms, st')"
    then obtain nets where "scan_nets env cfg tx nets st = Some (ms, st')" ..
    then have "reads_bound env cfg k st (ms, st')"
      by (rule bounded.scan_nets_keeps [rotated]) (simp add: reads_bound_def)
    then show ?thesis
      using c by (auto simp: reads_bound_def)
  qed simp
  moreover have "ms = [] \<and> dialled_addrs st' = dialled_addrs st" if "k \<le> polls st"
  proof -
    have d: "dialled_addrs st' = dialled_addrs st"
      using bound that scan_extends [OF assms(4)] by (auto simp: prefix_def)
    then show ?thesis
      using scan_result_inv [OF assms(4,3)] by (auto simp: scan_inv_def)
  qed
  ultimately show ?thesis by blast
qed

section \<open>Examples\<close>

text \<open>
  One device answers at 10.0.0.7:502, which the neighbour table knows, in the network
  10.0.0.4/30; a token, where there is one, is set after its first read.
\<close>

definition sample_env :: "bool \<Rightarrow> cidr tcp_env" where
  "sample_env raw =
     \<lparr>ipnet = cidr_api,
      dial = (\<lambda>n a. if a = sample_addr then sample_conn [(5, ReadOk [79, 75]), (1, ReadOk [])]
                    else (sample_conn [])\<lparr>connect_ok := False\<rparr>),
      flag = (\<lambda>n. 0 < n), joins = (\<lambda>n. []),
      arp_table = [(Ipv4 10 0 0 7, Mac 2 0 0 0 0 1)], process_id = 7,
      icmp_opened = raw, icmp_events = [], icmp_order = [], route_probe = (\<lambda>a. \<lparr>up_bind_ok = True, up_connect_ok = False, up_local_addr = None\<rparr>),
      syn_opened = False, syn_events = [], syn_order = []\<rparr>"

definition sample_cfg :: "token option \<Rightarrow> scan_cfg" where
  "sample_cfg tok =
     \<lparr>sc_ports = [502], sc_params = sample_tcp (Some [63]), sc_max_concurrent = 4, sc_use_arp = True,
      sc_token = tok\<rparr>"

abbreviation sample_net :: cidr where
  "sample_net \<equiv> (Ipv4 10 0 0 4, 30)"

lemma sample_env_fields [simp]:
  "ipnet (sample_env raw) = cidr_api" "flag (sample_env raw) n = (0 < n)"
  "arp_table (sample_env raw) = [(Ipv4 10 0 0 7, Mac 2 0 0 0 0 1)]" "icmp_opened (sample_env raw) = raw"
  "dial (sample_env raw) n sample_addr = sample_conn [(5, ReadOk [79, 75]), (1, ReadOk [])]"
  "sc_ports (sample_cfg tok) = [502]" "sc_params (sample_cfg tok) = sample_tcp (Some [63])"
  "sc_max_concurrent (sample_cfg tok) = 4" "sc_use_arp (sample_cfg tok)" "sc_token (sample_cfg tok) = tok"
  "clock scan_start = 0" "polls scan_start = 0" "dialled_addrs scan_start = []"
  "4 \<le> max_permits"
  by (simp_all add: sample_env_def sample_cfg_def scan_start_def max_permits_def)

lemma sample_parse: "cidr_parse ''10.0.0.4/30'' = Inr sample_net"
  by code_simp

lemma sample_cache:
  "arp_cache_hosts [(Ipv4 10 0 0 7, Mac 2 0 0 0 0 1)] = [(Ipv4 10 0 0 7, Mac 2 0 0 0 0 1)]"
  by code_simp

lemma sample_arp: "arp_addrs cidr_api [sample_net] [502] [(Ipv4 10 0 0 7, Mac 2 0 0 0 0 1)] = [sample_addr]"
  by (simp add: arp_addrs_def first_net_def block_def sample_addr_def)

lemma sample_heuristic: "heuristic_addrs cidr_api [sample_net] [502] seen = []"
proof -
  have "cidr_network sample_net = Ipv4 10 0 0 4"
    by (simp add: cidr_network_def block_def nat_ip_def)
  then show ?thesis
    by (simp add: heuristic_addrs_def heuristic_ips_def priority_last_octets_def block_def)
qed

lemma sample_priority:
  "build_priority_addrs cidr_api [sample_net] [502] True [(Ipv4 10 0 0 7, Mac 2 0 0 0 0 1)] =
     ([sample_addr], arp_macs cidr_api [sample_net] [(Ipv4 10 0 0 7, Mac 2 0 0 0 0 1)], [])"
  by (simp add: build_priority_addrs_eq Let_def sample_cache sample_arp sample_heuristic)

lemma sample_priority_env:
  "build_priority_addrs (ipnet (sample_env raw)) [sample_net] (sc_ports (sample_cfg tok))
      (sc_use_arp (sample_cfg tok)) (arp_table (sample_env raw)) =
     ([sample_addr], arp_macs cidr_api [sample_net] [(Ipv4 10 0 0 7, Mac 2 0 0 0 0 1)], [])"
  by (simp add: sample_priority)

lemma sample_hosts: "cidr_hosts sample_net = [IpV4 (Ipv4 10 0 0 5), IpV4 (Ipv4 10 0 0 6)]"
  by (simp add: cidr_hosts_def block_def Let_def nat_ip_def upt_rec)

lemma sample_calm: "calm (sample_env raw) (sample_cfg None)"
  by (simp add: calm_def)

lemma sample_answer:
  "probe_addr (sample_tcp (Some [63])) None (dial (sample_env raw) n sample_addr) sample_addr =
     Returns (Inr (Some (build_match sample_addr [79, 75] None)))"
  by (simp add: sample_tcp_def sample_conn_def probe_addr_def connect_with_opts_def probe_stream_def
      filter_accepts_def)

lemma scan_returns_matches:
  assumes "0 < sc_max_concurrent cfg" "sc_max_concurrent cfg \<le> max_permits"
    "parse_nets (ipnet env) subnets = Inr nets"
  obtains ms st' where "scan_subnets env cfg tx subnets st = Some (Returns (Inr ms), st')"
  using scan_nets_returns [OF assms(1), of env tx nets st] assms that
  by (cases "sc_ports cfg = []") (auto simp: scan_subnets_def)

lemma sample_scan:
  obtains ms st' where
    "scan_subnets (sample_env False) (sample_cfg None) None [''10.0.0.4/30''] scan_start =
      Some (Returns (Inr ms), st')"
    "dialled_addrs st' = dialled_addrs scan_start @ [sample_addr] @ [] @
      sweep_targets (sample_env False) (sample_cfg None) [sample_net] (set [sample_addr] \<union> set [])"
  by (rule scan_calm [where env = "sample_env False" and subnets = "[''10.0.0.4/30'']" and tx = None
        and st = scan_start, OF sample_calm _ _ _ _ sample_priority_env])
    (simp_all add: sample_parse)

lemma sample_finds:
  obtains ms st' where
    "scan_subnets (sample_env False) (sample_cfg None) None [''10.0.0.4/30''] scan_start =
      Some (Returns (Inr ms), st')" "\<exists>m \<in> set ms. address m = show_sock sample_addr"
proof -
  obtain ms st' where s: "scan_subnets (sample_env False) (sample_cfg None) None [''10.0.0.4/30''] scan_start =
      Some (Returns (Inr ms), st')"
    and d: "dialled_addrs st' = dialled_addrs scan_start @ [sample_addr] @ [] @
      sweep_targets (sample_env False) (sample_cfg None) [sample_net] (set [sample_addr] \<union> set [])"
    by (rule sample_scan)
  have "probe_found (sample_env False) (sample_cfg None) 0 sample_addr (build_match sample_addr [79, 75] None)"
    using sample_answer by (simp add: probe_found_def)
  then have "\<exists>m \<in> set ms. same_device m (build_match sample_addr [79, 75] None)"
    using scan_result_inv [OF s] d by (fastforce simp: scan_inv_def dest!: bspec [of _ _ 0])
  then show thesis
    using that s by (auto simp: same_device_def)
qed

theorem scan_reports_probes_witness:
  "\<exists>ms st'. scan_subnets (sample_env False) (sample_cfg None) None [''10.0.0.4/30''] scan_start =
       Some (Returns (Inr ms), st') \<and>
     (\<exists>m \<in> set ms. address m = show_sock sample_addr \<and> response m = Some [79, 75])"
proof -
  obtain ms st' where s: "scan_subnets (sample_env False) (sample_cfg None) None [''10.0.0.4/30''] scan_start =
      Some (Returns (Inr ms), st')"
    and d: "dialled_addrs st' = dialled_addrs scan_start @ [sample_addr] @ [] @
      sweep_targets (sample_env False) (sample_cfg None) [sample_net] (set [sample_addr] \<union> set [])"
    by (rule sample_scan)
  have "clock scan_start = length (dialled_addrs scan_start)"
    by simp
  from scan_reports_probes [OF s this] have "\<exists>m \<in> set ms. address m = show_sock sample_addr \<and>
      response m = response (build_match sample_addr [79, 75] None)"
    using sample_answer [of False 0] d by (fastforce dest!: bspec [of _ _ 0])
  then show ?thesis
    using s by auto
qed

theorem scan_outcomes_witness:
  "scan_subnets (sample_env False) ((sample_cfg None)\<lparr>sc_max_concurrent := 0\<rparr>) None [''10.0.0.4/30''] scan_start
     = None"
proof -
  let ?cfg = "(sample_cfg None)\<lparr>sc_max_concurrent := 0\<rparr>"
  have "sc_max_concurrent ?cfg = 0" "sc_token ?cfg = None" "sc_ports ?cfg = [502]" "sc_use_arp ?cfg"
    by (simp_all add: sample_cfg_def)
  then show ?thesis
    using scan_outcomes [where cfg = ?cfg and env = "sample_env False" and subnets = "[''10.0.0.4/30'']"
        and nets = "[sample_net]" and tx = None and st = scan_start]
    by (simp add: sample_parse sample_priority)
qed

theorem scan_covers_subnets_witness:
  "\<exists>ms st'. scan_subnets (sample_env False) (sample_cfg None) None [''10.0.0.4/30''] scan_start =
       Some (Returns (Inr ms), st') \<and>
     dialled_addrs st' =
       [sample_addr, SockAddr (IpV4 (Ipv4 10 0 0 5)) 502, SockAddr (IpV4 (Ipv4 10 0 0 6)) 502]"
  using scan_covers_subnets [where env = "sample_env False" and subnets = "[''10.0.0.4/30'']" and tx = None
      and st = scan_start, OF sample_calm _ _ _ _ sample_priority_env]
  by (auto simp: sample_parse host_iter_def sample_hosts sample_addr_def)

theorem scan_cancelled_witness:
  "\<exists>ms st'. scan_subnets (sample_env False) (sample_cfg (Some 0)) None [''10.0.0.4/30''] scan_start =
       Some (Returns (Inr ms), st') \<and> length (dialled_addrs st') \<le> 1"
proof -
  obtain ms st' where s: "scan_subnets (sample_env False) (sample_cfg (Some 0)) None [''10.0.0.4/30'']
      scan_start = Some (Returns (Inr ms), st')"
    by (rule scan_returns_matches [where env = "sample_env False" and cfg = "sample_cfg (Some 0)"
          and subnets = "[''10.0.0.4/30'']" and tx = None and st = scan_start])
      (simp_all add: sample_parse)
  have "length (dialled_addrs st') \<le> length (dialled_addrs scan_start) + (1 - polls scan_start)"
    using scan_cancelled [OF _ _ _ s, of 0 1] by simp
  then show ?thesis
    using s by auto
qed

end
