(* ===== verification/Tcp_Details.thy ===== *)
theory Tcp_Details
  imports Tcp_Results
begin

text \<open>
  The details a scan adds to its matches, what it sends to a streaming caller, and the subnets it
  scans when none are configured.
\<close>

section \<open>Details of the matches\<close>

text \<open>
  What the probe of an address found, for a list of addresses of which the first was dialled as the
  \<open>n\<close>-th probe.
\<close>

definition found_at :: "'net tcp_env \<Rightarrow> scan_cfg \<Rightarrow> nat \<Rightarrow> sock_addr list \<Rightarrow> sock_addr \<Rightarrow> device_match \<Rightarrow> bool" where
  "found_at env cfg n d a m = (\<exists>i < length d. d ! i = a \<and> probe_found env cfg (n + i) a m)"

lemma found_at_append:
  "found_at env cfg n (d @ d') a m \<longleftrightarrow> found_at env cfg n d a m \<or> found_at env cfg (n + length d) d' a m"
proof
  assume "found_at env cfg n (d @ d') a m"
  then obtain i where i: "i < length d + length d'" "(d @ d') ! i = a" "probe_found env cfg (n + i) a m"
    by (auto simp: found_at_def)
  show "found_at env cfg n d a m \<or> found_at env cfg (n + length d) d' a m"
  proof (cases "i < length d")
    case True
    then show ?thesis using i by (auto simp: found_at_def nth_append)
  next
    case False
    then show ?thesis
      using i by (intro disjI2) (auto simp: found_at_def nth_append intro!: exI [of _ "i - length d"])
  qed
next
  assume "found_at env cfg n d a m \<or> found_at env cfg (n + length d) d' a m"
  then show "found_at env cfg n (d @ d') a m"
    by (force simp: found_at_def nth_append add.assoc intro: exI [of _ "length d + _"])
qed

lemma found_at_Nil [simp]: "\<not> found_at env cfg n [] a m"
  by (simp add: found_at_def)

lemma found_at_in: "found_at env cfg n d a m \<Longrightarrow> a \<in> set d"
  by (auto simp: found_at_def)

lemma run_batch_exact:
  assumes "run_batch env cfg addrs st = Some (found, st1)"
  defines "d \<equiv> until_cancelled env (sc_token cfg) (polls st) addrs"
  shows "polls st1 = reads_after (polls st) addrs d" "dialled_addrs st1 = dialled_addrs st @ d"
    "clock st1 = clock st + length d" "m \<in> set found \<longleftrightarrow> (\<exists>a. found_at env cfg (clock st) d a m)"
  using run_batch_Some [OF assms(1)]
  by (auto simp: d_def spawn_batch_eq Let_def join_all_set tasks_reports found_at_def)

lemma priority_stage_exact:
  assumes "priority_stage env cfg tx addrs tag macs (ms, st) = Some (ms', st')"
  defines "d \<equiv> until_cancelled env (sc_token cfg) (polls st) addrs"
  obtains found where "ms' = ms @ map (stamp_match tag macs) found"
    "polls st' = reads_after (polls st) addrs d" "dialled_addrs st' = dialled_addrs st @ d"
    "clock st' = clock st + length d" "\<forall>m. m \<in> set found \<longleftrightarrow> (\<exists>a. found_at env cfg (clock st) d a m)"
proof (cases "addrs = []")
  case True
  then show thesis
    using assms(1) that [of "[]"]
    by (simp add: d_def priority_stage_def until_cancelled_def reads_after_def)
next
  case False
  then obtain found st1 where "run_batch env cfg addrs st = Some (found, st1)"
    "(ms', st') = forward tx (map (stamp_match tag macs) found) (ms, st1)"
    using assms(1) by (auto simp: priority_stage_def run_priority_batch_def split: option.splits)
  then show thesis
    using that [of found] run_batch_exact [of env cfg addrs st found st1] by (simp add: d_def forward_def)
qed

text \<open>The sweep dials further addresses and appends what their probes found.\<close>

definition sweep_gives ::
  "'net tcp_env \<Rightarrow> scan_cfg \<Rightarrow> device_match list \<Rightarrow> scan_state \<Rightarrow> device_match list \<times> scan_state \<Rightarrow> bool" where
  "sweep_gives env cfg ms0 st0 acc =
     (\<exists>new d. fst acc = ms0 @ new \<and> dialled_addrs (snd acc) = dialled_addrs st0 @ d \<and>
        clock (snd acc) = clock st0 + length d \<and>
        (\<forall>m. m \<in> set new \<longleftrightarrow> (\<exists>a. found_at env cfg (clock st0) d a m)))"

interpretation sweeps: sweep_invariant env cfg tx "sweep_gives env cfg ms0 st0" for env cfg tx ms0 st0
proof
  show "sweep_gives env cfg ms0 st0 (ms, st) \<Longrightarrow> poll_token env (sc_token cfg) st = (c, st') \<Longrightarrow>
      sweep_gives env cfg ms0 st0 (ms, st')" for ms st c st'
    by (auto simp: sweep_gives_def poll_token_def)
  show "sweep_gives env cfg ms0 st0 (forward tx found (ms, st1))"
    if inv: "sweep_gives env cfg ms0 st0 (ms, st)" and run: "run_batch env cfg addrs st = Some (found, st1)"
    for ms st addrs found st1
  proof -
    obtain new d where "ms = ms0 @ new" "dialled_addrs st = dialled_addrs st0 @ d"
      "clock st = clock st0 + length d" "\<forall>m. m \<in> set new \<longleftrightarrow> (\<exists>a. found_at env cfg (clock st0) d a m)"
      using inv by (auto simp: sweep_gives_def)
    then show ?thesis
      using run_batch_exact [OF run] unfolding sweep_gives_def forward_def
      by (intro exI [of _ "new @ found"]
          exI [of _ "d @ until_cancelled env (sc_token cfg) (polls st) addrs"])
        (simp add: found_at_append, blast)
  qed
qed

lemma main_sweep_exact:
  assumes "main_sweep env cfg tx nets pri (ms, st) = Some (ms', st')"
  obtains new d where "ms' = ms @ new" "dialled_addrs st' = dialled_addrs st @ d"
    "\<forall>m. m \<in> set new \<longleftrightarrow> (\<exists>a. found_at env cfg (clock st) d a m)"
proof -
  have "sweep_gives env cfg ms st (ms, st)"
    by (auto simp: sweep_gives_def intro: exI [of _ "[]"])
  then have "sweep_gives env cfg ms st (ms', st')"
    using assms by (rule sweeps.main_sweep_keeps)
  then show thesis
    using that by (auto simp: sweep_gives_def)
qed

lemma probe_found_match: "probe_found env cfg n a m \<Longrightarrow> \<exists>r. m = build_match a r None"
  using probe_addr_found by (auto simp: probe_found_def)

lemma found_at_plain: "found_at env cfg n d a m \<Longrightarrow> info m = Map.empty \<and> address m = show_sock a"
  by (auto simp: found_at_def build_match_def dest!: probe_found_match)

lemma stamp_octet: "info m = Map.empty \<Longrightarrow> stamp_match tag None m = m\<lparr>info := [''source'' \<mapsto> tag]\<rparr>"
  by (simp add: stamp_match_def info_insert_def)

lemma stamp_cached:
  assumes "build_priority_addrs (ipnet env) nets (sc_ports cfg) (sc_use_arp cfg) (arp_table env) =
      (arp, macs, heur)" "a \<in> set arp" "info m = Map.empty" "address m = show_sock a"
  obtains ip p mac where "a = SockAddr (IpV4 ip) p" "macs ip = Some mac"
    "stamp_match tag (Some macs) m = m\<lparr>info := [''source'' \<mapsto> tag, ''mac'' \<mapsto> format_mac mac]\<rparr>"
proof -
  let ?hosts = "if sc_use_arp cfg then arp_cache_hosts (arp_table env) else []"
  have e: "arp = arp_addrs (ipnet env) nets (sc_ports cfg) ?hosts" "macs = arp_macs (ipnet env) nets ?hosts"
    using assms(1) by (auto simp: build_priority_addrs_eq Let_def)
  obtain ip mac0 p where a: "a = SockAddr (IpV4 ip) p" "(ip, mac0) \<in> set ?hosts"
    "first_net (ipnet env) nets ip"
    using assms(2) by (auto simp: e(1) arp_addrs_set first_net_def)
  then obtain mac where mac: "macs ip = Some mac"
    using arp_macs_dom [of "ipnet env" nets ?hosts] unfolding e(2) by blast
  moreover have "stamp_match tag (Some macs) m = m\<lparr>info := [''source'' \<mapsto> tag, ''mac'' \<mapsto> format_mac mac]\<rparr>"
    using mac parse_show_sock_v4 [of ip p] assms(3,4) unfolding a(1)
    by (simp add: stamp_match_def info_insert_def Let_def)
  ultimately show thesis
    using a(1) that by blast
qed

lemma macs_cached:
  assumes "build_priority_addrs (ipnet env) nets (sc_ports cfg) (sc_use_arp cfg) (arp_table env) =
      (arp, macs, heur)" "macs ip = Some mac"
  shows "(ip, mac) \<in> set (arp_cache_hosts (arp_table env))"
  using assms arp_macs_in [of "ipnet env" nets _ ip mac]
  by (auto simp: build_priority_addrs_eq Let_def split: if_splits)

text \<open>The two stages before the sweep, with what they do to the matches of their probes.\<close>

lemma cached_stage_exact:
  assumes "build_priority_addrs (ipnet env) nets (sc_ports cfg) (sc_use_arp cfg) (arp_table env) =
      (arp, macs, heur)" "d = until_cancelled env tok n arp"
    "\<forall>m. m \<in> set found \<longleftrightarrow> (\<exists>a. found_at env cfg k d a m)"
  shows "m \<in> stamp_match tag (Some macs) ` set found \<longleftrightarrow>
    (\<exists>ip p mac m0. found_at env cfg k d (SockAddr (IpV4 ip) p) m0 \<and> macs ip = Some mac \<and>
       m = m0\<lparr>info := [''source'' \<mapsto> tag, ''mac'' \<mapsto> format_mac mac]\<rparr>)"
proof -
  have cached: "\<exists>ip p mac. a = SockAddr (IpV4 ip) p \<and> macs ip = Some mac \<and>
      stamp_match tag (Some macs) m0 = m0\<lparr>info := [''source'' \<mapsto> tag, ''mac'' \<mapsto> format_mac mac]\<rparr>"
    if "found_at env cfg k d a m0" for a m0
  proof -
    have "a \<in> set arp"
      using found_at_in [OF that] until_cancelled_prefix [of env tok n arp] assms(2) set_mono_prefix by blast
    then show ?thesis
      using found_at_plain [OF that] by (auto elim: stamp_cached [OF assms(1), where tag = tag])
  qed
  show ?thesis
  proof
    assume "m \<in> stamp_match tag (Some macs) ` set found"
    then obtain a m0 where m0: "found_at env cfg k d a m0" "m = stamp_match tag (Some macs) m0"
      using assms(3) by blast
    then show "\<exists>ip p mac m0. found_at env cfg k d (SockAddr (IpV4 ip) p) m0 \<and> macs ip = Some mac \<and>
        m = m0\<lparr>info := [''source'' \<mapsto> tag, ''mac'' \<mapsto> format_mac mac]\<rparr>"
      using cached [OF m0(1)] by blast
  next
    assume "\<exists>ip p mac m0. found_at env cfg k d (SockAddr (IpV4 ip) p) m0 \<and> macs ip = Some mac \<and>
        m = m0\<lparr>info := [''source'' \<mapsto> tag, ''mac'' \<mapsto> format_mac mac]\<rparr>"
    then obtain ip p mac m0 where m0: "found_at env cfg k d (SockAddr (IpV4 ip) p) m0" "macs ip = Some mac"
      "m = m0\<lparr>info := [''source'' \<mapsto> tag, ''mac'' \<mapsto> format_mac mac]\<rparr>"
      by blast
    then have "m = stamp_match tag (Some macs) m0"
      using cached [OF m0(1)] by auto
    then show "m \<in> stamp_match tag (Some macs) ` set found"
      using assms(3) m0(1) by blast
  qed
qed

lemma octet_stage_exact:
  assumes "\<forall>m. m \<in> set found \<longleftrightarrow> (\<exists>a. found_at env cfg k d a m)"
  shows "m \<in> stamp_match tag None ` set found \<longleftrightarrow>
    (\<exists>a m0. found_at env cfg k d a m0 \<and> m = m0\<lparr>info := [''source'' \<mapsto> tag]\<rparr>)"
proof -
  have "stamp_match tag None m0 = m0\<lparr>info := [''source'' \<mapsto> tag]\<rparr>" if "found_at env cfg k d a m0" for a m0
    using stamp_octet found_at_plain [OF that] by blast
  then show ?thesis
    unfolding image_iff Bex_def assms [rule_format] by metis
qed

lemma scan_nets_details:
  assumes scan: "scan_nets env cfg tx nets st = Some (ms, st')"
    and b: "build_priority_addrs (ipnet env) nets (sc_ports cfg) (sc_use_arp cfg) (arp_table env) =
      (arp, macs, heur)"
  defines "d1 \<equiv> until_cancelled env (sc_token cfg) (polls st) arp"
  defines "r \<equiv> reads_after (polls st) arp d1"
  defines "c \<equiv> cancel_seen (sc_token cfg) (flag env r)"
  defines "d2 \<equiv> if c then [] else until_cancelled env (sc_token cfg) (Suc r) heur"
  obtains cached octets new d3 where "ms = map (stamp_match ''arp_cache'' (Some macs)) cached @
      map (stamp_match ''heuristic'' None) octets @ new"
    "dialled_addrs st' = dialled_addrs st @ d1 @ d2 @ d3" "c \<longrightarrow> d3 = []"
    "\<forall>m. m \<in> set cached \<longleftrightarrow> (\<exists>a. found_at env cfg (clock st) d1 a m)"
    "\<forall>m. m \<in> set octets \<longleftrightarrow> (\<exists>a. found_at env cfg (clock st + length d1) d2 a m)"
    "\<forall>m. m \<in> set new \<longleftrightarrow> (\<exists>a. found_at env cfg (clock st + length d1 + length d2) d3 a m)"
proof -
  obtain ms1 st1 where 1: "priority_stage env cfg tx arp ''arp_cache'' (Some macs) ([], st) = Some (ms1, st1)"
    using scan b by (auto simp: scan_nets_def split: option.splits)
  obtain cached where ms1: "ms1 = map (stamp_match ''arp_cache'' (Some macs)) cached"
    and st1: "polls st1 = r" "dialled_addrs st1 = dialled_addrs st @ d1" "clock st1 = clock st + length d1"
    and cached: "\<forall>m. m \<in> set cached \<longleftrightarrow> (\<exists>a. found_at env cfg (clock st) d1 a m)"
    by (rule priority_stage_exact [OF 1]) (simp add: d1_def r_def)
  define st2 where "st2 = st1\<lparr>polls := Suc r\<rparr>"
  have p1: "poll_token env (sc_token cfg) st1 = (c, st2)"
    by (simp add: poll_token_def c_def st1 st2_def)
  show thesis
  proof (cases c)
    case True
    then have "ms = ms1" "st' = st2"
      using scan b 1 p1 by (simp_all add: scan_nets_def)
    then show thesis
      using True by (intro that [of cached "[]" "[]" "[]"]) (simp_all add: ms1 st1 st2_def cached d2_def)
  next
    case False
    obtain ms3 st3 where 2: "priority_stage env cfg tx heur ''heuristic'' None (ms1, st2) = Some (ms3, st3)"
      using scan b 1 p1 False by (auto simp: scan_nets_def split: option.splits)
    obtain octets where ms3: "ms3 = ms1 @ map (stamp_match ''heuristic'' None) octets"
      and st3: "dialled_addrs st3 = dialled_addrs st2 @ d2" "clock st3 = clock st2 + length d2"
      and octets: "\<forall>m. m \<in> set octets \<longleftrightarrow> (\<exists>a. found_at env cfg (clock st2) d2 a m)"
      by (rule priority_stage_exact [OF 2]) (simp add: d2_def False st2_def)
    obtain c2 st4 where p2: "poll_token env (sc_token cfg) st3 = (c2, st4)" by force
    then have st4: "dialled_addrs st4 = dialled_addrs st3" "clock st4 = clock st3"
      by (auto simp: poll_token_def)
    obtain new d3 where "ms = ms3 @ new" "dialled_addrs st' = dialled_addrs st4 @ d3"
      "\<forall>m. m \<in> set new \<longleftrightarrow> (\<exists>a. found_at env cfg (clock st4) d3 a m)"
    proof (cases c2)
      case True
      then have "ms = ms3" "st' = st4"
        using scan b 1 p1 False 2 p2 by (simp_all add: scan_nets_def)
      then show thesis
        using that [of "[]" "[]"] by simp
    next
      case c2: False
      have "main_sweep env cfg tx nets (set arp \<union> set heur) (ms3, st4) = Some (ms, st')"
        using scan b 1 p1 False 2 p2 c2 by (simp add: scan_nets_def)
      then show thesis
        by (rule main_sweep_exact) (rule that)
    qed
    then show thesis
      using False octets cached
      by (intro that [of cached octets new d3]) (simp_all add: ms1 ms3 st1 st2_def st3 st4)
  qed
qed

text \<open>
  C25.  The details of a match of a scan say how it was found, and nothing else.  The result is the
  matches of the neighbour table's hosts, then those of the common octets, then those of the sweep.
  A match of the first part is exactly what the probe of such a host found, with the source
  \<open>arp_cache\<close> and the hardware address the table has for its IP address, written so that it parses
  back; one of the second part is what the probe of a common octet found, with the source
  \<open>heuristic\<close>; one of the third part is what a probe of the sweep found, without any details.
  The first two parts dial the priority addresses up to the first read of the token that sees it
  set, and no probe that found something is left out of its part.
\<close>

theorem scan_details:
  assumes "scan_subnets env cfg tx subnets st = Some (Returns (Inr ms), st')"
    and "parse_nets (ipnet env) subnets = Inr nets"
    and "build_priority_addrs (ipnet env) nets (sc_ports cfg) (sc_use_arp cfg) (arp_table env) =
      (arp, macs, heur)"
  shows "\<exists>cached octets new d1 r d2 d3. ms = cached @ octets @ new \<and>
    dialled_addrs st' = dialled_addrs st @ d1 @ d2 @ d3 \<and>
    d1 = until_cancelled env (sc_token cfg) (polls st) arp \<and> r = reads_after (polls st) arp d1 \<and>
    d2 = (if cancel_seen (sc_token cfg) (flag env r) then []
          else until_cancelled env (sc_token cfg) (Suc r) heur) \<and>
    (cancel_seen (sc_token cfg) (flag env r) \<longrightarrow> d3 = []) \<and>
    (\<forall>m. m \<in> set cached \<longleftrightarrow>
       (\<exists>ip p mac m0. found_at env cfg (clock st) d1 (SockAddr (IpV4 ip) p) m0 \<and> macs ip = Some mac \<and>
          m = m0\<lparr>info := [''source'' \<mapsto> ''arp_cache'', ''mac'' \<mapsto> format_mac mac]\<rparr>)) \<and>
    (\<forall>m. m \<in> set octets \<longleftrightarrow>
       (\<exists>a m0. found_at env cfg (clock st + length d1) d2 a m0 \<and>
          m = m0\<lparr>info := [''source'' \<mapsto> ''heuristic'']\<rparr>)) \<and>
    (\<forall>m. m \<in> set new \<longleftrightarrow>
       info m = Map.empty \<and> (\<exists>a. found_at env cfg (clock st + length d1 + length d2) d3 a m)) \<and>
    (\<forall>ip mac. macs ip = Some mac \<longrightarrow> (ip, mac) \<in> set (arp_cache_hosts (arp_table env)) \<and>
       parse_mac_colons (format_mac mac) = Some mac)"
proof -
  let ?d1 = "until_cancelled env (sc_token cfg) (polls st) arp"
  let ?r = "reads_after (polls st) arp ?d1"
  let ?c = "cancel_seen (sc_token cfg) (flag env ?r)"
  let ?d2 = "if ?c then [] else until_cancelled env (sc_token cfg) (Suc ?r) heur"
  have macs: "\<forall>ip mac. macs ip = Some mac \<longrightarrow> (ip, mac) \<in> set (arp_cache_hosts (arp_table env)) \<and>
      parse_mac_colons (format_mac mac) = Some mac"
    using macs_cached [OF assms(3)] by (simp add: parse_format_mac_text)
  show ?thesis
  proof (cases "sc_ports cfg = []")
    case True
    then have "ms = []" "st' = st"
      using assms(1) by (simp_all add: scan_subnets_def)
    moreover have "set arp = {}" "set heur = {}"
      using priority_addrs_exact [OF assms(3)] by (simp_all add: True)
    ultimately have "ms = []" "st' = st" "arp = []" "heur = []"
      by simp_all
    then show ?thesis
      using macs by (intro exI [of _ "[]"] exI) (auto simp: until_cancelled_def)
  next
    case False
    then have "scan_nets env cfg tx nets st = Some (ms, st')"
      using assms(1,2) by (auto simp: scan_subnets_def split: if_splits)
    then obtain cached octets new d3 where found: "ms = map (stamp_match ''arp_cache'' (Some macs)) cached @
        map (stamp_match ''heuristic'' None) octets @ new"
      "dialled_addrs st' = dialled_addrs st @ ?d1 @ ?d2 @ d3" "?c \<longrightarrow> d3 = []"
      "\<forall>m. m \<in> set cached \<longleftrightarrow> (\<exists>a. found_at env cfg (clock st) ?d1 a m)"
      "\<forall>m. m \<in> set octets \<longleftrightarrow> (\<exists>a. found_at env cfg (clock st + length ?d1) ?d2 a m)"
      "\<forall>m. m \<in> set new \<longleftrightarrow> (\<exists>a. found_at env cfg (clock st + length ?d1 + length ?d2) d3 a m)"
      by (rule scan_nets_details [OF _ assms(3)])
    have new: "\<forall>m. m \<in> set new \<longleftrightarrow>
        info m = Map.empty \<and> (\<exists>a. found_at env cfg (clock st + length ?d1 + length ?d2) d3 a m)"
      using found(6) found_at_plain by metis
    show ?thesis
      by (rule exI [of _ "map (stamp_match ''arp_cache'' (Some macs)) cached"],
          rule exI [of _ "map (stamp_match ''heuristic'' None) octets"], rule exI [of _ new],
          rule exI [of _ ?d1], rule exI [of _ ?r], rule exI [of _ ?d2], rule exI [of _ d3])
        (simp only: set_map cached_stage_exact [OF assms(3) refl found(4)] octet_stage_exact [OF found(5)]
          found(1,2) new simp_thms, use found(3) macs in blast)
  qed
qed

theorem scan_details_witness:
  "\<exists>ms st' m. scan_subnets (sample_env False) (sample_cfg None) None [''10.0.0.4/30''] scan_start =
       Some (Returns (Inr ms), st') \<and> m \<in> set ms \<and>
     info m = [''source'' \<mapsto> ''arp_cache'', ''mac'' \<mapsto> format_mac (Mac 2 0 0 0 0 1)]"
proof -
  let ?env = "sample_env False" and ?cfg = "sample_cfg None" and ?a = "IpV4 (Ipv4 10 0 0 7)"
  obtain ms st' where s: "scan_subnets ?env ?cfg None [''10.0.0.4/30''] scan_start = Some (Returns (Inr ms), st')"
    by (rule sample_finds)
  let ?macs = "arp_macs cidr_api [sample_net] [(Ipv4 10 0 0 7, Mac 2 0 0 0 0 1)]"
  have p: "parse_nets (ipnet ?env) [''10.0.0.4/30''] = Inr [sample_net]"
    by (simp add: sample_parse)
  have mac: "?macs (Ipv4 10 0 0 7) = Some (Mac 2 0 0 0 0 1)"
    by (simp add: first_net_def block_def)
  have d: "until_cancelled ?env (sc_token ?cfg) (polls scan_start) [sample_addr] = [sample_addr]"
    by (rule until_cancelled_calm) simp
  have found: "found_at ?env ?cfg (clock scan_start) [sample_addr] (SockAddr ?a 502)
      (build_match sample_addr [79, 75] None)"
    using sample_answer [of False 0] by (simp add: found_at_def probe_found_def sample_addr_def)
  obtain cached rest where "ms = cached @ rest" "\<forall>m. m \<in> set cached \<longleftrightarrow>
      (\<exists>ip p mac m0. found_at ?env ?cfg (clock scan_start) [sample_addr] (SockAddr (IpV4 ip) p) m0 \<and>
         ?macs ip = Some mac \<and> m = m0\<lparr>info := [''source'' \<mapsto> ''arp_cache'', ''mac'' \<mapsto> format_mac mac]\<rparr>)"
    using scan_details [OF s p sample_priority_env] unfolding d by blast
  then have "(build_match sample_addr [79, 75] None)\<lparr>info :=
      [''source'' \<mapsto> ''arp_cache'', ''mac'' \<mapsto> format_mac (Mac 2 0 0 0 0 1)]\<rparr> \<in> set ms"
    using found mac by (metis UnCI set_append)
  then show ?thesis
    using s by (intro exI conjI) (assumption, assumption, simp)
qed

section \<open>What is sent to a streaming caller\<close>

definition streamed ::
  "(nat \<Rightarrow> bool) option \<Rightarrow> sender \<Rightarrow> device_match list \<times> scan_state \<Rightarrow> bool" where
  "streamed tx s0 acc = (out (snd acc) = send_all tx (fst acc) s0)"

interpretation streams: scan_invariant env cfg nets tx "streamed tx s0" for env cfg nets tx s0
proof
  show "streamed tx s0 (ms, st) \<Longrightarrow> poll_token env (sc_token cfg) st = (c, st') \<Longrightarrow>
      streamed tx s0 (ms, st')" for ms st c st'
    by (auto simp: streamed_def poll_token_def)
  show "streamed tx s0 (forward tx (map f found) (ms, st1))"
    if inv: "streamed tx s0 (ms, st)" and run: "run_batch env cfg addrs st = Some (found, st1)"
    for ms st addrs found st1 f
  proof -
    obtain spawned st0 where sp: "spawn_batch env (sc_token cfg) st addrs = (spawned, st0)"
      and "out st1 = out st0"
      using run_batch_Some [OF run] by auto
    then have "out st1 = out st"
      using spawn_batch_state [OF sp] by simp
    then show ?thesis
      using inv by (simp add: streamed_def forward_def send_all_append)
  qed
qed

lemma scan_streams:
  assumes "scan_subnets env cfg tx subnets st = Some (Returns (Inr ms), st')"
  shows "out st' = send_all tx ms (out st)"
  using scan_subnets_Inr [OF assms]
proof
  assume "\<exists>nets. scan_nets env cfg tx nets st = Some (ms, st')"
  then obtain nets where "scan_nets env cfg tx nets st = Some (ms, st')" ..
  then have "streamed tx (out st) (ms, st')"
    by (rule streams.scan_nets_keeps [rotated]) (simp add: streamed_def send_all_def)
  then show ?thesis
    by (simp add: streamed_def)
qed (simp add: send_all_def)

section \<open>Local subnets\<close>

lemma parse_nets_Inr:
  "parse_nets api ss = Inr nets \<longleftrightarrow> list_all2 (\<lambda>s n. net_parse api s = Inr n) ss nets"
proof (induction ss arbitrary: nets)
  case Nil
  then show ?case by auto
next
  case (Cons s ss)
  have "parse_nets api (s # ss) = Inr nets \<longleftrightarrow>
      (\<exists>n ns. nets = n # ns \<and> net_parse api s = Inr n \<and> parse_nets api ss = Inr ns)"
    by (cases "net_parse api s"; cases "parse_nets api ss") auto
  then show ?case
    by (simp add: list_all2_Cons1 Cons.IH)
qed

lemma parse_nets_all:
  assumes "\<forall>s \<in> set ss. \<exists>n. net_parse api s = Inr n \<and> P s n"
  obtains nets where "parse_nets api ss = Inr nets" "list_all2 (\<lambda>s n. net_parse api s = Inr n \<and> P s n) ss nets"
proof -
  obtain f where f: "\<forall>s \<in> set ss. net_parse api s = Inr (f s) \<and> P s (f s)"
    using bchoice [OF assms] by blast
  then have "list_all2 (\<lambda>s n. net_parse api s = Inr n \<and> P s n) ss (map f ss)"
    by (simp add: list_all2_map2 list_all2_same)
  moreover have "parse_nets api ss = Inr (map f ss)"
    using f by (simp add: parse_nets_Inr list_all2_map2 list_all2_same)
  ultimately show thesis
    using that by blast
qed

lemma cidr_parses_back:
  assumes "ipnet_laws api" "net_v4_network api n = Some nw"
  obtains n' where "net_parse api (cidr_text nw (net_prefix_len api n)) = Inr n'" "v4_net api n'"
    "net_prefix_len api n' = net_prefix_len api n" "net_contains api n' = net_contains api n"
proof -
  have "\<forall>n nw. net_v4_network api n = Some nw \<longrightarrow>
      (\<exists>n'. net_parse api (cidr_text nw (net_prefix_len api n)) = Inr n' \<and>
        net_v4_network api n' = Some nw \<and> net_prefix_len api n' = net_prefix_len api n \<and>
        net_contains api n' = net_contains api n)"
    using assms(1) unfolding ipnet_laws_def by (rule conjunct1)
  then obtain n' where "net_parse api (cidr_text nw (net_prefix_len api n)) = Inr n'"
    "net_v4_network api n' = Some nw" "net_prefix_len api n' = net_prefix_len api n"
    "net_contains api n' = net_contains api n"
    using assms(2) by blast
  then show thesis
    using that [of n'] by (simp add: v4_net_def)
qed

lemma v4_hosts_bound:
  assumes "ipnet_laws api" "v4_net api n" "mp \<le> net_prefix_len api n"
  shows "length (net_hosts api n) \<le> 2 ^ (32 - unat mp)"
proof -
  have "length (net_hosts api n) \<le> 2 ^ (32 - unat (net_prefix_len api n))"
    using assms(1,2) by (simp add: ipnet_laws_def)
  also have "\<dots> \<le> 2 ^ (32 - unat mp)"
    using assms(3) by (simp add: word_le_nat_alt diff_le_mono2)
  finally show ?thesis .
qed

definition usable_iface :: "'net ipnet_api \<Rightarrow> ipv4 \<Rightarrow> iface \<Rightarrow> bool" where
  "usable_iface api ip i =
     (\<not> if_loopback i \<and> \<not> is_link_local ip \<and>
      (\<exists>netmask. if_v4 i = Some (ip, netmask) \<and> net_with_netmask api ip netmask \<noteq> None))"

text \<open>
  The network that stands for an interface: around its address, as narrow as its netmask or as the
  prefix asked for, whichever is narrower.
\<close>

definition iface_net :: "'net ipnet_api \<Rightarrow> u8 \<Rightarrow> iface \<Rightarrow> 'net \<Rightarrow> bool" where
  "iface_net api mp i n =
     (v4_net api n \<and>
      (\<exists>ip netmask net. if_v4 i = Some (ip, netmask) \<and> net_with_netmask api ip netmask = Some net \<and>
         net_contains api n (IpV4 ip) \<and> net_prefix_len api n = max mp (net_prefix_len api net)))"

lemma iface_net_facts:
  assumes "iface_net api mp i n" "usable_iface api ip i"
  shows "net_contains api n (IpV4 ip)" "mp \<le> net_prefix_len api n" "v4_net api n"
  using assms by (auto simp: iface_net_def usable_iface_def)

lemma iface_cidr_spec:
  assumes "ipnet_laws api" "\<And>ip. net_contains api ll (IpV4 ip) = is_link_local ip" "mp \<le> 32"
    "\<not> if_loopback i"
  shows "case iface_cidr api ll mp i of
      None \<Rightarrow> \<forall>ip. \<not> usable_iface api ip i
    | Some c \<Rightarrow> (\<exists>n ip. net_parse api c = Inr n \<and> iface_net api mp i n \<and> usable_iface api ip i)"
proof (cases "\<exists>ip. usable_iface api ip i")
  case False
  then have "iface_cidr api ll mp i = None"
    using assms(2,4) by (auto simp: iface_cidr_def usable_iface_def split: option.split)
  then show ?thesis
    using False by simp
next
  case True
  then obtain ip netmask net where i: "if_v4 i = Some (ip, netmask)" "net_with_netmask api ip netmask = Some net"
    "\<not> is_link_local ip"
    by (auto simp: usable_iface_def)
  let ?net = "if net_prefix_len api net < mp then unwrap_or_net net (net_new api ip mp) else net"
  have "v4_net api net" "net_contains api net (IpV4 ip)"
    using assms(1) i(2) by (auto simp: ipnet_laws_def)
  moreover obtain n where "net_new api ip mp = Some n" "v4_net api n" "net_prefix_len api n = mp"
    "net_contains api n (IpV4 ip)"
    using assms(1,3) unfolding ipnet_laws_def by blast
  ultimately have net: "v4_net api ?net" "net_contains api ?net (IpV4 ip)"
    "net_prefix_len api ?net = max mp (net_prefix_len api net)"
    by (auto simp: unwrap_or_net_def max_def)
  then obtain nw where nw: "net_v4_network api ?net = Some nw"
    by (auto simp: v4_net_def)
  obtain n' where "net_parse api (cidr_text nw (net_prefix_len api ?net)) = Inr n'" "v4_net api n'"
    "net_prefix_len api n' = net_prefix_len api ?net" "net_contains api n' = net_contains api ?net"
    by (rule cidr_parses_back [OF assms(1) nw])
  moreover have "iface_cidr api ll mp i = Some (cidr_text nw (net_prefix_len api ?net))"
    using i assms(2) nw unfolding iface_cidr_def by (simp add: cidr_text_def Let_def)
  moreover have "usable_iface api ip i"
    using i assms(4) by (auto simp: usable_iface_def)
  ultimately show ?thesis
    using net i by (auto simp: iface_net_def simp del: split_paired_Ex)
qed

text \<open>The subnets of the interfaces, and the networks they parse to.\<close>

definition iface_cidrs :: "'net ipnet_api \<Rightarrow> 'net \<Rightarrow> u8 \<Rightarrow> iface list \<Rightarrow> string list" where
  "iface_cidrs api ll mp es =
     keep_first {} (\<lambda>s. s) (List.map_filter (iface_cidr api ll mp) (filter (\<lambda>i. \<not> if_loopback i) es))"

lemma iface_cidrs_nets:
  assumes "ipnet_laws api" "\<And>ip. net_contains api ll (IpV4 ip) = is_link_local ip" "mp \<le> 32"
  obtains nets where "parse_nets api (iface_cidrs api ll mp es) = Inr nets"
    "\<forall>n \<in> set nets. \<exists>ip. \<exists>i \<in> set es. iface_net api mp i n \<and> usable_iface api ip i"
    "\<forall>ip. \<forall>i \<in> set es. usable_iface api ip i \<longrightarrow> (\<exists>n \<in> set nets. iface_net api mp i n)"
proof -
  let ?c = "iface_cidr api ll mp" and ?cidrs = "iface_cidrs api ll mp es"
  let ?P = "\<lambda>c n. net_parse api c = Inr n \<and> (\<exists>ip. \<exists>i \<in> set es. iface_net api mp i n \<and> usable_iface api ip i)"
  have mem: "set ?cidrs = {c. \<exists>i \<in> set es. \<not> if_loopback i \<and> ?c i = Some c}"
    unfolding iface_cidrs_def keep_first_set_eq by (force simp: List.map_filter_def image_iff)
  have "\<exists>n. ?P c n" if c: "c \<in> set ?cidrs" for c
  proof -
    obtain i where i: "i \<in> set es" "\<not> if_loopback i" "?c i = Some c"
      using c unfolding mem by blast
    then show ?thesis
      using iface_cidr_spec [OF assms(1,2,3) i(2)] by auto
  qed
  then have "\<forall>c \<in> set ?cidrs. \<exists>n. ?P c n"
    by blast
  then obtain nets where nets: "parse_nets api ?cidrs = Inr nets" and P: "list_all2 ?P ?cidrs nets"
    by (rule parse_nets_all)
  have "\<exists>n \<in> set nets. iface_net api mp i n" if i: "i \<in> set es" "usable_iface api ip i" for ip i
  proof -
    have nl: "\<not> if_loopback i"
      using i(2) by (auto simp: usable_iface_def)
    obtain c n where c: "?c i = Some c" "net_parse api c = Inr n" "iface_net api mp i n"
      using iface_cidr_spec [OF assms(1,2,3) nl] i(2) by (auto split: option.splits)
    then have "c \<in> set ?cidrs"
      using i(1) nl unfolding mem by blast
    then have "n \<in> set nets"
      using list_all2_in_left [OF P, of c] c(2) by auto
    then show ?thesis using c(3) by blast
  qed
  then show thesis
    using nets list_all2_in_right [OF P] by (intro that) blast+
qed

lemma local_subnets_nets:
  assumes "ipnet_laws api" "16 \<le> mp" "mp \<le> 32"
  obtains cidrs nets where "local_subnets api ifaces mp = Returns (Inr cidrs)" "distinct cidrs"
    "parse_nets api cidrs = Inr nets"
    "\<forall>net \<in> set nets. mp \<le> net_prefix_len api net \<and> length (net_hosts api net) \<le> 2 ^ (32 - unat mp) \<and>
       (\<exists>es ip. ifaces = Some es \<and> net_contains api net (IpV4 ip) \<and> (\<exists>i \<in> set es. usable_iface api ip i))"
    "\<forall>es ip. \<forall>i. ifaces = Some es \<and> i \<in> set es \<and> usable_iface api ip i \<longrightarrow>
       (\<exists>net \<in> set nets. iface_net api mp i net)"
proof (cases ifaces)
  case None
  then show thesis
    using assms that [of "[]" "[]"] by (simp add: local_subnets_def)
next
  case (Some es)
  obtain ll where ll: "net_parse api ''169.254.0.0/16'' = Inr ll"
    and llc: "\<And>ip. net_contains api ll (IpV4 ip) = is_link_local ip"
    using assms(1) unfolding ipnet_laws_def by blast
  obtain nets where nets: "parse_nets api (iface_cidrs api ll mp es) = Inr nets"
    and from_iface: "\<forall>n \<in> set nets. \<exists>ip. \<exists>i \<in> set es. iface_net api mp i n \<and> usable_iface api ip i"
    and covered: "\<forall>ip. \<forall>i \<in> set es. usable_iface api ip i \<longrightarrow> (\<exists>n \<in> set nets. iface_net api mp i n)"
    by (rule iface_cidrs_nets [OF assms(1) llc assms(3)])
  have bounded: "mp \<le> net_prefix_len api n \<and> length (net_hosts api n) \<le> 2 ^ (32 - unat mp) \<and>
      (\<exists>ip. net_contains api n (IpV4 ip) \<and> (\<exists>i \<in> set es. usable_iface api ip i))" if "n \<in> set nets" for n
  proof -
    obtain ip i where i: "i \<in> set es" "iface_net api mp i n" "usable_iface api ip i"
      using from_iface \<open>n \<in> set nets\<close> by blast
    note facts = iface_net_facts [OF i(2,3)]
    show ?thesis
      using facts(1,2) v4_hosts_bound [OF assms(1) facts(3,2)] i(1,3) by blast
  qed
  show thesis
  proof (rule that)
    show "local_subnets api ifaces mp = Returns (Inr (iface_cidrs api ll mp es))"
      using assms(2,3) Some ll by (simp add: local_subnets_def iface_cidrs_def)
    show "distinct (iface_cidrs api ll mp es)"
      unfolding iface_cidrs_def by (rule keep_first_distinct_id)
    show "parse_nets api (iface_cidrs api ll mp es) = Inr nets"
      by (rule nets)
  qed (use bounded covered Some in \<open>simp, blast\<close>)
qed

text \<open>
  C24.  The automatic subnets.  A prefix outside 16 to 32 is an error.  Otherwise there is a list
  without repetition, every entry of which parses to a network at least as narrow as asked, so
  that each has a bounded number of hosts, and contains the address of a usable interface; and
  the address of every usable interface is in one of them: not a loopback, IPv4 with a valid
  netmask and not link-local.
\<close>

theorem local_subnets_exact:
  assumes "ipnet_laws api"
  shows "(\<not> (16 \<le> mp \<and> mp \<le> 32) \<longrightarrow>
      (\<exists>t. local_subnets api ifaces mp = Returns (Inl (InvalidSubnet t)))) \<and>
    (16 \<le> mp \<and> mp \<le> 32 \<longrightarrow>
      (\<exists>cidrs nets. local_subnets api ifaces mp = Returns (Inr cidrs) \<and> distinct cidrs \<and>
         parse_nets api cidrs = Inr nets \<and>
         (\<forall>net \<in> set nets. mp \<le> net_prefix_len api net \<and>
            length (net_hosts api net) \<le> 2 ^ (32 - unat mp) \<and>
            (\<exists>es ip. ifaces = Some es \<and> net_contains api net (IpV4 ip) \<and> (\<exists>i \<in> set es. usable_iface api ip i))) \<and>
         (\<forall>es ip. ifaces = Some es \<and> (\<exists>i \<in> set es. usable_iface api ip i) \<longrightarrow>
            (\<exists>net \<in> set nets. net_contains api net (IpV4 ip)))))"
proof (cases "16 \<le> mp \<and> mp \<le> 32")
  case False
  then show ?thesis by (auto simp: local_subnets_def)
next
  case True
  then have "16 \<le> mp" "mp \<le> 32"
    by simp_all
  then obtain cidrs nets where nets: "local_subnets api ifaces mp = Returns (Inr cidrs)" "distinct cidrs"
    "parse_nets api cidrs = Inr nets"
    "\<forall>net \<in> set nets. mp \<le> net_prefix_len api net \<and> length (net_hosts api net) \<le> 2 ^ (32 - unat mp) \<and>
       (\<exists>es ip. ifaces = Some es \<and> net_contains api net (IpV4 ip) \<and> (\<exists>i \<in> set es. usable_iface api ip i))"
    and ifs: "\<forall>es ip. \<forall>i. ifaces = Some es \<and> i \<in> set es \<and> usable_iface api ip i \<longrightarrow>
       (\<exists>net \<in> set nets. iface_net api mp i net)"
    by (rule local_subnets_nets [OF assms])
  have "\<forall>es ip. ifaces = Some es \<and> (\<exists>i \<in> set es. usable_iface api ip i) \<longrightarrow>
      (\<exists>net \<in> set nets. net_contains api net (IpV4 ip))"
  proof (intro allI impI, elim conjE bexE)
    fix es ip i
    assume "ifaces = Some es" "i \<in> set es" and usable: "usable_iface api ip i"
    then obtain net where "net \<in> set nets" "iface_net api mp i net"
      using ifs by blast
    then show "\<exists>net \<in> set nets. net_contains api net (IpV4 ip)"
      using iface_net_facts(1) [OF _ usable] by blast
  qed
  with nets True show ?thesis
    by (intro conjI impI exI [of _ cidrs] exI [of _ nets]) (assumption | simp)+
qed

theorem local_subnets_exact_witness:
  "\<exists>cidrs nets. local_subnets cidr_api
       (Some [\<lparr>if_loopback = False, if_v4 = Some (Ipv4 192 168 1 20, Ipv4 255 255 0 0)\<rparr>]) 24 =
       Returns (Inr cidrs) \<and> parse_nets cidr_api cidrs = Inr nets \<and>
     (\<exists>net \<in> set nets. cidr_contains net (IpV4 (Ipv4 192 168 1 20)) \<and> length (cidr_hosts net) \<le> 256)"
proof -
  let ?i = "\<lparr>if_loopback = False, if_v4 = Some (Ipv4 192 168 1 20, Ipv4 255 255 0 0)\<rparr>"
  have "cidr_with_netmask (Ipv4 192 168 1 20) (Ipv4 255 255 0 0) = Some (Ipv4 192 168 1 20, 16)"
    by (simp add: cidr_with_netmask_def upt_rec)
  then have i: "usable_iface cidr_api (Ipv4 192 168 1 20) ?i"
    by (simp add: usable_iface_def)
  show ?thesis
    using local_subnets_exact [OF cidr_laws, of 24 "Some [?i]"] spec [of _ "Ipv4 192 168 1 20"] i
    by (simp del: split_paired_Ex split_paired_All cidr_contains.simps) meson
qed

end
