(* ===== verification/Multicast.thy ===== *)
theory Multicast
  imports Net_Addr
begin

text \<open>
  \<open>src/net/mdns.rs\<close> and \<open>src/net/ssdp.rs\<close>: sending one query to a multicast group and collecting
  the IPv4 sources of the datagrams that arrive before a deadline.  The sockets are the
  environment: what every call on them does, and when which datagram arrives.
\<close>

section \<open>Queries\<close>

definition mdns_addr :: sock_addr where
  "mdns_addr = SockAddr (IpV4 (Ipv4 224 0 0 251)) 5353"

text \<open>The characters of a byte string literal.\<close>

definition ascii :: "string \<Rightarrow> bytes" where
  "ascii s = map (\<lambda>c. word_of_nat (of_char c)) s"

definition dns_sd_query :: bytes where
  "dns_sd_query =
     [0, 0, 0, 0, 0, 1, 0, 0, 0, 0, 0, 0] @
     [9] @ ascii ''_services'' @ [7] @ ascii ''_dns-sd'' @ [4] @ ascii ''_udp'' @ [5] @ ascii ''local'' @
     [0] @ [0, 12, 0, 1]"

definition ssdp_addr :: sock_addr where
  "ssdp_addr = SockAddr (IpV4 (Ipv4 239 255 255 250)) 1900"

definition crlf :: string where
  "crlf = [CHR 0x0D, CHR 0x0A]"

definition msearch :: string where
  "msearch =
     ''M-SEARCH * HTTP/1.1'' @ crlf @
     ''HOST: 239.255.255.250:1900'' @ crlf @
     ''MAN: '' @ [CHR 0x22] @ ''ssdp:discover'' @ [CHR 0x22] @ crlf @
     ''MX: 1'' @ crlf @
     ''ST: ssdp:all'' @ crlf @
     crlf"

section \<open>Listening\<close>

text \<open>
  A call of \<open>recv_from\<close> takes some time, in milliseconds, and yields the sender of a datagram or an
  error.  When the list is exhausted nothing arrives any more.
\<close>

datatype udp_recv = UdpFrom sock_addr | UdpErr

fun udp_source :: "sock_addr \<Rightarrow> ipv4 option" where
  "udp_source (SockAddr (IpV4 ip) p) =
     (if \<not> ipv4_is_loopback ip \<and> \<not> is_link_local ip then Some ip else None)"
| "udp_source (SockAddr (IpV6 ip) p) = None"

fun udp_listen :: "nat \<Rightarrow> ipv4 list \<Rightarrow> (nat \<times> udp_recv) list \<Rightarrow> ipv4 list" where
  "udp_listen left seen [] = seen"
| "udp_listen left seen ((d, r) # es) =
     (if left = 0 then seen
      else if left < d then seen
      else (case r of
              UdpErr \<Rightarrow> seen
            | UdpFrom a \<Rightarrow>
                udp_listen (left - d)
                  (case udp_source a of Some ip \<Rightarrow> List.insert ip seen | None \<Rightarrow> seen) es))"

section \<open>mDNS\<close>

record mdns_socket =
  md_new_ok :: bool
  md_reuse_address_ok :: bool
  md_reuse_port_ok :: bool
  md_nonblocking_ok :: bool
  md_bind_ok :: bool
  md_from_std_ok :: bool
  md_join_ok :: bool
  md_events :: "(nat \<times> udp_recv) list"
  md_order :: "nat list"

definition build_mdns_socket :: "bool \<Rightarrow> mdns_socket \<Rightarrow> bool" where
  "build_mdns_socket win s =
     (if \<not> md_new_ok s then False
      else if \<not> md_reuse_address_ok s then False
      else if \<not> win \<and> \<not> md_reuse_port_ok s then False
      else if \<not> md_nonblocking_ok s then False
      else if \<not> md_bind_ok s then False
      else md_from_std_ok s)"

text \<open>The datagrams handed to the socket and the hosts; a failed send is ignored.\<close>

definition try_active_mdns_hosts ::
  "bool \<Rightarrow> mdns_socket \<Rightarrow> nat \<Rightarrow> (sock_addr \<times> bytes) list \<times> ipv4 list option" where
  "try_active_mdns_hosts win s duration =
     (if \<not> build_mdns_socket win s then ([], None)
      else if \<not> md_join_ok s then ([], None)
      else ([(mdns_addr, dns_sd_query)],
            Some (pick_order (md_order s) (udp_listen duration [] (md_events s)))))"

definition active_mdns_hosts :: "bool \<Rightarrow> mdns_socket \<Rightarrow> nat \<Rightarrow> ipv4 list" where
  "active_mdns_hosts win s duration =
     (case snd (try_active_mdns_hosts win s duration) of None \<Rightarrow> [] | Some hs \<Rightarrow> hs)"

section \<open>SSDP\<close>

record ssdp_socket =
  ss_bind_ok :: bool
  ss_ttl_ok :: bool
  ss_send_ok :: bool
  ss_events :: "(nat \<times> udp_recv) list"
  ss_order :: "nat list"

definition try_active_ssdp_hosts ::
  "ssdp_socket \<Rightarrow> nat \<Rightarrow> (sock_addr \<times> bytes) list \<times> ipv4 list option" where
  "try_active_ssdp_hosts s duration =
     (if \<not> ss_bind_ok s then ([], None)
      else if \<not> ss_ttl_ok s then ([], None)
      else if \<not> ss_send_ok s then ([(ssdp_addr, ascii msearch)], None)
      else ([(ssdp_addr, ascii msearch)],
            Some (pick_order (ss_order s) (udp_listen duration [] (ss_events s)))))"

definition active_ssdp_hosts :: "ssdp_socket \<Rightarrow> nat \<Rightarrow> ipv4 list" where
  "active_ssdp_hosts s duration =
     (case snd (try_active_ssdp_hosts s duration) of None \<Rightarrow> [] | Some hs \<Rightarrow> hs)"

section \<open>What is heard\<close>

text \<open>The senders of the datagrams that arrive while the loop listens.\<close>

fun senders :: "nat \<Rightarrow> (nat \<times> udp_recv) list \<Rightarrow> sock_addr list" where
  "senders left [] = []"
| "senders left ((d, r) # es) =
     (if left = 0 \<or> left < d \<or> r = UdpErr then []
      else (case r of UdpFrom a \<Rightarrow> a # senders (left - d) es | UdpErr \<Rightarrow> []))"

lemma udp_listen_set:
  "set (udp_listen left seen es) = set seen \<union> {ip. \<exists>a \<in> set (senders left es). udp_source a = Some ip}"
  by (induction left seen es rule: udp_listen.induct) (auto split: udp_recv.splits option.splits)

lemma udp_listen_distinct: "distinct seen \<Longrightarrow> distinct (udp_listen left seen es)"
  by (induction left seen es rule: udp_listen.induct) (auto split: udp_recv.splits option.splits)

lemma udp_source_iff:
  "udp_source a = Some ip \<longleftrightarrow> sa_ip a = IpV4 ip \<and> \<not> ipv4_is_loopback ip \<and> \<not> is_link_local ip"
  by (cases a rule: udp_source.cases) auto

lemma mdns_hosts_distinct: "distinct (active_mdns_hosts win s t)"
  by (simp add: active_mdns_hosts_def try_active_mdns_hosts_def udp_listen_distinct)

lemma ssdp_hosts_distinct: "distinct (active_ssdp_hosts s t)"
  by (simp add: active_ssdp_hosts_def try_active_ssdp_hosts_def udp_listen_distinct)

text \<open>
  The labels of a name in DNS wire format up to the terminating zero byte, and the bytes after it.
\<close>

function decode_name :: "bytes \<Rightarrow> (string list \<times> bytes) option" where
  "decode_name [] = None"
| "decode_name (n # bs) =
     (if n = 0 then Some ([], bs)
      else if length bs < unat n then None
      else map_option (\<lambda>(labels, rest). (map (char_of \<circ> unat) (take (unat n) bs) # labels, rest))
             (decode_name (drop (unat n) bs)))"
  by pat_completeness auto
termination
  by (relation "measure length") auto

lemma dns_sd_question:
  "decode_name (drop 12 dns_sd_query) =
     Some ([''_services'', ''_dns-sd'', ''_udp'', ''local''], [0, 12, 0, 1])"
  by code_simp

text \<open>
  The request line and the header fields of a request in the format of HTTP: every line ends in a
  carriage return and a newline, neither of which occurs elsewhere, and an empty line ends it.
\<close>

fun crlf_lines :: "string \<Rightarrow> string \<Rightarrow> string list option" where
  "crlf_lines acc [] = (if acc = [] then Some [] else None)"
| "crlf_lines acc [c] = None"
| "crlf_lines acc (c # d # cs) =
     (if c = CHR 0x0D \<and> d = CHR 0x0A then map_option (\<lambda>ls. rev acc # ls) (crlf_lines [] cs)
      else if c = CHR 0x0D \<or> c = CHR 0x0A then None
      else crlf_lines (c # acc) (d # cs))"

definition header_field :: "string \<Rightarrow> (string \<times> string) option" where
  "header_field l = (case split_once (CHR '':'') l of
       Some (k, v) \<Rightarrow> (case v of c # cs \<Rightarrow> (if c = CHR '' '' then Some (k, cs) else None) | [] \<Rightarrow> None)
     | None \<Rightarrow> None)"

definition decode_request :: "bytes \<Rightarrow> (string \<times> (string \<times> string) list) option" where
  "decode_request bs =
     (case crlf_lines [] (map (char_of \<circ> unat) bs) of
        Some (req # rest) \<Rightarrow>
          (if rest \<noteq> [] \<and> last rest = [] then map_option (Pair req) (those (map header_field (butlast rest)))
           else None)
      | _ \<Rightarrow> None)"

lemma msearch_request:
  "decode_request (ascii msearch) =
     Some (''M-SEARCH * HTTP/1.1'',
       [(''HOST'', show_sock ssdp_addr), (''MAN'', [CHR 0x22] @ ''ssdp:discover'' @ [CHR 0x22]),
        (''MX'', ''1''), (''ST'', ''ssdp:all'')])"
  by code_simp

text \<open>
  C34.  The two multicast queries.  What is sent: once the socket is set up, exactly one datagram, the
  mDNS query to port 5353 of 224.0.0.251 and the SSDP query to port 1900 of 239.255.255.250.  It is
  well formed: the DNS question decodes to the service enumeration name, type PTR and class IN, with
  a header that counts one question; the SSDP query decodes to an M-SEARCH request for all services,
  whose HOST field names the group it is sent to.  What is answered is exact: no host twice, and
  exactly the IPv4 senders of the datagrams that arrive before the deadline and before a receive
  error, loopback and link-local ones excepted; and nothing when a socket cannot be set up.
\<close>

theorem multicast_hosts_exact:
  "fst (try_active_mdns_hosts win m t) =
     (if build_mdns_socket win m \<and> md_join_ok m
      then [(SockAddr (IpV4 (Ipv4 224 0 0 251)) 5353, dns_sd_query)] else []) \<and>
   take 12 dns_sd_query = [0, 0, 0, 0, 0, 1, 0, 0, 0, 0, 0, 0] \<and>
   decode_name (drop 12 dns_sd_query) =
     Some ([''_services'', ''_dns-sd'', ''_udp'', ''local''], [0, 12, 0, 1]) \<and>
   (\<exists>query. fst (try_active_ssdp_hosts s t') =
       (if ss_bind_ok s \<and> ss_ttl_ok s then [(SockAddr (IpV4 (Ipv4 239 255 255 250)) 1900, query)] else []) \<and>
     decode_request query =
       Some (''M-SEARCH * HTTP/1.1'',
         [(''HOST'', show_sock (SockAddr (IpV4 (Ipv4 239 255 255 250)) 1900)),
          (''MAN'', [CHR 0x22] @ ''ssdp:discover'' @ [CHR 0x22]), (''MX'', ''1''), (''ST'', ''ssdp:all'')])) \<and>
   distinct (active_mdns_hosts win m t) \<and> distinct (active_ssdp_hosts s t') \<and>
   set (active_mdns_hosts win m t) =
     (if build_mdns_socket win m \<and> md_join_ok m
      then {ip. \<not> ipv4_is_loopback ip \<and> \<not> is_link_local ip \<and>
             (\<exists>a \<in> set (senders t (md_events m)). sa_ip a = IpV4 ip)} else {}) \<and>
   set (active_ssdp_hosts s t') =
     (if ss_bind_ok s \<and> ss_ttl_ok s \<and> ss_send_ok s
      then {ip. \<not> ipv4_is_loopback ip \<and> \<not> is_link_local ip \<and>
             (\<exists>a \<in> set (senders t' (ss_events s)). sa_ip a = IpV4 ip)} else {})"
proof (intro conjI)
  show "take 12 dns_sd_query = [0, 0, 0, 0, 0, 1, 0, 0, 0, 0, 0, 0]"
    by (simp add: dns_sd_query_def)
  show "fst (try_active_mdns_hosts win m t) =
     (if build_mdns_socket win m \<and> md_join_ok m
      then [(SockAddr (IpV4 (Ipv4 224 0 0 251)) 5353, dns_sd_query)] else [])"
    by (simp add: try_active_mdns_hosts_def mdns_addr_def)
  show "\<exists>query. fst (try_active_ssdp_hosts s t') =
       (if ss_bind_ok s \<and> ss_ttl_ok s then [(SockAddr (IpV4 (Ipv4 239 255 255 250)) 1900, query)] else []) \<and>
     decode_request query =
       Some (''M-SEARCH * HTTP/1.1'',
         [(''HOST'', show_sock (SockAddr (IpV4 (Ipv4 239 255 255 250)) 1900)),
          (''MAN'', [CHR 0x22] @ ''ssdp:discover'' @ [CHR 0x22]), (''MX'', ''1''), (''ST'', ''ssdp:all'')])"
    using msearch_request by (intro exI [of _ "ascii msearch"]) (simp add: try_active_ssdp_hosts_def ssdp_addr_def del: show_sock.simps)
qed (auto simp: dns_sd_question mdns_hosts_distinct ssdp_hosts_distinct active_mdns_hosts_def
    try_active_mdns_hosts_def active_ssdp_hosts_def try_active_ssdp_hosts_def udp_listen_set udp_source_iff
    intro!: udp_listen_distinct)

end
