(* ===== verification/Tcp_Discovery.thy ===== *)
theory Tcp_Discovery
  imports Tcp_Details Multicast
begin

text \<open>
  \<open>src/tcp/mod.rs\<close> and \<open>probe_host\<close> of \<open>src/tcp/scan.rs\<close>: the discovery object, probing a host by
  name, the discovery itself (the preferred host with its retries, the hosts mDNS and SSDP
  announce, the subnets) and the methods a caller has.
\<close>

section \<open>The discovery object\<close>

record tcp_discovery =
  td_ports :: "u16 list"
  td_subnets :: "string list"
  td_probe_command :: "bytes option"
  td_connect_timeout_ms :: u64
  td_io_timeout_ms :: u64
  td_max_concurrent :: nat
  td_preferred_host :: "string option"
  td_preferred_retry :: u32
  td_preferred_retry_delay_ms :: u64
  td_use_arp_cache :: bool
  td_use_mdns :: bool
  td_mdns_timeout_ms :: u64
  td_use_ssdp :: bool
  td_ssdp_timeout_ms :: u64
  td_response_filter :: "bytes option"
  td_cancellation_token :: "token option"
  td_subnet_prefix :: u8
  td_tcp_linger_seconds :: "u32 option"

text \<open>
  \<open>TcpDiscovery::new\<close>: \<open>self\<close> holds the arguments as given, with \<open>ports\<close> in \<open>td_ports\<close>.
\<close>

definition td_new :: "u16 option \<Rightarrow> tcp_discovery \<Rightarrow> py_err + tcp_discovery" where
  "td_new single self =
     (if \<not> (16 \<le> td_subnet_prefix self \<and> td_subnet_prefix self \<le> 32)
      then Inl (PyValueError (''subnet_prefix /'' @ show_dec (unat (td_subnet_prefix self)) @
                  '' out of range; must be in [16, 32]''))
      else
        (let all_ports = keep_first {} (\<lambda>p. p)
               ((case single of None \<Rightarrow> [] | Some p \<Rightarrow> [p]) @ td_ports self)
         in Inr (self\<lparr>td_ports := all_ports\<rparr>)))"

text \<open>The arguments a call without any has.\<close>

definition td_default :: tcp_discovery where
  "td_default =
     \<lparr>td_ports = [], td_subnets = [], td_probe_command = None, td_connect_timeout_ms = 50,
      td_io_timeout_ms = 500, td_max_concurrent = 500, td_preferred_host = None,
      td_preferred_retry = 0, td_preferred_retry_delay_ms = 500, td_use_arp_cache = True,
      td_use_mdns = False, td_mdns_timeout_ms = 1000, td_use_ssdp = False, td_ssdp_timeout_ms = 1000,
      td_response_filter = None, td_cancellation_token = None, td_subnet_prefix = 24,
      td_tcp_linger_seconds = None\<rparr>"

text \<open>The snapshot a discovery works on; durations are in milliseconds.\<close>

record discovery_params =
  dp_scan :: scan_cfg
  dp_subnets :: "string list"
  dp_preferred :: "string option"
  dp_preferred_retry :: nat
  dp_preferred_retry_delay :: nat
  dp_use_mdns :: bool
  dp_mdns_timeout :: nat
  dp_use_ssdp :: bool
  dp_ssdp_timeout :: nat
  dp_subnet_prefix :: u8

definition td_params :: "tcp_discovery \<Rightarrow> discovery_params" where
  "td_params self =
     \<lparr>dp_scan =
        \<lparr>sc_ports = td_ports self,
         sc_params =
           \<lparr>tp_probe = td_probe_command self,
            tp_connect_timeout = unat (td_connect_timeout_ms self),
            tp_io_timeout = unat (td_io_timeout_ms self),
            tp_filter = td_response_filter self,
            tp_linger = map_option (\<lambda>s. 1000 * unat s) (td_tcp_linger_seconds self)\<rparr>,
         sc_max_concurrent = td_max_concurrent self,
         sc_use_arp = td_use_arp_cache self,
         sc_token = td_cancellation_token self\<rparr>,
      dp_subnets = td_subnets self,
      dp_preferred = td_preferred_host self,
      dp_preferred_retry = unat (td_preferred_retry self),
      dp_preferred_retry_delay = unat (td_preferred_retry_delay_ms self),
      dp_use_mdns = td_use_mdns self,
      dp_mdns_timeout = unat (td_mdns_timeout_ms self),
      dp_use_ssdp = td_use_ssdp self,
      dp_ssdp_timeout = unat (td_ssdp_timeout_ms self),
      dp_subnet_prefix = td_subnet_prefix self\<rparr>"

section \<open>Probing a host by name\<close>

text \<open>
  The environment of a discovery: the network, what the \<open>n\<close>-th lookup of a name returns (\<open>None\<close>
  when it fails), the multicast sockets and the interfaces.
\<close>

record 'net disc_env =
  net_env :: "'net tcp_env"
  lookup_host :: "nat \<Rightarrow> string \<Rightarrow> sock_addr list option"
  windows_os :: bool
  mdns :: mdns_socket
  ssdp :: ssdp_socket
  ifaces :: "iface list option"

definition resolve :: "'net disc_env \<Rightarrow> string \<Rightarrow> u16 list \<Rightarrow> scan_state \<Rightarrow> sock_addr list" where
  "resolve env name ports st =
     (case lookup_host env (lookups st) (name @ '':'' @ show_dec (unat (hd ports))) of
        None \<Rightarrow> []
      | Some as \<Rightarrow> as)"

text \<open>
  Every resolved address with every port, all at once: no permit is taken and the token is not
  read.
\<close>

definition probe_host ::
  "'net disc_env \<Rightarrow> scan_cfg \<Rightarrow> string \<Rightarrow> scan_state \<Rightarrow> (dafydd_error + device_match list) \<times> scan_state" where
  "probe_host env cfg name st =
     (if sc_ports cfg = [] then (Inr [], st)
      else
        (let addrs = resolve env name (sc_ports cfg) st;
             st = st\<lparr>lookups := Suc (lookups st)\<rparr>
         in if addrs = [] then (Inr [], st)
            else
              (let targets = concat (map (\<lambda>a. map (SockAddr (sa_ip a)) (sc_ports cfg)) addrs);
                   results = map (\<lambda>(n, a). probe_addr (sc_params cfg) (Some name) (dial (net_env env) n a) a)
                               (enumerate (clock st) targets)
               in (Inr (join_all (joins (net_env env) (batches st)) results),
                   st\<lparr>clock := clock st + length targets, batches := Suc (batches st),
                      dialled_addrs := dialled_addrs st @ targets\<rparr>))))"

section \<open>Discovery\<close>

definition send_found :: "(nat \<Rightarrow> bool) option \<Rightarrow> device_match list \<Rightarrow> scan_state \<Rightarrow> scan_state" where
  "send_found tx ms st = st\<lparr>out := send_all tx ms (out st)\<rparr>"

fun preferred_attempts ::
  "'net disc_env \<Rightarrow> discovery_params \<Rightarrow> (nat \<Rightarrow> bool) option \<Rightarrow> string \<Rightarrow> nat \<Rightarrow> nat \<Rightarrow> scan_state \<Rightarrow>
   (dafydd_error + device_match list option) \<times> scan_state" where
  "preferred_attempts env p tx name attempt 0 st = (Inr None, st)"
| "preferred_attempts env p tx name attempt (Suc left) st =
     (let (cancelled, st) = poll_token (net_env env) (sc_token (dp_scan p)) st
      in if cancelled then (Inr (Some []), st)
         else (case probe_host env (dp_scan p) name st of
                 (Inl e, st) \<Rightarrow> (Inl e, st)
               | (Inr matches, st) \<Rightarrow>
                   (if matches \<noteq> [] then (Inr (Some matches), send_found tx matches st)
                    else preferred_attempts env p tx name (Suc attempt) left
                           (if attempt < dp_preferred_retry p
                            then st\<lparr>slept_ms := slept_ms st + dp_preferred_retry_delay p\<rparr> else st))))"

definition try_preferred ::
  "'net disc_env \<Rightarrow> discovery_params \<Rightarrow> (nat \<Rightarrow> bool) option \<Rightarrow> scan_state \<Rightarrow>
   (dafydd_error + device_match list option) \<times> scan_state" where
  "try_preferred env p tx st =
     (case dp_preferred p of
        None \<Rightarrow> (Inr None, st)
      | Some name \<Rightarrow> preferred_attempts env p tx name 0 (Suc (dp_preferred_retry p)) st)"

fun probe_named_hosts ::
  "'net disc_env \<Rightarrow> discovery_params \<Rightarrow> (nat \<Rightarrow> bool) option \<Rightarrow> string \<Rightarrow> ipv4 list \<Rightarrow> scan_state \<Rightarrow>
   (dafydd_error + device_match list) \<times> scan_state" where
  "probe_named_hosts env p tx source [] st = (Inr [], st)"
| "probe_named_hosts env p tx source (ip # ips) st =
     (case probe_host env (dp_scan p) (show_ipv4 ip) st of
        (Inl e, st) \<Rightarrow> (Inl e, st)
      | (Inr found, st) \<Rightarrow>
          (let found = map (info_insert ''source'' source) found;
               st = send_found tx found st
           in case probe_named_hosts env p tx source ips st of
                (Inl e, st) \<Rightarrow> (Inl e, st)
              | (Inr matches, st) \<Rightarrow> (Inr (found @ matches), st)))"

definition named_stage ::
  "'net disc_env \<Rightarrow> discovery_params \<Rightarrow> (nat \<Rightarrow> bool) option \<Rightarrow> scan_state \<Rightarrow>
   (dafydd_error + device_match list) \<times> scan_state" where
  "named_stage env p tx st =
     (case (if dp_use_mdns p
            then probe_named_hosts env p tx ''mdns''
                   (active_mdns_hosts (windows_os env) (mdns env) (dp_mdns_timeout p)) st
            else (Inr [], st)) of
        (Inl e, st) \<Rightarrow> (Inl e, st)
      | (Inr all_matches, st) \<Rightarrow>
          (case (if dp_use_ssdp p
                 then probe_named_hosts env p tx ''ssdp'' (active_ssdp_hosts (ssdp env) (dp_ssdp_timeout p)) st
                 else (Inr [], st)) of
             (Inl e, st) \<Rightarrow> (Inl e, st)
           | (Inr found, st) \<Rightarrow> (Inr (all_matches @ found), st)))"

definition sweep_subnets :: "'net disc_env \<Rightarrow> discovery_params \<Rightarrow> (dafydd_error + string list) outcome" where
  "sweep_subnets env p =
     (if dp_subnets p = [] then local_subnets (ipnet (net_env env)) (ifaces env) (dp_subnet_prefix p)
      else Returns (Inr (dp_subnets p)))"

text \<open>The sweep's matches are appended unless their address was seen before.\<close>

definition append_new :: "device_match list \<Rightarrow> device_match list \<Rightarrow> device_match list" where
  "append_new all_matches sweep_matches =
     all_matches @ keep_first (address ` set all_matches) address sweep_matches"

definition run_discovery ::
  "'net disc_env \<Rightarrow> discovery_params \<Rightarrow> (nat \<Rightarrow> bool) option \<Rightarrow> scan_state \<Rightarrow>
   ((dafydd_error + device_match list) outcome \<times> scan_state) option" where
  "run_discovery env p tx st =
     (case try_preferred env p tx st of
        (Inl e, st) \<Rightarrow> Some (Returns (Inl e), st)
      | (Inr (Some matches), st) \<Rightarrow> Some (Returns (Inr matches), st)
      | (Inr None, st) \<Rightarrow>
          (case named_stage env p tx st of
             (Inl e, st) \<Rightarrow> Some (Returns (Inl e), st)
           | (Inr all_matches, st) \<Rightarrow>
               (case sweep_subnets env p of
                  Panics \<Rightarrow> Some (Panics, st)
                | Returns (Inl e) \<Rightarrow> Some (Returns (Inl e), st)
                | Returns (Inr targets) \<Rightarrow>
                    map_option
                      (\<lambda>(r, st). (outcome_map (map_sum id (append_new all_matches)) r, st))
                      (scan_subnets (net_env env) (dp_scan p) tx targets st))))"

section \<open>The methods\<close>

text \<open>The module function \<open>local_subnets\<close>.\<close>

definition py_local_subnets ::
  "'net ipnet_api \<Rightarrow> iface list option \<Rightarrow> u8 \<Rightarrow> py_err + string list" where
  "py_local_subnets api ifs max_prefix =
     (case local_subnets api ifs max_prefix of
        Panics \<Rightarrow> Inl PanicException
      | Returns (Inl e) \<Rightarrow> Inl (error_to_pyerr e)
      | Returns (Inr cidrs) \<Rightarrow> Inr cidrs)"

definition no_ports_error :: py_err where
  "no_ports_error = PyValueError ''TcpDiscovery requires at least one port (use port= or ports=)''"

definition td_discover ::
  "tcp_discovery \<Rightarrow> 'net disc_env \<Rightarrow> (py_err + device_match list) option" where
  "td_discover self env =
     (if td_ports self = [] then Some (Inl no_ports_error)
      else map_option (\<lambda>(r, st). block_on_result r) (run_discovery env (td_params self) None scan_start))"

text \<open>\<open>panic_err\<close> is the exception with which the asynchronous bridge reports a panic.\<close>

definition td_discover_async ::
  "py_err \<Rightarrow> tcp_discovery \<Rightarrow> 'net disc_env \<Rightarrow> (py_err + device_match list) option" where
  "td_discover_async panic_err self env =
     (if td_ports self = [] then Some (Inl no_ports_error)
      else map_option
        (\<lambda>(r, st). (case r of
             Panics \<Rightarrow> Inl panic_err
           | Returns (Inl e) \<Rightarrow> Inl (error_to_pyerr e)
           | Returns (Inr ms) \<Rightarrow> Inr ms))
        (run_discovery env (td_params self) None scan_start))"

definition td_discover_streaming ::
  "tcp_discovery \<Rightarrow> 'net disc_env \<Rightarrow> (nat \<Rightarrow> bool) \<Rightarrow> (nat \<Rightarrow> string option) \<Rightarrow>
   (device_match list \<times> (py_err + device_match list)) option" where
  "td_discover_streaming self env room raises =
     (if td_ports self = [] then Some ([], Inl no_ports_error)
      else map_option (\<lambda>(r, st). receive_stream raises (delivered (out st)) r)
             (run_discovery env (td_params self) (Some room) scan_start))"

text \<open>
  The turns of the polling loop: the token read at the top, the environment of the pass and the
  token reads of the sleep.  A pass that never returns is the last.
\<close>

fun td_polls :: "tcp_discovery \<Rightarrow> (bool \<times> 'net disc_env \<times> bool list) list \<Rightarrow> poll list" where
  "td_polls self [] = []"
| "td_polls self ((stop, env, naps) # turns) =
     (if stop then [\<lparr>cancelled_at_top = True, tick = Inr [], sleep_reads = naps\<rparr>]
      else (case td_discover self env of
              None \<Rightarrow> []
            | Some r \<Rightarrow> \<lparr>cancelled_at_top = False, tick = r, sleep_reads = naps\<rparr> # td_polls self turns))"

definition td_watch ::
  "tcp_discovery \<Rightarrow> (nat \<Rightarrow> string option) \<Rightarrow> (bool \<times> 'net disc_env \<times> bool list) list \<Rightarrow>
   callback list \<times> watch_end" where
  "td_watch self raises turns =
     (case td_cancellation_token self of
        None \<Rightarrow> ([], Failed (PyValueError
          ''TcpDiscovery.watch() requires a cancellation_token to know when to stop''))
      | Some _ \<Rightarrow> poll_watch raises [] [] (td_polls self turns))"

end
