(* ===== verification/Tcp_Outcome.thy ===== *)
theory Tcp_Outcome
  imports Tcp_Discovery
begin

text \<open>
  What a TCP discovery answers: construction, the preferred host, the exact set of matches and the
  removal of repetitions, and the errors.
\<close>

section \<open>Probing a host\<close>

definition host_found ::
  "'net disc_env \<Rightarrow> scan_cfg \<Rightarrow> string \<Rightarrow> nat \<Rightarrow> sock_addr \<Rightarrow> device_match \<Rightarrow> bool" where
  "host_found env cfg name n a m =
     (probe_addr (sc_params cfg) (Some name) (dial (net_env env) n a) a = Returns (Inr (Some m)))"

text \<open>What the operations do to the counters; the addresses they probe are appended.\<close>

definition extends_by :: "scan_state \<Rightarrow> scan_state \<Rightarrow> sock_addr list \<Rightarrow> bool" where
  "extends_by st st' new = (dialled_addrs st' = dialled_addrs st @ new \<and> clock st' = clock st + length new)"

lemma probe_host_ok: "\<exists>ms. fst (probe_host env cfg name st) = Inr ms"
  by (simp add: probe_host_def Let_def)

text \<open>The addresses a name stands for at its \<open>n\<close>-th lookup: all it resolves to, with every port.\<close>

definition host_addrs :: "'net disc_env \<Rightarrow> u16 list \<Rightarrow> nat \<Rightarrow> string \<Rightarrow> sock_addr list" where
  "host_addrs env ports n name =
     [SockAddr (sa_ip a) p.
        a \<leftarrow> (case lookup_host env n (name @ '':'' @ show_dec (unat (hd ports))) of None \<Rightarrow> [] | Some as \<Rightarrow> as),
        p \<leftarrow> ports]"

lemma host_addrs_no_ports [simp]: "host_addrs env [] n name = []"
  by (simp add: host_addrs_def)

lemma host_addrs_resolve:
  "host_addrs env ports (lookups st) name =
     concat (map (\<lambda>a. map (SockAddr (sa_ip a)) ports) (resolve env name ports st))"
  by (simp add: host_addrs_def resolve_def)

lemma host_addrs_set:
  "set (host_addrs env ports (lookups st) name) =
     {SockAddr (sa_ip a) p | a p. a \<in> set (resolve env name ports st) \<and> p \<in> set ports}"
  by (auto simp: host_addrs_resolve)

lemma probe_host_facts:
  assumes "probe_host env cfg name st = (Inr ms, st')"
  obtains new where "extends_by st st' new"
    "set ms = {m. \<exists>i < length new. host_found env cfg name (clock st + i) (new ! i) m}"
    "out st' = out st" "polls st' = polls st" "slept_ms st' = slept_ms st"
    "lookups st' = (if sc_ports cfg = [] then lookups st else Suc (lookups st))"
    "new = host_addrs env (sc_ports cfg) (lookups st) name"
proof (cases "sc_ports cfg = [] \<or> resolve env name (sc_ports cfg) st = []")
  case True
  moreover have "host_addrs env (sc_ports cfg) (lookups st) name = []"
    using True by (auto simp: host_addrs_resolve)
  ultimately show thesis
    using assms that [of "[]"] by (auto simp: probe_host_def extends_by_def Let_def split: if_splits)
next
  case False
  let ?targets = "concat (map (\<lambda>a. map (SockAddr (sa_ip a)) (sc_ports cfg))
      (resolve env name (sc_ports cfg) st))"
  let ?results = "map (\<lambda>(n, a). probe_addr (sc_params cfg) (Some name) (dial (net_env env) n a) a)
      (enumerate (clock st) ?targets)"
  have ms: "ms = join_all (joins (net_env env) (batches st)) ?results"
    and st': "extends_by st st' ?targets" "out st' = out st" "polls st' = polls st"
      "slept_ms st' = slept_ms st" "lookups st' = Suc (lookups st)"
    using assms False by (auto simp: probe_host_def extends_by_def Let_def)
  have "set ms = {m. \<exists>i < length ?targets. host_found env cfg name (clock st + i) (?targets ! i) m}"
    unfolding ms join_all_set host_found_def
    by (auto simp: image_iff set_conv_nth [of "enumerate _ _"] nth_enumerate_eq; force simp: nth_enumerate_eq)
  moreover have "?targets = host_addrs env (sc_ports cfg) (lookups st) name"
    by (simp add: host_addrs_resolve)
  ultimately show thesis
    using that [of ?targets] st' False by auto
qed

lemma host_found_match:
  "host_found env cfg name n a m \<Longrightarrow>
     transport m = Tcp \<and> address m = show_sock a \<and> tcp_good (sc_params cfg) (response m) \<and>
     info m = [''hostname'' \<mapsto> name]"
  using probe_addr_found [of "sc_params cfg" "Some name" "dial (net_env env) n a" a m]
  by (auto simp: host_found_def build_match_def)

section \<open>The preferred host\<close>

text \<open>
  The addresses of the \<open>k\<close>-th attempt at the preferred host, those of the attempts before it, and
  what the probes of the \<open>k\<close>-th attempt find.
\<close>

definition attempt_addrs ::
  "'net disc_env \<Rightarrow> discovery_params \<Rightarrow> string \<Rightarrow> scan_state \<Rightarrow> nat \<Rightarrow> sock_addr list" where
  "attempt_addrs env p name st k = host_addrs env (sc_ports (dp_scan p)) (lookups st + k) name"

definition tried ::
  "'net disc_env \<Rightarrow> discovery_params \<Rightarrow> string \<Rightarrow> scan_state \<Rightarrow> nat \<Rightarrow> sock_addr list" where
  "tried env p name st k = concat (map (attempt_addrs env p name st) [0..<k])"

definition attempt_found ::
  "'net disc_env \<Rightarrow> discovery_params \<Rightarrow> string \<Rightarrow> scan_state \<Rightarrow> nat \<Rightarrow> device_match \<Rightarrow> bool" where
  "attempt_found env p name st k m =
     (\<exists>i < length (attempt_addrs env p name st k).
        host_found env (dp_scan p) name (clock st + length (tried env p name st k) + i)
          (attempt_addrs env p name st k ! i) m)"

text \<open>Whether the token is seen set before the \<open>k\<close>-th attempt.\<close>

definition attempt_cancelled :: "'net disc_env \<Rightarrow> discovery_params \<Rightarrow> scan_state \<Rightarrow> nat \<Rightarrow> bool" where
  "attempt_cancelled env p st k =
     cancel_seen (sc_token (dp_scan p)) (flag (net_env env) (polls st + k))"

text \<open>The first \<open>k\<close> attempts, none of them cancelled, found nothing; and what came then.\<close>

definition attempted ::
  "'net disc_env \<Rightarrow> discovery_params \<Rightarrow> (nat \<Rightarrow> bool) option \<Rightarrow> string \<Rightarrow> nat \<Rightarrow> nat \<Rightarrow> scan_state \<Rightarrow>
   device_match list option \<Rightarrow> scan_state \<Rightarrow> nat \<Rightarrow> bool" where
  "attempted env p tx name attempt left st r st' k =
     ((\<forall>j < k. \<not> attempt_cancelled env p st j \<and> (\<forall>m. \<not> attempt_found env p name st j m)) \<and>
      slept_ms st' = slept_ms st + min k (dp_preferred_retry p - attempt) * dp_preferred_retry_delay p \<and>
      (case r of
         None \<Rightarrow> k = left \<and> extends_by st st' (tried env p name st k) \<and> lookups st' = lookups st + k \<and>
           out st' = out st
       | Some ms \<Rightarrow> k < left \<and>
           (if attempt_cancelled env p st k
            then ms = [] \<and> extends_by st st' (tried env p name st k) \<and> lookups st' = lookups st + k \<and>
              out st' = out st
            else ms \<noteq> [] \<and> extends_by st st' (tried env p name st (Suc k)) \<and>
              lookups st' = lookups st + Suc k \<and> out st' = send_all tx ms (out st) \<and>
              set ms = {m. attempt_found env p name st k m})))"

text \<open>An attempt that missed, and the rest.\<close>

lemma attempt_later:
  assumes "lookups st1 = Suc (lookups st)" "clock st1 = clock st + length (attempt_addrs env p name st 0)"
    "polls st1 = Suc (polls st)"
  shows "attempt_addrs env p name st1 k = attempt_addrs env p name st (Suc k)"
    "tried env p name st (Suc k) = attempt_addrs env p name st 0 @ tried env p name st1 k"
    "attempt_found env p name st1 k m = attempt_found env p name st (Suc k) m"
    "attempt_cancelled env p st1 k = attempt_cancelled env p st (Suc k)"
proof -
  show addrs: "attempt_addrs env p name st1 k = attempt_addrs env p name st (Suc k)" for k
    using assms(1) by (simp add: attempt_addrs_def)
  show tried: "tried env p name st (Suc k) = attempt_addrs env p name st 0 @ tried env p name st1 k"
    unfolding tried_def upt_conv_Cons [OF zero_less_Suc] map_Suc_upt [symmetric]
    by (simp add: addrs [symmetric] comp_def)
  show "attempt_found env p name st1 k m = attempt_found env p name st (Suc k) m"
    unfolding attempt_found_def addrs tried assms(2) by (simp add: add.assoc)
  show "attempt_cancelled env p st1 k = attempt_cancelled env p st (Suc k)"
    using assms(3) by (simp add: attempt_cancelled_def)
qed

lemma attempted_later:
  assumes "attempted env p tx name (Suc attempt) left st1 r st' k"
    and "lookups st1 = Suc (lookups st)" "polls st1 = Suc (polls st)"
    and "extends_by st st1 (attempt_addrs env p name st 0)" "out st1 = out st"
    and "\<not> attempt_cancelled env p st 0" "\<And>m. \<not> attempt_found env p name st 0 m"
    and "slept_ms st1 = slept_ms st + (if attempt < dp_preferred_retry p then dp_preferred_retry_delay p else 0)"
  shows "attempted env p tx name attempt (Suc left) st r st' (Suc k)"
proof -
  have "clock st1 = clock st + length (attempt_addrs env p name st 0)"
    using assms(4) by (simp add: extends_by_def)
  note later = attempt_later [OF assms(2) this assms(3)]
  have missed: "\<not> attempt_cancelled env p st j \<and> (\<forall>m. \<not> attempt_found env p name st j m)" if "j < Suc k" for j
    using assms(1,6,7) that by (cases j) (auto simp: attempted_def later)
  have slept: "slept_ms st' = slept_ms st + min (Suc k) (dp_preferred_retry p - attempt) * dp_preferred_retry_delay p"
  proof (cases "attempt < dp_preferred_retry p")
    case True
    then have "dp_preferred_retry p - attempt = Suc (dp_preferred_retry p - Suc attempt)"
      by simp
    then show ?thesis
      using assms(1,8) True by (simp add: attempted_def)
  next
    case False
    then show ?thesis
      using assms(1,8) by (simp add: attempted_def)
  qed
  have ext: "extends_by st st' (tried env p name st (Suc n))" if "extends_by st1 st' (tried env p name st1 n)" for n
    using assms(4) that by (simp add: later(2) extends_by_def)
  show ?thesis
    using assms(1,2,5) missed slept ext unfolding attempted_def
    by (auto simp: later(3,4) split: option.splits if_splits)
qed

lemma preferred_attempts_facts:
  assumes "preferred_attempts env p tx name attempt left st = (Inr r, st')" "sc_ports (dp_scan p) \<noteq> []"
  shows "\<exists>k. attempted env p tx name attempt left st r st' k"
  using assms(1)
proof (induction left arbitrary: attempt st)
  case 0
  then show ?case
    by (auto simp: attempted_def extends_by_def tried_def)
next
  case (Suc left)
  obtain c st1 where p: "poll_token (net_env env) (sc_token (dp_scan p)) st = (c, st1)" by force
  then have st1: "st1 = st\<lparr>polls := Suc (polls st)\<rparr>" "c = attempt_cancelled env p st 0"
    by (auto simp: poll_token_def attempt_cancelled_def)
  obtain ms st2 where h: "probe_host env (dp_scan p) name st1 = (Inr ms, st2)"
    using probe_host_ok [of env "dp_scan p" name st1] by (metis prod.collapse)
  obtain new where new: "extends_by st1 st2 new"
    "set ms = {m. \<exists>i < length new. host_found env (dp_scan p) name (clock st1 + i) (new ! i) m}"
    "out st2 = out st1" "polls st2 = polls st1" "slept_ms st2 = slept_ms st1"
    "lookups st2 = (if sc_ports (dp_scan p) = [] then lookups st1 else Suc (lookups st1))"
    "new = host_addrs env (sc_ports (dp_scan p)) (lookups st1) name"
    by (rule probe_host_facts [OF h])
  have addrs: "attempt_addrs env p name st 0 = new" "tried env p name st 0 = []"
    "tried env p name st (Suc 0) = new" "extends_by st st2 new"
    using new(1,7) by (simp_all add: attempt_addrs_def tried_def st1 extends_by_def)
  have found: "set ms = {m. attempt_found env p name st 0 m}"
    by (simp add: new(2) attempt_found_def addrs st1)
  consider "c" | "\<not> c" "ms \<noteq> []" | "\<not> c" "ms = []" by blast
  then show ?case
  proof cases
    case 1
    then have "r = Some []" "st' = st1"
      using Suc.prems p by auto
    then show ?thesis
      using 1 by (intro exI [of _ 0]) (simp add: attempted_def st1 addrs extends_by_def)
  next
    case 2
    then have "r = Some ms" "st' = send_found tx ms st2"
      using Suc.prems p h by auto
    then show ?thesis
      using 2 new(3,5,6) found addrs assms(2)
      by (intro exI [of _ 0]) (simp add: attempted_def st1 send_found_def extends_by_def)
  next
    case 3
    let ?d = "if attempt < dp_preferred_retry p then dp_preferred_retry_delay p else 0"
    let ?st3 = "if attempt < dp_preferred_retry p then st2\<lparr>slept_ms := slept_ms st2 + dp_preferred_retry_delay p\<rparr> else st2"
    have "preferred_attempts env p tx name (Suc attempt) left ?st3 = (Inr r, st')"
      using Suc.prems p h 3 by simp
    then obtain k where "attempted env p tx name (Suc attempt) left ?st3 r st' k"
      using Suc.IH by blast
    then have "attempted env p tx name attempt (Suc left) st r st' (Suc k)"
      by (rule attempted_later) (use 3 new(3-6) found addrs assms(2) in \<open>simp_all add: st1 extends_by_def\<close>)
    then show ?thesis ..
  qed
qed

text \<open>What follows the preferred host does not read it.\<close>

lemma probe_named_preferred [simp]:
  "probe_named_hosts env (p\<lparr>dp_preferred := h\<rparr>) tx source ips st = probe_named_hosts env p tx source ips st"
  by (induction env p tx source ips st rule: probe_named_hosts.induct)
    (auto simp: Let_def split: prod.split sum.split)

lemma stages_preferred [simp]:
  "named_stage env (p\<lparr>dp_preferred := h\<rparr>) tx st = named_stage env p tx st"
  "sweep_subnets env (p\<lparr>dp_preferred := h\<rparr>) = sweep_subnets env p"
  by (simp_all add: named_stage_def sweep_subnets_def split: prod.split sum.split)

lemma run_discovery_onwards:
  assumes "try_preferred env p tx st = (Inr None, st')"
  shows "run_discovery env p tx st = run_discovery env (p\<lparr>dp_preferred := None\<rparr>) tx st'"
proof -
  have "try_preferred env (p\<lparr>dp_preferred := None\<rparr>) tx st' = (Inr None, st')"
    by (simp add: try_preferred_def)
  with assms show ?thesis
    unfolding run_discovery_def stages_preferred by (simp split: prod.split sum.split outcome.split)
qed

lemma preferred_attempts_ok: "\<exists>r. fst (preferred_attempts env p tx name attempt left st) = Inr r"
proof (induction left arbitrary: attempt st)
  case 0
  then show ?case by simp
next
  case (Suc left)
  obtain c st1 where p: "poll_token (net_env env) (sc_token (dp_scan p)) st = (c, st1)" by force
  obtain ms st2 where h: "probe_host env (dp_scan p) name st1 = (Inr ms, st2)"
    using probe_host_ok [of env "dp_scan p" name st1] by (metis prod.collapse)
  show ?case
    using Suc.IH by (simp add: p h)
qed

lemma try_preferred_ok: "\<exists>r st'. try_preferred env p tx st = (Inr r, st')"
  using preferred_attempts_ok [of env p tx]
  by (auto simp: try_preferred_def prod_eq_iff simp del: preferred_attempts.simps split: option.split)

text \<open>
  C20.  The preferred host goes first.  It is attempted up to one time more than the configured
  number of retries, with the configured pause between attempts; an attempt looks the name up and
  probes every address it resolves to with every port.  The first attempt that finds something
  ends it: what its probes found, all of it and with the host's name, is streamed and is the whole
  answer of the discovery.  A token seen set before an attempt ends it with an empty answer.  Only
  when all attempts were made and found nothing does the discovery go on, with nothing streamed, and
  then as one without a preferred host does.
\<close>

theorem tcp_preferred_first:
  assumes "dp_preferred p = Some name" "sc_ports (dp_scan p) \<noteq> []"
  shows "\<exists>r st' k. try_preferred env p tx st = (Inr r, st') \<and>
    (\<forall>j < k. \<not> attempt_cancelled env p st j \<and> (\<forall>m. \<not> attempt_found env p name st j m)) \<and>
    slept_ms st' = slept_ms st + min k (dp_preferred_retry p) * dp_preferred_retry_delay p \<and>
    (case r of
       None \<Rightarrow>
         k = dp_preferred_retry p + 1 \<and> extends_by st st' (tried env p name st k) \<and>
         lookups st' = lookups st + k \<and> out st' = out st \<and>
         run_discovery env p tx st = run_discovery env (p\<lparr>dp_preferred := None\<rparr>) tx st'
     | Some ms \<Rightarrow>
         k \<le> dp_preferred_retry p \<and> run_discovery env p tx st = Some (Returns (Inr ms), st') \<and>
         (if attempt_cancelled env p st k
          then ms = [] \<and> extends_by st st' (tried env p name st k) \<and> lookups st' = lookups st + k \<and>
            out st' = out st
          else ms \<noteq> [] \<and> extends_by st st' (tried env p name st (Suc k)) \<and>
            lookups st' = lookups st + k + 1 \<and> out st' = send_all tx ms (out st) \<and>
            set ms = {m. attempt_found env p name st k m} \<and>
            (\<forall>m \<in> set ms. info m = [''hostname'' \<mapsto> name])))"
proof -
  obtain r st' where run: "try_preferred env p tx st = (Inr r, st')"
    using try_preferred_ok by blast
  then have "preferred_attempts env p tx name 0 (Suc (dp_preferred_retry p)) st = (Inr r, st')"
    using assms(1) by (simp add: try_preferred_def del: preferred_attempts.simps)
  then obtain k where k: "attempted env p tx name 0 (Suc (dp_preferred_retry p)) st r st' k"
    using preferred_attempts_facts [OF _ assms(2)] by blast
  have named: "info m = [''hostname'' \<mapsto> name]" if "attempt_found env p name st k m" for m
    using that by (auto simp: attempt_found_def dest: host_found_match)
  show ?thesis
  proof (cases r)
    case None
    then show ?thesis
      using run run_discovery_onwards [of env p tx st st'] k
      by (intro exI [of _ r] exI [of _ st'] exI [of _ k]) (auto simp: attempted_def)
  next
    case (Some ms)
    then have "run_discovery env p tx st = Some (Returns (Inr ms), st')"
      using run by (simp add: run_discovery_def)
    then show ?thesis
      using run k Some named
      by (intro exI [of _ r] exI [of _ st'] exI [of _ k]) (simp add: attempted_def split: if_splits)
  qed
qed

section \<open>The set of matches\<close>

text \<open>
  The matches and the probes of a stretch of a discovery correspond: every match is that of a
  probe made, and every finding has its match.  The name a probe carries plays no part.
\<close>

definition covers :: "'net tcp_env \<Rightarrow> scan_cfg \<Rightarrow> scan_state \<Rightarrow> sock_addr list \<Rightarrow> device_match list \<Rightarrow> bool" where
  "covers env cfg st new ms =
     ((\<forall>m \<in> set ms. \<exists>i < length new. \<exists>m0. probe_found env cfg (clock st + i) (new ! i) m0 \<and> same_device m m0) \<and>
      (\<forall>i < length new. \<forall>m0. probe_found env cfg (clock st + i) (new ! i) m0 \<longrightarrow>
         (\<exists>m \<in> set ms. same_device m m0)))"

lemma covers_append:
  assumes "covers env cfg st new ms" "extends_by st st1 new" "covers env cfg st1 new' ms'"
  shows "covers env cfg st (new @ new') (ms @ ms')"
proof -
  have clk: "clock st1 = clock st + length new"
    using assms(2) by (simp add: extends_by_def)
  have left: "\<exists>i < length (new @ new'). \<exists>m0. probe_found env cfg (clock st + i) ((new @ new') ! i) m0 \<and> same_device m m0"
    if mem: "m \<in> set ms" for m
  proof -
    obtain i m0 where "i < length new" "probe_found env cfg (clock st + i) (new ! i) m0" "same_device m m0"
      using assms(1) mem by (auto simp: covers_def)
    then show ?thesis
      by (intro exI [of _ i] conjI exI [of _ m0]) (simp_all add: nth_append)
  qed
  have right: "\<exists>i < length (new @ new'). \<exists>m0. probe_found env cfg (clock st + i) ((new @ new') ! i) m0 \<and> same_device m m0"
    if mem: "m \<in> set ms'" for m
  proof -
    obtain i m0 where "i < length new'" "probe_found env cfg (clock st1 + i) (new' ! i) m0" "same_device m m0"
      using assms(3) mem by (auto simp: covers_def)
    then show ?thesis
      by (intro exI [of _ "length new + i"] conjI exI [of _ m0]) (simp_all add: clk add.assoc)
  qed
  have backward: "\<exists>m \<in> set (ms @ ms'). same_device m m0"
    if "i < length (new @ new')" "probe_found env cfg (clock st + i) ((new @ new') ! i) m0" for i m0
  proof (cases "i < length new")
    case True
    then show ?thesis
      using assms(1) that(2) by (fastforce simp: covers_def nth_append)
  next
    case False
    then obtain j where j: "i = length new + j"
      using le_Suc_ex not_less by blast
    then have "j < length new'" "probe_found env cfg (clock st1 + j) (new' ! j) m0"
      using that clk by (simp_all add: add.assoc)
    then show ?thesis
      using assms(3) by (fastforce simp: covers_def)
  qed
  show ?thesis
    using left right backward by (auto simp: covers_def)
qed

lemma extends_by_trans: "extends_by st st1 xs \<Longrightarrow> extends_by st1 st2 ys \<Longrightarrow> extends_by st st2 (xs @ ys)"
  by (simp add: extends_by_def)

lemma probe_hint:
  "probe_addr p h c a = Returns (Inr (Some m)) \<Longrightarrow>
     probe_addr p h' c a = Returns (Inr (Some (build_match a (case response m of None \<Rightarrow> [] | Some r \<Rightarrow> r) h')))"
  by (auto simp: probe_addr_def probe_stream_def Let_def split: option.splits if_splits outcome.splits)

lemma host_found_probe:
  "host_found env cfg name n a m \<Longrightarrow> \<exists>m0. probe_found (net_env env) cfg n a m0 \<and> same_device m m0"
  "probe_found (net_env env) cfg n a m0 \<Longrightarrow> \<exists>m. host_found env cfg name n a m \<and> same_device m m0"
proof -
  have same: "same_device m (build_match a (case response m of None \<Rightarrow> [] | Some r \<Rightarrow> r) h') \<and>
      same_device (build_match a (case response m of None \<Rightarrow> [] | Some r \<Rightarrow> r) h') m"
    if found: "probe_addr (sc_params cfg) h (dial (net_env env) n a) a = Returns (Inr (Some m))" for h h' m
  proof -
    obtain r where "m = build_match a r h"
      using probe_addr_found [OF found] by blast
    then show ?thesis
      by (simp add: same_device_def)
  qed
  show "host_found env cfg name n a m \<Longrightarrow> \<exists>m0. probe_found (net_env env) cfg n a m0 \<and> same_device m m0"
    using same probe_hint unfolding host_found_def probe_found_def by blast
  show "probe_found (net_env env) cfg n a m0 \<Longrightarrow> \<exists>m. host_found env cfg name n a m \<and> same_device m m0"
    using same probe_hint unfolding host_found_def probe_found_def by blast
qed

lemma same_device_trans: "same_device a b \<Longrightarrow> same_device b c \<Longrightarrow> same_device a c"
  by (simp add: same_device_def)

lemma probe_host_covers:
  assumes "probe_host env cfg name st = (Inr ms, st')"
  obtains new where "extends_by st st' new" "covers (net_env env) cfg st new ms" "out st' = out st"
proof -
  obtain new where new: "extends_by st st' new"
    "set ms = {m. \<exists>i < length new. host_found env cfg name (clock st + i) (new ! i) m}" "out st' = out st"
    by (rule probe_host_facts [OF assms])
  have "covers (net_env env) cfg st new ms"
    using host_found_probe [of env cfg] unfolding covers_def new(2) by blast
  with new show thesis using that by blast
qed

lemma covers_tagged:
  assumes "covers env cfg st new ms" "\<And>m. same_device (f m) m"
  shows "covers env cfg st new (map f ms)"
  using assms unfolding covers_def same_device_def by fastforce

lemma covers_Nil: "covers env cfg st [] []"
  by (simp add: covers_def)

lemma same_device_tag: "same_device (info_insert k v m) m"
  by (simp add: same_device_def)

lemma extends_by_out: "extends_by st (st'\<lparr>out := o'\<rparr>) new = extends_by st st' new"
  by (simp add: extends_by_def)

lemma extends_by_refl: "extends_by st st []"
  by (simp add: extends_by_def)

lemma probe_named_facts:
  "\<exists>ms st' new. probe_named_hosts env p tx source ips st = (Inr ms, st') \<and> extends_by st st' new \<and>
     covers (net_env env) (dp_scan p) st new ms \<and> out st' = send_all tx ms (out st) \<and>
     (\<forall>m \<in> set ms. info m ''source'' = Some source)"
proof (induction ips arbitrary: st)
  case Nil
  then show ?case
    by (simp add: covers_Nil extends_by_def send_all_def)
next
  case (Cons ip ips)
  obtain found st1 where h: "probe_host env (dp_scan p) (show_ipv4 ip) st = (Inr found, st1)"
    using probe_host_ok [of env "dp_scan p" "show_ipv4 ip" st] by (metis prod.collapse)
  obtain new where new: "extends_by st st1 new" "covers (net_env env) (dp_scan p) st new found" "out st1 = out st"
    by (rule probe_host_covers [OF h])
  let ?found = "map (info_insert ''source'' source) found"
  let ?st2 = "send_found tx ?found st1"
  obtain ms st' new' where rec: "probe_named_hosts env p tx source ips ?st2 = (Inr ms, st')"
    "extends_by ?st2 st' new'" "covers (net_env env) (dp_scan p) ?st2 new' ms"
    "out st' = send_all tx ms (out ?st2)" "\<forall>m \<in> set ms. info m ''source'' = Some source"
    using Cons.IH by blast
  have e: "extends_by st ?st2 new"
    using new(1) by (simp add: send_found_def extends_by_out)
  have "covers (net_env env) (dp_scan p) st (new @ new') (?found @ ms)"
    using covers_tagged [OF new(2) same_device_tag] e rec(3) by (rule covers_append)
  moreover have "extends_by st st' (new @ new')"
    using e rec(2) by (rule extends_by_trans)
  moreover have "out st' = send_all tx (?found @ ms) (out st)"
    using rec(4) new(3) by (simp add: send_found_def send_all_append)
  moreover have "probe_named_hosts env p tx source (ip # ips) st = (Inr (?found @ ms), st')"
    using h rec(1) by (simp add: Let_def)
  ultimately show ?case
    using rec(5) by (intro exI [of _ "?found @ ms"] exI [of _ st'] exI [of _ "new @ new'"]) auto
qed

lemma named_stage_facts:
  "\<exists>ms st' new. named_stage env p tx st = (Inr ms, st') \<and> extends_by st st' new \<and>
     covers (net_env env) (dp_scan p) st new ms \<and> out st' = send_all tx ms (out st) \<and>
     (\<forall>m \<in> set ms. info m ''source'' \<in> {Some ''mdns'', Some ''ssdp''})"
proof -
  have stage: "\<exists>ms st' new. (if b then probe_named_hosts env p tx source ips st else (Inr [], st)) = (Inr ms, st') \<and>
      extends_by st st' new \<and> covers (net_env env) (dp_scan p) st new ms \<and>
      out st' = send_all tx ms (out st) \<and> (\<forall>m \<in> set ms. info m ''source'' = Some source)"
    for b source ips st
  proof (cases b)
    case True
    then show ?thesis
      using probe_named_facts [of env p tx source ips st] by simp
  next
    case False
    then show ?thesis
      using covers_Nil extends_by_refl
      by (intro exI [of _ "[] :: device_match list"] exI [of _ st] exI [of _ "[] :: sock_addr list"])
        (simp add: send_all_def)
  qed
  obtain ms1 st1 new1 where 1: "(if dp_use_mdns p
      then probe_named_hosts env p tx ''mdns''
        (active_mdns_hosts (windows_os env) (mdns env) (dp_mdns_timeout p)) st
      else (Inr [], st)) = (Inr ms1, st1)" "extends_by st st1 new1"
    "covers (net_env env) (dp_scan p) st new1 ms1" "out st1 = send_all tx ms1 (out st)"
    "\<forall>m \<in> set ms1. info m ''source'' = Some ''mdns''"
    using stage [of "dp_use_mdns p" "''mdns''"
        "active_mdns_hosts (windows_os env) (mdns env) (dp_mdns_timeout p)" st] by blast
  obtain ms2 st2 new2 where 2: "(if dp_use_ssdp p
      then probe_named_hosts env p tx ''ssdp'' (active_ssdp_hosts (ssdp env) (dp_ssdp_timeout p)) st1
      else (Inr [], st1)) = (Inr ms2, st2)" "extends_by st1 st2 new2"
    "covers (net_env env) (dp_scan p) st1 new2 ms2" "out st2 = send_all tx ms2 (out st1)"
    "\<forall>m \<in> set ms2. info m ''source'' = Some ''ssdp''"
    using stage [of "dp_use_ssdp p" "''ssdp''" "active_ssdp_hosts (ssdp env) (dp_ssdp_timeout p)" st1] by blast
  have "named_stage env p tx st = (Inr (ms1 @ ms2), st2)"
    unfolding named_stage_def 1(1) by (simp add: 2(1))
  moreover have "covers (net_env env) (dp_scan p) st (new1 @ new2) (ms1 @ ms2)"
    using 1(3,2) 2(3) by (rule covers_append)
  moreover have "extends_by st st2 (new1 @ new2)"
    using 1(2) 2(2) by (rule extends_by_trans)
  ultimately show ?thesis
    using 1(4,5) 2(4,5)
    by (intro exI [of _ "ms1 @ ms2"] exI [of _ st2] exI [of _ "new1 @ new2"]) (auto simp: send_all_append)
qed

text \<open>
  The names and addresses that the announced hosts stand for, looked up one after the other from the
  \<open>n\<close>-th lookup on, and what the probes of such addresses find, the first of them being the \<open>c\<close>-th
  probe of the discovery.
\<close>

definition announced_addrs ::
  "'net disc_env \<Rightarrow> u16 list \<Rightarrow> nat \<Rightarrow> ipv4 list \<Rightarrow> (string \<times> sock_addr) list" where
  "announced_addrs env ports n ips =
     concat (map (\<lambda>(k, ip). map (Pair (show_ipv4 ip)) (host_addrs env ports k (show_ipv4 ip))) (enumerate n ips))"

definition announced_found ::
  "'net disc_env \<Rightarrow> scan_cfg \<Rightarrow> nat \<Rightarrow> (string \<times> sock_addr) list \<Rightarrow> string \<Rightarrow> device_match \<Rightarrow> bool" where
  "announced_found env cfg c targets source m =
     (\<exists>i < length targets. \<exists>m0. host_found env cfg (fst (targets ! i)) (c + i) (snd (targets ! i)) m0 \<and>
        m = m0\<lparr>info := [''hostname'' \<mapsto> fst (targets ! i), ''source'' \<mapsto> source]\<rparr>)"

lemma announced_no_ports [simp]: "announced_addrs env [] n ips = []"
  by (simp add: announced_addrs_def)

lemma announced_found_append:
  "announced_found env cfg c (ts @ ts') source m \<longleftrightarrow>
     announced_found env cfg c ts source m \<or> announced_found env cfg (c + length ts) ts' source m"
    (is "?l \<longleftrightarrow> ?r")
proof
  assume ?l
  then obtain i m0 where i: "i < length ts + length ts'"
    "host_found env cfg (fst ((ts @ ts') ! i)) (c + i) (snd ((ts @ ts') ! i)) m0"
    "m = m0\<lparr>info := [''hostname'' \<mapsto> fst ((ts @ ts') ! i), ''source'' \<mapsto> source]\<rparr>"
    by (auto simp: announced_found_def)
  show ?r
  proof (cases "i < length ts")
    case True
    then show ?thesis using i by (auto simp: announced_found_def nth_append)
  next
    case False
    then obtain j where "i = length ts + j"
      using le_Suc_ex not_less by blast
    then show ?thesis
      using i by (auto simp: announced_found_def add.assoc)
  qed
next
  assume ?r
  then show ?l
  proof
    assume "announced_found env cfg c ts source m"
    then obtain i m0 where "i < length ts" "host_found env cfg (fst (ts ! i)) (c + i) (snd (ts ! i)) m0"
      "m = m0\<lparr>info := [''hostname'' \<mapsto> fst (ts ! i), ''source'' \<mapsto> source]\<rparr>"
      by (auto simp: announced_found_def)
    then show ?l
      unfolding announced_found_def by (intro exI [of _ i] conjI exI [of _ m0]) (simp_all add: nth_append)
  next
    assume "announced_found env cfg (c + length ts) ts' source m"
    then obtain i m0 where "i < length ts'"
      "host_found env cfg (fst (ts' ! i)) (c + length ts + i) (snd (ts' ! i)) m0"
      "m = m0\<lparr>info := [''hostname'' \<mapsto> fst (ts' ! i), ''source'' \<mapsto> source]\<rparr>"
      by (auto simp: announced_found_def)
    then show ?l
      unfolding announced_found_def
      by (intro exI [of _ "length ts + i"] conjI exI [of _ m0]) (simp_all add: add.assoc)
  qed
qed

lemma announced_found_host:
  "m \<in> info_insert ''source'' source ` {m. \<exists>i < length as. host_found env cfg name (c + i) (as ! i) m} \<longleftrightarrow>
     announced_found env cfg c (map (Pair name) as) source m"
proof -
  have "info_insert ''source'' source m0 = m0\<lparr>info := [''hostname'' \<mapsto> name, ''source'' \<mapsto> source]\<rparr>"
    if "host_found env cfg name n a m0" for n a m0
    using host_found_match [OF that] by (simp add: info_insert_def)
  note tagged = this
  show ?thesis
  proof
    assume "m \<in> info_insert ''source'' source ` {m. \<exists>i < length as. host_found env cfg name (c + i) (as ! i) m}"
    then obtain i m0 where "i < length as" "host_found env cfg name (c + i) (as ! i) m0"
      "m = info_insert ''source'' source m0"
      by blast
    then show "announced_found env cfg c (map (Pair name) as) source m"
      unfolding announced_found_def by (intro exI [of _ i] conjI exI [of _ m0]) (simp_all add: tagged)
  next
    assume "announced_found env cfg c (map (Pair name) as) source m"
    then obtain i m0 where i: "i < length as" "host_found env cfg name (c + i) (as ! i) m0"
      "m = m0\<lparr>info := [''hostname'' \<mapsto> name, ''source'' \<mapsto> source]\<rparr>"
      by (auto simp: announced_found_def)
    then have "m = info_insert ''source'' source m0"
      by (simp add: tagged)
    then show "m \<in> info_insert ''source'' source ` {m. \<exists>i < length as. host_found env cfg name (c + i) (as ! i) m}"
      using i by blast
  qed
qed

lemma probe_named_exact:
  assumes "probe_named_hosts env p tx source ips st = (Inr ms, st')"
  defines "targets \<equiv> announced_addrs env (sc_ports (dp_scan p)) (lookups st) ips"
  shows "extends_by st st' (map snd targets)"
    "lookups st' = (if sc_ports (dp_scan p) = [] then lookups st else lookups st + length ips)"
    "m \<in> set ms \<longleftrightarrow> announced_found env (dp_scan p) (clock st) targets source m"
proof -
  have "extends_by st st' (map snd (announced_addrs env (sc_ports (dp_scan p)) (lookups st) ips)) \<and>
      lookups st' = (if sc_ports (dp_scan p) = [] then lookups st else lookups st + length ips) \<and>
      (\<forall>m. m \<in> set ms \<longleftrightarrow> announced_found env (dp_scan p) (clock st)
        (announced_addrs env (sc_ports (dp_scan p)) (lookups st) ips) source m)"
    using assms(1)
  proof (induction ips arbitrary: st ms)
    case Nil
    then show ?case
      by (auto simp: announced_addrs_def announced_found_def extends_by_def)
  next
    case (Cons ip ips)
    let ?ports = "sc_ports (dp_scan p)"
    obtain found st1 where h: "probe_host env (dp_scan p) (show_ipv4 ip) st = (Inr found, st1)"
      using probe_host_ok [of env "dp_scan p" "show_ipv4 ip" st] by (metis prod.collapse)
    obtain as where as: "extends_by st st1 as"
      "set found = {m. \<exists>i < length as. host_found env (dp_scan p) (show_ipv4 ip) (clock st + i) (as ! i) m}"
      "out st1 = out st" "polls st1 = polls st" "slept_ms st1 = slept_ms st"
      "lookups st1 = (if ?ports = [] then lookups st else Suc (lookups st))"
      "as = host_addrs env ?ports (lookups st) (show_ipv4 ip)"
      by (rule probe_host_facts [OF h])
    let ?found = "map (info_insert ''source'' source) found"
    let ?st2 = "send_found tx ?found st1"
    obtain rest where rec: "probe_named_hosts env p tx source ips ?st2 = (Inr rest, st')" "ms = ?found @ rest"
      using Cons.prems h by (auto simp: Let_def split: prod.splits sum.splits)
    have st2: "clock ?st2 = clock st + length as" "lookups ?st2 = lookups st1" "extends_by st ?st2 as"
      using as(1) by (simp_all add: send_found_def extends_by_def)
    note later = Cons.IH [OF rec(1)]
    have targets: "announced_addrs env ?ports (lookups st) (ip # ips) =
        map (Pair (show_ipv4 ip)) as @ announced_addrs env ?ports (lookups ?st2) ips"
    proof (cases "?ports = []")
      case True
      then show ?thesis
        by (simp add: as(7))
    next
      case False
      then show ?thesis
        by (simp add: announced_addrs_def as(6,7) st2(2))
    qed
    have "extends_by st st' (as @ map snd (announced_addrs env ?ports (lookups ?st2) ips))"
      using st2(3) later by (blast intro: extends_by_trans)
    moreover have "m \<in> set ms \<longleftrightarrow>
        announced_found env (dp_scan p) (clock st) (map (Pair (show_ipv4 ip)) as) source m \<or>
        announced_found env (dp_scan p) (clock ?st2) (announced_addrs env ?ports (lookups ?st2) ips) source m" for m
      using later unfolding rec(2) set_append set_map as(2) announced_found_host [symmetric] by blast
    ultimately show ?case
      using later by (simp add: targets announced_found_append st2(1,2) as(6) comp_def)
  qed
  then show "extends_by st st' (map snd targets)"
    "lookups st' = (if sc_ports (dp_scan p) = [] then lookups st else lookups st + length ips)"
    "m \<in> set ms \<longleftrightarrow> announced_found env (dp_scan p) (clock st) targets source m"
    unfolding targets_def by blast+
qed

text \<open>
  The hosts that answered the multicast queries of a discovery, and what they stand for: those of
  mDNS first, those of SSDP looked up after them.
\<close>

definition mdns_addrs :: "'net disc_env \<Rightarrow> discovery_params \<Rightarrow> scan_state \<Rightarrow> (string \<times> sock_addr) list" where
  "mdns_addrs env p st =
     (if dp_use_mdns p
      then announced_addrs env (sc_ports (dp_scan p)) (lookups st)
        (active_mdns_hosts (windows_os env) (mdns env) (dp_mdns_timeout p))
      else [])"

definition ssdp_addrs :: "'net disc_env \<Rightarrow> discovery_params \<Rightarrow> scan_state \<Rightarrow> (string \<times> sock_addr) list" where
  "ssdp_addrs env p st =
     (if dp_use_ssdp p
      then announced_addrs env (sc_ports (dp_scan p))
        (lookups st + (if dp_use_mdns p
           then length (active_mdns_hosts (windows_os env) (mdns env) (dp_mdns_timeout p)) else 0))
        (active_ssdp_hosts (ssdp env) (dp_ssdp_timeout p))
      else [])"

lemma stage_exact:
  assumes "(if b then probe_named_hosts env p tx source ips st else (Inr [], st)) = (Inr ms, st')"
  shows "extends_by st st' (map snd
      (if b then announced_addrs env (sc_ports (dp_scan p)) (lookups st) ips else []))"
    "m \<in> set ms \<longleftrightarrow> announced_found env (dp_scan p) (clock st)
      (if b then announced_addrs env (sc_ports (dp_scan p)) (lookups st) ips else []) source m"
    "sc_ports (dp_scan p) \<noteq> [] \<Longrightarrow> lookups st' = lookups st + (if b then length ips else 0)"
proof -
  note on = probe_named_exact [of env p tx source ips st ms st']
  show "extends_by st st' (map snd
      (if b then announced_addrs env (sc_ports (dp_scan p)) (lookups st) ips else []))"
    using assms on(1) by (cases b) (simp_all add: extends_by_def)
  show "m \<in> set ms \<longleftrightarrow> announced_found env (dp_scan p) (clock st)
      (if b then announced_addrs env (sc_ports (dp_scan p)) (lookups st) ips else []) source m"
    using assms on(3) by (cases b) (simp_all add: announced_found_def)
  show "sc_ports (dp_scan p) \<noteq> [] \<Longrightarrow> lookups st' = lookups st + (if b then length ips else 0)"
    using assms on(2) by (cases b) simp_all
qed

lemma named_stage_exact:
  assumes "named_stage env p tx st = (Inr named, st')"
  obtains by_mdns by_ssdp where "named = by_mdns @ by_ssdp"
    "extends_by st st' (map snd (mdns_addrs env p st) @ map snd (ssdp_addrs env p st))"
    "\<forall>m. m \<in> set by_mdns \<longleftrightarrow> announced_found env (dp_scan p) (clock st) (mdns_addrs env p st) ''mdns'' m"
    "\<forall>m. m \<in> set by_ssdp \<longleftrightarrow> announced_found env (dp_scan p)
       (clock st + length (mdns_addrs env p st)) (ssdp_addrs env p st) ''ssdp'' m"
proof -
  let ?ports = "sc_ports (dp_scan p)"
  let ?m = "active_mdns_hosts (windows_os env) (mdns env) (dp_mdns_timeout p)"
  let ?s = "active_ssdp_hosts (ssdp env) (dp_ssdp_timeout p)"
  obtain by_mdns st1 where 1: "(if dp_use_mdns p then probe_named_hosts env p tx ''mdns'' ?m st
      else (Inr [], st)) = (Inr by_mdns, st1)"
    using probe_named_facts [of env p tx "''mdns''" ?m st] by (cases "dp_use_mdns p") auto
  obtain by_ssdp st2 where 2: "(if dp_use_ssdp p then probe_named_hosts env p tx ''ssdp'' ?s st1
      else (Inr [], st1)) = (Inr by_ssdp, st2)"
    using probe_named_facts [of env p tx "''ssdp''" ?s st1] by (cases "dp_use_ssdp p") auto
  have named: "named = by_mdns @ by_ssdp" "st' = st2"
    using assms by (simp_all add: named_stage_def 1 2)
  have m: "extends_by st st1 (map snd (mdns_addrs env p st))"
    "m \<in> set by_mdns \<longleftrightarrow> announced_found env (dp_scan p) (clock st) (mdns_addrs env p st) ''mdns'' m"
    "?ports \<noteq> [] \<Longrightarrow> lookups st1 = lookups st + (if dp_use_mdns p then length ?m else 0)" for m
    by (rule stage_exact [OF 1, folded mdns_addrs_def])+
  have "ssdp_addrs env p st = (if dp_use_ssdp p then announced_addrs env ?ports (lookups st1) ?s else [])"
    using m(3) by (cases "?ports = []") (auto simp: ssdp_addrs_def)
  note s = stage_exact [OF 2, folded this]
  have "clock st1 = clock st + length (mdns_addrs env p st)"
    using m(1) by (simp add: extends_by_def)
  then have "\<forall>m. m \<in> set by_ssdp \<longleftrightarrow> announced_found env (dp_scan p)
      (clock st + length (mdns_addrs env p st)) (ssdp_addrs env p st) ''ssdp'' m"
    using s(2) by simp
  moreover have "extends_by st st' (map snd (mdns_addrs env p st) @ map snd (ssdp_addrs env p st))"
    unfolding named(2) using m(1) s(1) by (rule extends_by_trans)
  ultimately show thesis
    using that [of by_mdns by_ssdp] named(1) m(2) by blast
qed

lemma scan_covers:
  assumes "scan_subnets env cfg tx subnets st = Some (Returns (Inr ms), st')"
    and "clock st = length (dialled_addrs st)"
  obtains new where "extends_by st st' new" "covers env cfg st new ms"
proof -
  obtain new where d: "dialled_addrs st' = dialled_addrs st @ new"
    using scan_extends [OF assms(1)] by (auto simp: prefix_def)
  note inv = scan_result_inv [OF assms]
  have "clock st' = length (dialled_addrs st')"
    using inv by (simp add: scan_inv_def)
  then have "extends_by st st' new"
    using d assms(2) by (simp add: extends_by_def)
  moreover have "covers env cfg st new ms"
    unfolding covers_def
  proof (intro conjI ballI allI impI)
    fix m assume "m \<in> set ms"
    then obtain i m0 where i: "i \<in> {length (dialled_addrs st)..<length (dialled_addrs st')}"
      "probe_found env cfg i (dialled_addrs st' ! i) m0" "same_device m m0"
      using inv unfolding scan_inv_def by auto
    then obtain j where "i = length (dialled_addrs st) + j"
      using le_Suc_ex by auto
    then show "\<exists>i < length new. \<exists>m0. probe_found env cfg (clock st + i) (new ! i) m0 \<and> same_device m m0"
      using i d assms(2) by (intro exI [of _ j]) auto
  next
    fix i m0 assume i: "i < length new" "probe_found env cfg (clock st + i) (new ! i) m0"
    let ?j = "length (dialled_addrs st) + i"
    have "?j \<in> {length (dialled_addrs st)..<length (dialled_addrs st')}"
      "probe_found env cfg ?j (dialled_addrs st' ! ?j) m0"
      using i d assms(2) by simp_all
    then show "\<exists>m \<in> set ms. same_device m m0"
      using inv unfolding scan_inv_def fst_conv snd_conv by blast
  qed
  ultimately show thesis by (rule that)
qed

lemma outcome_map_Returns: "outcome_map f r = Returns y \<longleftrightarrow> (\<exists>x. r = Returns x \<and> f x = y)"
  by (cases r) (auto simp: outcome_map_def)

lemma keep_first_addresses:
  "address ` set (keep_first seen address ms) = address ` set ms - seen"
  by (rule keep_first_keys)

lemma append_new_addresses: "addresses (append_new xs ys) = addresses (xs @ ys)"
  unfolding append_new_def addresses_def set_append image_Un keep_first_addresses by blast

lemma append_new_subseq: "subseq (append_new xs ys) (xs @ ys)"
  unfolding append_new_def by (intro list_emb_append_mono) (simp_all add: keep_first_subseq)

lemma append_new_parts:
  "\<exists>new. append_new xs ys = xs @ new \<and> distinct_addrs new \<and> addresses xs \<inter> addresses new = {}"
  unfolding append_new_def distinct_addrs_def addresses_def
  by (intro exI [of _ "keep_first (address ` set xs) address ys"]) (auto simp: keep_first_addresses keep_first_distinct)

text \<open>Removing repetitions keeps a list exact, address by address.\<close>

lemma covers_append_new:
  assumes "covers env cfg st new (named @ swept)"
  shows "(\<forall>m \<in> set (append_new named swept). \<exists>i < length new. \<exists>m0.
      probe_found env cfg (clock st + i) (new ! i) m0 \<and> same_device m m0) \<and>
    (\<forall>i < length new. \<forall>m0. probe_found env cfg (clock st + i) (new ! i) m0 \<longrightarrow>
      show_sock (new ! i) \<in> addresses (append_new named swept))"
proof (intro conjI ballI allI impI)
  fix m assume "m \<in> set (append_new named swept)"
  then have "m \<in> set (named @ swept)"
    by (auto simp: append_new_def dest: subsetD [OF keep_first_set])
  then show "\<exists>i < length new. \<exists>m0. probe_found env cfg (clock st + i) (new ! i) m0 \<and> same_device m m0"
    using assms unfolding covers_def by blast
next
  fix i m0 assume i: "i < length new" "probe_found env cfg (clock st + i) (new ! i) m0"
  then obtain m where "m \<in> set (named @ swept)" "same_device m m0"
    using assms unfolding covers_def by blast
  moreover have "address m0 = show_sock (new ! i)"
    using probe_found_match [OF i(2)] by auto
  ultimately have "show_sock (new ! i) \<in> addresses (named @ swept)"
    by (simp add: addresses_def same_device_def) (metis Un_iff image_eqI)
  then show "show_sock (new ! i) \<in> addresses (append_new named swept)"
    by (simp only: append_new_addresses)
qed

text \<open>A discovery that got past the preferred host is the two named stages and a scan.\<close>

lemma run_discovery_swept:
  assumes "run_discovery env p tx st = Some (Returns (Inr ms), st')" "try_preferred env p tx st = (Inr None, st0)"
  obtains named st1 new targets swept where "named_stage env p tx st0 = (Inr named, st1)"
    "extends_by st0 st1 new" "covers (net_env env) (dp_scan p) st0 new named"
    "out st1 = send_all tx named (out st0)"
    "\<forall>m \<in> set named. info m ''source'' \<in> {Some ''mdns'', Some ''ssdp''}"
    "sweep_subnets env p = Returns (Inr targets)"
    "scan_subnets (net_env env) (dp_scan p) tx targets st1 = Some (Returns (Inr swept), st')"
    "ms = append_new named swept"
proof -
  obtain named st1 new where 1: "named_stage env p tx st0 = (Inr named, st1)" "extends_by st0 st1 new"
    "covers (net_env env) (dp_scan p) st0 new named" "out st1 = send_all tx named (out st0)"
    "\<forall>m \<in> set named. info m ''source'' \<in> {Some ''mdns'', Some ''ssdp''}"
    using named_stage_facts [of env p tx st0] by blast
  obtain targets res where res: "sweep_subnets env p = Returns (Inr targets)"
    "scan_subnets (net_env env) (dp_scan p) tx targets st1 = Some (Returns res, st')"
    "map_sum id (append_new named) res = Inr ms"
    using assms 1(1) by (auto simp: run_discovery_def outcome_map_Returns split: outcome.splits sum.splits)
  then obtain swept where "res = Inr swept" "ms = append_new named swept"
    by (cases res) auto
  then show thesis
    using that [OF 1 res(1)] res(2) by simp
qed

text \<open>
  C8.  The matches of a discovery whose preferred host is absent or did not answer are exactly what
  its probes found, in three parts.  First the hosts that answered the mDNS query, when mDNS is used:
  each is looked up by its address in turn and every address it stands for is probed; a match is
  exactly what such a probe found, with the host's name and the source \<open>mdns\<close>.  Then in the same way
  the hosts that answered the SSDP query, with the source \<open>ssdp\<close>.  Then what the scan of the
  configured or derived subnets found, in its order, each address once and none that the first two
  parts have.  Altogether every match is that of a probe that was made and every address at which a
  probe found something is reported.
\<close>

theorem tcp_discovery_exact:
  assumes "run_discovery env p tx st = Some (Returns (Inr ms), st')"
    and "try_preferred env p tx st = (Inr None, st0)" "clock st0 = length (dialled_addrs st0)"
  shows "\<exists>by_mdns by_ssdp swept new targets st1 d. ms = by_mdns @ by_ssdp @ new \<and>
    dialled_addrs st1 =
      dialled_addrs st0 @ map snd (mdns_addrs env p st0) @ map snd (ssdp_addrs env p st0) \<and>
    (\<forall>m. m \<in> set by_mdns \<longleftrightarrow>
       announced_found env (dp_scan p) (clock st0) (mdns_addrs env p st0) ''mdns'' m) \<and>
    (\<forall>m. m \<in> set by_ssdp \<longleftrightarrow>
       announced_found env (dp_scan p) (clock st0 + length (mdns_addrs env p st0))
         (ssdp_addrs env p st0) ''ssdp'' m) \<and>
    sweep_subnets env p = Returns (Inr targets) \<and>
    scan_subnets (net_env env) (dp_scan p) tx targets st1 = Some (Returns (Inr swept), st') \<and>
    subseq new swept \<and> distinct_addrs new \<and>
    addresses new = addresses swept - addresses (by_mdns @ by_ssdp) \<and>
    dialled_addrs st' = dialled_addrs st0 @ d \<and>
    (\<forall>m \<in> set ms. \<exists>i < length d. \<exists>m0.
       probe_found (net_env env) (dp_scan p) (clock st0 + i) (d ! i) m0 \<and> same_device m m0) \<and>
    (\<forall>i < length d. \<forall>m0. probe_found (net_env env) (dp_scan p) (clock st0 + i) (d ! i) m0 \<longrightarrow>
       show_sock (d ! i) \<in> addresses ms)"
proof -
  obtain named st1 new1 targets swept where named: "named_stage env p tx st0 = (Inr named, st1)"
    and 1: "extends_by st0 st1 new1" "covers (net_env env) (dp_scan p) st0 new1 named"
    and scan: "sweep_subnets env p = Returns (Inr targets)"
      "scan_subnets (net_env env) (dp_scan p) tx targets st1 = Some (Returns (Inr swept), st')"
    and ms: "ms = append_new named swept"
    using run_discovery_swept [OF assms(1,2)] by metis
  obtain by_mdns by_ssdp where parts: "named = by_mdns @ by_ssdp"
    "extends_by st0 st1 (map snd (mdns_addrs env p st0) @ map snd (ssdp_addrs env p st0))"
    "\<forall>m. m \<in> set by_mdns \<longleftrightarrow> announced_found env (dp_scan p) (clock st0) (mdns_addrs env p st0) ''mdns'' m"
    "\<forall>m. m \<in> set by_ssdp \<longleftrightarrow> announced_found env (dp_scan p)
       (clock st0 + length (mdns_addrs env p st0)) (ssdp_addrs env p st0) ''ssdp'' m"
    by (rule named_stage_exact [OF named])
  have "clock st1 = length (dialled_addrs st1)"
    using 1(1) assms(3) by (simp add: extends_by_def)
  then obtain new2 where new2: "extends_by st1 st' new2" "covers (net_env env) (dp_scan p) st1 new2 swept"
    by (rule scan_covers [OF scan(2)])
  note exact = covers_append_new [OF covers_append [OF 1(2,1) new2(2)], folded ms]
  let ?new = "keep_first (address ` set named) address swept"
  show ?thesis
  proof (rule exI [of _ by_mdns], rule exI [of _ by_ssdp], rule exI [of _ swept], rule exI [of _ ?new],
      rule exI [of _ targets], rule exI [of _ st1], rule exI [of _ "new1 @ new2"], intro conjI)
    show "ms = by_mdns @ by_ssdp @ ?new"
      by (simp add: ms append_new_def parts(1))
    show "dialled_addrs st1 =
        dialled_addrs st0 @ map snd (mdns_addrs env p st0) @ map snd (ssdp_addrs env p st0)"
      using parts(2) by (simp add: extends_by_def)
    show "dialled_addrs st' = dialled_addrs st0 @ new1 @ new2"
      using 1(1) new2(1) by (simp add: extends_by_def)
    show "addresses ?new = addresses swept - addresses (by_mdns @ by_ssdp)"
      unfolding addresses_def keep_first_addresses parts(1) ..
    show "distinct_addrs ?new"
      by (simp add: distinct_addrs_def keep_first_distinct)
    show "subseq ?new swept"
      by (rule keep_first_subseq)
  qed (rule exact [THEN conjunct1] exact [THEN conjunct2] parts(3,4) scan)+
qed

section \<open>Totality and errors\<close>

lemma run_discovery_cases:
  obtains (preferred) ms st' where "run_discovery env p tx st = Some (Returns (Inr ms), st')"
  | (swept) named st1 where "run_discovery env p tx st =
      (case sweep_subnets env p of
         Panics \<Rightarrow> Some (Panics, st1)
       | Returns (Inl e) \<Rightarrow> Some (Returns (Inl e), st1)
       | Returns (Inr targets) \<Rightarrow>
           map_option (\<lambda>(r, st). (outcome_map (map_sum id (append_new named)) r, st))
             (scan_subnets (net_env env) (dp_scan p) tx targets st1))"
proof -
  obtain r st0 where 0: "try_preferred env p tx st = (Inr r, st0)"
    using try_preferred_ok by blast
  obtain named st1 where 1: "named_stage env p tx st0 = (Inr named, st1)"
    using named_stage_facts by blast
  show thesis
  proof (cases r)
    case None
    then show thesis
      using swept 0 1 by (simp add: run_discovery_def)
  next
    case (Some ms)
    then show thesis
      using preferred 0 by (simp add: run_discovery_def)
  qed
qed

lemma run_discovery_total:
  assumes "sweep_subnets env p = Returns (Inr targets)"
    "parse_nets (ipnet (net_env env)) targets = Inr nets"
    "0 < sc_max_concurrent (dp_scan p)" "sc_max_concurrent (dp_scan p) \<le> max_permits"
  obtains ms st' where "run_discovery env p tx st = Some (Returns (Inr ms), st')"
proof (rule run_discovery_cases [of env p tx st])
  fix named st1
  assume run: "run_discovery env p tx st =
      (case sweep_subnets env p of
         Panics \<Rightarrow> Some (Panics, st1)
       | Returns (Inl e) \<Rightarrow> Some (Returns (Inl e), st1)
       | Returns (Inr targets) \<Rightarrow>
           map_option (\<lambda>(r, st). (outcome_map (map_sum id (append_new named)) r, st))
             (scan_subnets (net_env env) (dp_scan p) tx targets st1))"
  obtain ms st' where "scan_subnets (net_env env) (dp_scan p) tx targets st1 = Some (Returns (Inr ms), st')"
    using assms(2) by (rule scan_returns_matches [OF assms(3,4)])
  then show thesis
    using run assms(1) that by (simp add: outcome_map_def)
qed (rule that)

text \<open>
  C21.  An automatic discovery cannot fail.  With an object that was constructed, a port, between
  one and the largest number of permits, and no subnets configured, \<open>discover\<close> always returns a
  list: the subnets it derives from the interfaces always parse.
\<close>

theorem tcp_auto_discovery_total:
  assumes "td_new single self0 = Inr self" "td_subnets self0 = []" "single \<noteq> None \<or> td_ports self0 \<noteq> []"
    and "0 < td_max_concurrent self0" "td_max_concurrent self0 \<le> max_permits"
    and "ipnet_laws (ipnet (net_env env))"
  shows "\<exists>ms. td_discover self env = Some (Inr ms)"
proof -
  have self: "16 \<le> td_subnet_prefix self0" "td_subnet_prefix self0 \<le> 32"
    "self = self0\<lparr>td_ports := keep_first {} (\<lambda>p. p) ((case single of None \<Rightarrow> [] | Some p \<Rightarrow> [p]) @ td_ports self0)\<rparr>"
    using assms(1) by (auto simp: td_new_def Let_def split: if_splits)
  have "set (td_ports self) \<noteq> {}"
    using assms(3) unfolding self(3) by (auto simp: keep_first_set_eq split: option.splits)
  then have ports: "td_ports self \<noteq> []"
    by auto
  obtain cidrs nets where nets: "local_subnets (ipnet (net_env env)) (ifaces env) (td_subnet_prefix self0) =
      Returns (Inr cidrs)" "parse_nets (ipnet (net_env env)) cidrs = Inr nets"
    using local_subnets_nets [OF assms(6) self(1,2), of "ifaces env"] by metis
  have "sweep_subnets env (td_params self) = Returns (Inr cidrs)"
    using nets(1) assms(2) by (simp add: sweep_subnets_def td_params_def self(3))
  then obtain ms st' where "run_discovery env (td_params self) None scan_start = Some (Returns (Inr ms), st')"
    using nets(2) by (rule run_discovery_total) (use assms(4,5) in \<open>simp_all add: td_params_def self(3)\<close>)
  then show ?thesis
    using ports by (simp add: td_discover_def block_on_result_def)
qed

text \<open>
  Construction fails exactly for a subnet prefix outside 16 to 32; otherwise the object keeps
  its arguments, and its ports are \<open>port\<close> and then \<open>ports\<close>, each once, in this order.
\<close>

theorem td_new_ports:
  "(case td_new single self of
      Inl e \<Rightarrow> (\<exists>t. e = PyValueError t) \<and> (td_subnet_prefix self < 16 \<or> 32 < td_subnet_prefix self)
    | Inr self' \<Rightarrow>
        16 \<le> td_subnet_prefix self \<and> td_subnet_prefix self \<le> 32 \<and>
        (\<exists>ports. self' = self\<lparr>td_ports := ports\<rparr> \<and> distinct ports \<and>
           set ports = set_option single \<union> set (td_ports self) \<and>
           subseq ports ((case single of None \<Rightarrow> [] | Some p \<Rightarrow> [p]) @ td_ports self) \<and>
           (\<exists>p rest. single = Some p \<and> ports = p # rest \<or> single = None)))"
proof (cases "16 \<le> td_subnet_prefix self \<and> td_subnet_prefix self \<le> 32")
  case False
  then show ?thesis
    by (auto simp: td_new_def not_le)
next
  case True
  let ?given = "(case single of None \<Rightarrow> [] | Some p \<Rightarrow> [p]) @ td_ports self"
  let ?ports = "keep_first {} (\<lambda>p. p) ?given"
  have "td_new single self = Inr (self\<lparr>td_ports := ?ports\<rparr>)"
    using True by (simp add: td_new_def Let_def)
  moreover have "distinct ?ports" "subseq ?ports ?given"
    by (rule keep_first_distinct_id, rule keep_first_subseq)
  moreover have "set ?ports = set_option single \<union> set (td_ports self)"
    unfolding keep_first_set_eq by (cases single) auto
  moreover have "\<exists>p rest. single = Some p \<and> ?ports = p # rest \<or> single = None"
    by (cases single) auto
  ultimately show ?thesis
    using True by auto
qed

text \<open>A call without arguments constructs an object, whose methods ask for a port.\<close>

lemma td_default_needs_port:
  "td_new None td_default = Inr td_default" "td_discover td_default env = Some (Inl no_ports_error)"
  "td_new (Some p) td_default = Inr (td_default\<lparr>td_ports := [p]\<rparr>)"
  by (simp_all add: td_new_def td_default_def td_discover_def Let_def)

end
