(* ===== verification/Tcp_Methods.thy ===== *)
theory Tcp_Methods
  imports Tcp_Outcome
begin

text \<open>
  The methods of the TCP discovery: their errors, streaming against the blocking discovery, the
  repetitions of mDNS and SSDP, and watching.
\<close>

section \<open>Errors\<close>

lemma constructed_prefix:
  "td_new single self0 = Inr self \<Longrightarrow> 16 \<le> td_subnet_prefix self \<and> td_subnet_prefix self \<le> 32"
  by (auto simp: td_new_def Let_def split: if_splits)

lemma sweep_subnets_constructed:
  assumes "ipnet_laws (ipnet (net_env env))" "16 \<le> dp_subnet_prefix p" "dp_subnet_prefix p \<le> 32"
  obtains targets where "sweep_subnets env p = Returns (Inr targets)"
    "dp_subnets p \<noteq> [] \<Longrightarrow> targets = dp_subnets p"
    "dp_subnets p = [] \<Longrightarrow> \<exists>nets. parse_nets (ipnet (net_env env)) targets = Inr nets"
proof (cases "dp_subnets p = []")
  case True
  have "\<exists>cidrs nets. local_subnets (ipnet (net_env env)) (ifaces env) (dp_subnet_prefix p) = Returns (Inr cidrs) \<and>
      parse_nets (ipnet (net_env env)) cidrs = Inr nets"
    by (rule local_subnets_nets [OF assms]) blast
  then show thesis
    using True that by (auto simp: sweep_subnets_def)
qed (use that in \<open>simp add: sweep_subnets_def\<close>)

lemma scan_subnets_error:
  assumes "scan_subnets env cfg tx subnets st = Some (Returns (Inl e), st')"
  shows "sc_ports cfg \<noteq> [] \<and> parse_nets (ipnet env) subnets = Inl e"
  using assms by (auto simp: scan_subnets_def split: if_splits sum.splits)

lemma scan_subnets_panics:
  assumes "scan_subnets env cfg tx subnets st = Some (Panics, st')"
  shows "max_permits < sc_max_concurrent cfg"
  using assms by (auto simp: scan_subnets_def split: if_splits sum.splits)

lemma scan_subnets_hangs:
  assumes "scan_subnets env cfg tx subnets st = None"
  shows "sc_max_concurrent cfg = 0"
proof (rule ccontr)
  assume "sc_max_concurrent cfg \<noteq> 0"
  then have "scan_nets env cfg tx nets st \<noteq> None" for nets
    by (intro scan_nets_returns) simp
  then show False
    using assms by (simp add: scan_subnets_def del: not_None_eq split: if_splits sum.splits)
qed

text \<open>What the sweep contributes to the result of \<open>discover\<close>, when it is reached.\<close>

lemma td_discover_cases:
  assumes "td_ports self \<noteq> []" "sweep_subnets env (td_params self) = Returns (Inr targets)"
  obtains (found) ms where "td_discover self env = Some (Inr ms)"
  | (swept) named st1 where "td_discover self env =
      map_option (\<lambda>(r, st). block_on_result (outcome_map (map_sum id (append_new named)) r))
        (scan_subnets (net_env env) (dp_scan (td_params self)) None targets st1)"
proof (rule run_discovery_cases [of env "td_params self" None scan_start])
  fix ms st'
  assume "run_discovery env (td_params self) None scan_start = Some (Returns (Inr ms), st')"
  then show thesis
    using found assms(1) by (simp add: td_discover_def block_on_result_def)
next
  fix named st1
  assume "run_discovery env (td_params self) None scan_start =
      (case sweep_subnets env (td_params self) of
         Panics \<Rightarrow> Some (Panics, st1)
       | Returns (Inl e) \<Rightarrow> Some (Returns (Inl e), st1)
       | Returns (Inr targets) \<Rightarrow>
           map_option (\<lambda>(r, st). (outcome_map (map_sum id (append_new named)) r, st))
             (scan_subnets (net_env env) (dp_scan (td_params self)) None targets st1))"
  then show thesis
    using swept [of named st1] assms by (simp add: td_discover_def option.map_comp comp_def split_def)
qed

lemma block_on_appended:
  "block_on_result (outcome_map (map_sum id f) r) = Inl e \<longleftrightarrow>
     r = Panics \<and> e = PanicException \<or> (\<exists>e'. r = Returns (Inl e') \<and> e = error_to_pyerr e')"
  by (auto simp: block_on_result_def outcome_map_def map_sum_def split: outcome.splits sum.splits)

lemma td_discover_error:
  assumes "td_discover self env = Some (Inl e)" "td_ports self \<noteq> []"
    and "sweep_subnets env (td_params self) = Returns (Inr targets)"
  shows "(max_permits < td_max_concurrent self \<and> e = PanicException) \<or>
    (\<exists>e'. parse_nets (ipnet (net_env env)) targets = Inl e' \<and> e = error_to_pyerr e')"
proof (rule td_discover_cases [OF assms(2,3)])
  fix named st1
  assume run: "td_discover self env =
      map_option (\<lambda>(r, st). block_on_result (outcome_map (map_sum id (append_new named)) r))
        (scan_subnets (net_env env) (dp_scan (td_params self)) None targets st1)"
  from assms(1) [unfolded run] obtain r st'
    where r: "scan_subnets (net_env env) (dp_scan (td_params self)) None targets st1 = Some (r, st')"
    "block_on_result (outcome_map (map_sum id (append_new named)) r) = Inl e"
    by auto
  from r(2) consider "r = Panics" "e = PanicException" | e' where "r = Returns (Inl e')" "e = error_to_pyerr e'"
    unfolding block_on_appended by blast
  then show ?thesis
    using scan_subnets_panics [of "net_env env" "dp_scan (td_params self)" None targets st1 st']
      scan_subnets_error [of "net_env env" "dp_scan (td_params self)" None targets st1 _ st'] r(1)
    by cases (simp_all add: td_params_def)
qed (use assms(1) in simp)

lemma td_discover_hangs:
  assumes "td_discover self env = None" "sweep_subnets env (td_params self) = Returns (Inr targets)"
  shows "td_max_concurrent self = 0"
proof -
  have "td_ports self \<noteq> []"
    using assms(1) by (auto simp: td_discover_def)
  then show ?thesis
  proof (rule td_discover_cases [OF _ assms(2)])
    fix named st1
    assume run: "td_discover self env =
        map_option (\<lambda>(r, st). block_on_result (outcome_map (map_sum id (append_new named)) r))
          (scan_subnets (net_env env) (dp_scan (td_params self)) None targets st1)"
    from assms(1) [unfolded run] have "scan_subnets (net_env env) (dp_scan (td_params self)) None targets st1 = None"
      by simp
    then show ?thesis
      using scan_subnets_hangs [of "net_env env" "dp_scan (td_params self)" None targets st1]
      by (simp add: td_params_def)
  qed (use assms(1) in simp)
qed

lemma td_discover_bad_subnet:
  assumes "td_ports self \<noteq> []" "td_preferred_host self = None"
    and "s \<in> set (td_subnets self)" "net_parse (ipnet (net_env env)) s = Inl t"
  shows "\<exists>e. td_discover self env = Some (Inl e)"
proof -
  let ?p = "td_params self"
  have targets: "sweep_subnets env ?p = Returns (Inr (td_subnets self))" "sc_ports (dp_scan ?p) \<noteq> []"
    "try_preferred env ?p None scan_start = (Inr None, scan_start)"
    using assms(1,2,3) by (auto simp: sweep_subnets_def td_params_def try_preferred_def)
  have "\<not> list_all2 (\<lambda>s n. net_parse (ipnet (net_env env)) s = Inr n) (td_subnets self) nets" for nets
    using assms(3,4) by (auto simp: list_all2_conv_all_nth in_set_conv_nth)
  then obtain e' where "parse_nets (ipnet (net_env env)) (td_subnets self) = Inl e'"
    using parse_nets_Inr by (metis sum.exhaust)
  then have scan: "\<exists>r. scan_subnets (net_env env) (dp_scan ?p) None (td_subnets self) st1 = Some (r, st1) \<and>
      (r = Panics \<or> r = Returns (Inl e'))" for st1
    using targets(2) by (simp add: scan_subnets_def)
  obtain named st1 where "named_stage env ?p None scan_start = (Inr named, st1)"
    using named_stage_facts by blast
  then show ?thesis
    using assms(1) targets(1,3) scan [of st1]
    by (auto simp: td_discover_def run_discovery_def outcome_map_def block_on_result_def)
qed

text \<open>
  C22.  The errors of a blocking discovery on a constructed object are these only: no port; a
  configured subnet that does not parse, as a \<open>ValueError\<close> with the parser's text; and the panic of
  a semaphore with too many permits.  It hangs only without permits.  And a configured subnet that
  does not parse is an error whenever the sweep is reached.
\<close>

theorem tcp_discover_errors:
  assumes "td_new single self0 = Inr self" "ipnet_laws (ipnet (net_env env))"
  shows "(td_discover self env = Some (Inl e) \<longrightarrow>
      (td_ports self = [] \<and> e = no_ports_error) \<or>
      (max_permits < td_max_concurrent self \<and> e = PanicException) \<or>
      (\<exists>s \<in> set (td_subnets self). \<exists>t. net_parse (ipnet (net_env env)) s = Inl t \<and>
         e = PyValueError (''invalid subnet: '' @ t))) \<and>
    (td_discover self env = None \<longrightarrow> td_max_concurrent self = 0) \<and>
    (td_ports self = [] \<longrightarrow> td_discover self env = Some (Inl no_ports_error)) \<and>
    (td_ports self \<noteq> [] \<and> td_preferred_host self = None \<and>
       (\<exists>s \<in> set (td_subnets self). \<exists>t. net_parse (ipnet (net_env env)) s = Inl t) \<longrightarrow>
       (\<exists>e. td_discover self env = Some (Inl e)))"
proof -
  let ?api = "ipnet (net_env env)"
  obtain targets where t: "sweep_subnets env (td_params self) = Returns (Inr targets)"
    and own: "td_subnets self \<noteq> [] \<Longrightarrow> targets = td_subnets self"
    and auto: "td_subnets self = [] \<Longrightarrow> \<exists>nets. parse_nets ?api targets = Inr nets"
    by (rule sweep_subnets_constructed [OF assms(2), of "td_params self"])
      (use constructed_prefix [OF assms(1)] in \<open>auto simp: td_params_def\<close>)
  have "\<exists>s \<in> set (td_subnets self). \<exists>t. net_parse ?api s = Inl t \<and> error_to_pyerr e' = PyValueError (''invalid subnet: '' @ t)"
    if "parse_nets ?api targets = Inl e'" for e'
    using that own auto parse_nets_error [of ?api targets e'] by (cases "td_subnets self = []") fastforce+
  then have "(td_ports self = [] \<and> e = no_ports_error) \<or>
      (max_permits < td_max_concurrent self \<and> e = PanicException) \<or>
      (\<exists>s \<in> set (td_subnets self). \<exists>t. net_parse ?api s = Inl t \<and> e = PyValueError (''invalid subnet: '' @ t))"
    if "td_discover self env = Some (Inl e)"
    using that td_discover_error [OF that _ t] by (cases "td_ports self = []") (auto simp: td_discover_def)
  moreover note td_discover_hangs [OF _ t] td_discover_bad_subnet [of self _ env]
  ultimately show ?thesis
    by (auto simp: td_discover_def)
qed

end
