(* ===== verification/Tcp_Streaming.thy ===== *)
theory Tcp_Streaming
  imports Tcp_Methods
begin

text \<open>
  Streaming against the blocking discovery: the channel takes no part in what a discovery finds,
  so the two runs agree; what differs is that the streaming caller receives the matches before the
  repetitions are removed.
\<close>

section \<open>The channel plays no part\<close>

text \<open>Forgetting the channel: a streaming run forgets to the run without a channel.\<close>

definition forget :: "scan_state \<Rightarrow> scan_state" where
  "forget st = st\<lparr>out := sender_new\<rparr>"

abbreviation forget_acc :: "'a \<times> scan_state \<Rightarrow> 'a \<times> scan_state" where
  "forget_acc \<equiv> map_prod id forget"

lemma forget_simps [simp]:
  "clock (forget st) = clock st" "polls (forget st) = polls st" "batches (forget st) = batches st"
  "lookups (forget st) = lookups st" "dialled_addrs (forget st) = dialled_addrs st"
  "forget (st\<lparr>out := s\<rparr>) = forget st" "forget scan_start = scan_start"
  by (simp_all add: forget_def scan_start_def)

lemma poll_forget: "poll_token env tok (forget st) = forget_acc (poll_token env tok st)"
  by (simp add: poll_token_def forget_def)

lemma spawn_forget: "spawn_batch env tok (forget st) as = forget_acc (spawn_batch env tok st as)"
proof (induction as arbitrary: st)
  case Nil
  then show ?case by simp
next
  case (Cons a as)
  obtain c st1 where p: "poll_token env tok st = (c, st1)" by force
  show ?case
    using Cons.IH [of st1] by (simp add: poll_forget p split_def Let_def)
qed

lemma run_batch_forget: "run_batch env cfg addrs (forget st) = map_option forget_acc (run_batch env cfg addrs st)"
proof -
  obtain spawned st1 where s: "spawn_batch env (sc_token cfg) st addrs = (spawned, st1)" by force
  have "clock st1 = clock st" "batches st1 = batches st" "dialled_addrs st1 = dialled_addrs st"
    using spawn_batch_state [OF s] by simp_all
  then show ?thesis
    by (simp add: run_batch_def spawn_forget s Let_def) (simp add: forget_def)
qed

lemma forward_forget: "forward None found (forget_acc acc) = forget_acc (forward tx found acc)"
  by (cases acc) (simp add: forward_def forget_def)

lemma plain_forget:
  "run_plain_batch env cfg None addrs (forget_acc acc) = map_option forget_acc (run_plain_batch env cfg tx addrs acc)"
proof (cases "run_batch env cfg addrs (snd acc)")
  case (Some r)
  obtain found st where r: "r = (found, st)" by force
  show ?thesis
    using Some forward_forget [of found "(fst acc, st)" tx]
    by (simp add: run_plain_batch_def run_batch_forget r)
qed (simp add: run_plain_batch_def run_batch_forget)

lemma priority_forget:
  "priority_stage env cfg None addrs tag macs (forget_acc acc) =
     map_option forget_acc (priority_stage env cfg tx addrs tag macs acc)"
proof (cases "run_batch env cfg addrs (snd acc)")
  case (Some r)
  obtain found st where r: "r = (found, st)" by force
  show ?thesis
    using Some forward_forget [of "map (stamp_match tag macs) found" "(fst acc, st)" tx]
    by (simp add: priority_stage_def run_priority_batch_def run_batch_forget r)
qed (simp add: priority_stage_def run_priority_batch_def run_batch_forget)

lemma sweep_loop_forget:
  "sweep_loop env cfg None n iter (forget_acc acc) = map_option forget_acc (sweep_loop env cfg tx n iter acc)"
proof (induction "length iter" arbitrary: iter acc rule: less_induct)
  case less
  obtain c st where p: "poll_token env (sc_token cfg) (snd acc) = (c, st)" by force
  show ?case
  proof (cases "c \<or> take n iter = []")
    case True
    then show ?thesis
      by (cases c)
        (auto simp: sweep_loop.simps [of env cfg None n iter] sweep_loop.simps [of env cfg tx n iter]
          poll_forget p Let_def)
  next
    case False
    have b: "run_plain_batch env cfg None (take n iter) (fst acc, forget st) =
        map_option forget_acc (run_plain_batch env cfg tx (take n iter) (fst acc, st))"
      using plain_forget [of env cfg "take n iter" "(fst acc, st)" tx] by simp
    show ?thesis
    proof (cases "run_plain_batch env cfg tx (take n iter) (fst acc, st)")
      case None
      then show ?thesis
        using False b by (simp add: sweep_loop.simps [of env cfg None n iter]
            sweep_loop.simps [of env cfg tx n iter] poll_forget p Let_def)
    next
      case (Some acc1)
      then show ?thesis
        using False b less [of "drop n iter" acc1]
        by (simp add: sweep_loop.simps [of env cfg None n iter "forget_acc acc"]
            sweep_loop.simps [of env cfg tx n iter acc] poll_forget p Let_def)
    qed
  qed
qed

lemma main_sweep_forget:
  "main_sweep env cfg None nets pri (forget_acc acc) = map_option forget_acc (main_sweep env cfg tx nets pri acc)"
proof -
  obtain c st where p: "poll_token env (sc_token cfg) (snd acc) = (c, st)" by force
  show ?thesis
    using plain_forget [of env cfg _ "(fst acc, st)" tx]
    by (simp add: main_sweep_def sweep_loop_forget poll_forget p Let_def split: option.split)
qed

lemma scan_nets_forget:
  "scan_nets env cfg None nets (forget st) = map_option forget_acc (scan_nets env cfg tx nets st)"
proof -
  obtain arp macs heur where b: "build_priority_addrs (ipnet env) nets (sc_ports cfg) (sc_use_arp cfg)
      (arp_table env) = (arp, macs, heur)"
    by (metis prod_cases3)
  have a1: "priority_stage env cfg None arp ''arp_cache'' (Some macs) ([], forget st) =
      map_option forget_acc (priority_stage env cfg tx arp ''arp_cache'' (Some macs) ([], st))"
    using priority_forget [of env cfg arp "''arp_cache''" "Some macs" "([], st)" tx] by simp
  show ?thesis
  proof (cases "priority_stage env cfg tx arp ''arp_cache'' (Some macs) ([], st)")
    case None
    then show ?thesis by (simp add: scan_nets_def b a1)
  next
    case (Some r1)
    obtain ms1 st1 where r1: "r1 = (ms1, st1)" by force
    obtain c1 st2 where p1: "poll_token env (sc_token cfg) st1 = (c1, st2)" by force
    have a2: "priority_stage env cfg None heur ''heuristic'' None (ms1, forget st2) =
        map_option forget_acc (priority_stage env cfg tx heur ''heuristic'' None (ms1, st2))"
      using priority_forget [of env cfg heur "''heuristic''" None "(ms1, st2)" tx] by simp
    show ?thesis
    proof (cases "priority_stage env cfg tx heur ''heuristic'' None (ms1, st2)")
      case None
      then show ?thesis by (simp add: scan_nets_def b a1 Some r1 poll_forget p1 a2)
    next
      case (Some r2)
      obtain ms2 st3 where r2: "r2 = (ms2, st3)" by force
      obtain c2 st4 where p2: "poll_token env (sc_token cfg) st3 = (c2, st4)" by force
      have a3: "main_sweep env cfg None nets (set arp \<union> set heur) (ms2, forget st4) =
          map_option forget_acc (main_sweep env cfg tx nets (set arp \<union> set heur) (ms2, st4))"
        using main_sweep_forget [of env cfg nets "set arp \<union> set heur" "(ms2, st4)" tx] by simp
      show ?thesis
        by (simp add: scan_nets_def b a1 \<open>priority_stage env cfg tx arp _ _ _ = _\<close> r1 poll_forget p1
            a2 Some r2 p2 a3)
    qed
  qed
qed

lemma scan_subnets_forget:
  "scan_subnets env cfg None subnets (forget st) = map_option forget_acc (scan_subnets env cfg tx subnets st)"
  by (simp add: scan_subnets_def scan_nets_forget [of env cfg _ st tx] option.map_comp comp_def split_def
      split: sum.split)

lemma probe_host_forget: "probe_host env cfg name (forget st) = forget_acc (probe_host env cfg name st)"
  by (simp add: probe_host_def resolve_def Let_def forget_def)

lemma send_found_forget: "forget (send_found tx ms st) = forget st" "send_found None ms st = st"
  by (simp_all add: send_found_def forget_def)

lemma preferred_attempts_forget:
  "preferred_attempts env p None name attempt left (forget st) =
     forget_acc (preferred_attempts env p tx name attempt left st)"
proof (induction left arbitrary: attempt st)
  case 0
  then show ?case by simp
next
  case (Suc left)
  obtain c st1 where p: "poll_token (net_env env) (sc_token (dp_scan p)) st = (c, st1)" by force
  obtain ms st2 where h: "probe_host env (dp_scan p) name st1 = (Inr ms, st2)"
    using probe_host_ok [of env "dp_scan p" name st1] by (metis prod.collapse)
  let ?slept = "\<lambda>st. if attempt < dp_preferred_retry p
    then st\<lparr>slept_ms := slept_ms st + dp_preferred_retry_delay p\<rparr> else st"
  have "?slept (forget st2) = forget (?slept st2)"
    by (simp add: forget_def)
  then show ?case
    using Suc.IH [of "Suc attempt" "?slept st2"]
    by (simp add: poll_forget p probe_host_forget h send_found_forget Let_def)
qed

lemma try_preferred_forget: "try_preferred env p None (forget st) = forget_acc (try_preferred env p tx st)"
  by (simp add: try_preferred_def preferred_attempts_forget del: preferred_attempts.simps split: option.split)

lemma probe_named_forget:
  "probe_named_hosts env p None source ips (forget st) = forget_acc (probe_named_hosts env p tx source ips st)"
proof (induction ips arbitrary: st)
  case Nil
  then show ?case by simp
next
  case (Cons ip ips)
  obtain found st1 where h: "probe_host env (dp_scan p) (show_ipv4 ip) st = (Inr found, st1)"
    using probe_host_ok [of env "dp_scan p" "show_ipv4 ip" st] by (metis prod.collapse)
  let ?found = "map (info_insert ''source'' source) found"
  obtain ms st2 new where r: "probe_named_hosts env p tx source ips (send_found tx ?found st1) = (Inr ms, st2)"
    using probe_named_facts by blast
  have "probe_named_hosts env p None source ips (forget st1) = (Inr ms, forget st2)"
    using Cons.IH [of "send_found tx ?found st1"] by (simp add: r send_found_forget)
  then show ?case
    by (simp add: probe_host_forget h r send_found_forget Let_def)
qed

lemma named_stage_forget: "named_stage env p None (forget st) = forget_acc (named_stage env p tx st)"
proof -
  define ips1 where "ips1 = active_mdns_hosts (windows_os env) (mdns env) (dp_mdns_timeout p)"
  define ips2 where "ips2 = active_ssdp_hosts (ssdp env) (dp_ssdp_timeout p)"
  have step: "(if b then probe_named_hosts env p None source ips (forget st) else (Inr [], forget st)) =
      forget_acc (if b then probe_named_hosts env p tx source ips st else (Inr [], st))" for b source ips st
    by (simp add: probe_named_forget [of env p source ips st tx])
  have ok: "\<exists>ms st'. (if b then probe_named_hosts env p tx source ips st else (Inr [], st)) = (Inr ms, st')"
    for b source ips st
    using probe_named_facts [of env p tx source ips st] by (cases b) auto
  obtain ms1 st1 where 1: "(if dp_use_mdns p then probe_named_hosts env p tx ''mdns'' ips1 st
      else (Inr [], st)) = (Inr ms1, st1)"
    using ok by blast
  obtain ms2 st2 where 2: "(if dp_use_ssdp p then probe_named_hosts env p tx ''ssdp'' ips2 st1
      else (Inr [], st1)) = (Inr ms2, st2)"
    using ok by blast
  show ?thesis
    unfolding named_stage_def ips1_def [symmetric] ips2_def [symmetric] step 1
    by (simp add: step 2 del: if_split)
qed

lemma run_discovery_forget:
  "run_discovery env p None (forget st) = map_option forget_acc (run_discovery env p tx st)"
proof -
  obtain r st0 where 0: "try_preferred env p tx st = (Inr r, st0)"
    using try_preferred_ok by blast
  obtain named st1 where 1: "named_stage env p tx st0 = (Inr named, st1)"
    using named_stage_facts by blast
  have p0: "try_preferred env p None (forget st) = (Inr r, forget st0)"
    using try_preferred_forget [of env p st tx] 0 by simp
  have n1: "named_stage env p None (forget st0) = (Inr named, forget st1)"
    using named_stage_forget [of env p st0 tx] 1 by simp
  have comm: "map_option (\<lambda>(r, st). (f r, st)) (map_option forget_acc x) =
      map_option forget_acc (map_option (\<lambda>(r, st). (f r, st)) x)" for f x
    by (cases x) auto
  show ?thesis
    by (simp add: run_discovery_def 0 p0 1 n1 scan_subnets_forget [of _ _ _ st1 tx] comm
        split: option.split outcome.split sum.split)
qed

section \<open>Agreement\<close>

text \<open>What a run sends, whatever the channel does with it.\<close>

lemma preferred_sends:
  assumes "try_preferred env p tx st = (Inr r, st')" "sc_ports (dp_scan p) \<noteq> []"
  shows "out st' = send_all tx (case r of None \<Rightarrow> [] | Some ms \<Rightarrow> ms) (out st)"
proof (cases "dp_preferred p")
  case None
  then show ?thesis using assms(1) by (auto simp: try_preferred_def send_all_def)
next
  case (Some name)
  then have "preferred_attempts env p tx name 0 (Suc (dp_preferred_retry p)) st = (Inr r, st')"
    using assms(1) by (simp add: try_preferred_def del: preferred_attempts.simps)
  from preferred_attempts_facts [OF this assms(2)] show ?thesis
    by (auto simp: attempted_def send_all_def [of tx "[]"] split: option.splits if_splits)
qed

lemma scan_sends:
  assumes "scan_subnets env cfg tx subnets st = Some (r, st')"
  shows "out st' = send_all tx (case r of Returns (Inr ms) \<Rightarrow> ms | _ \<Rightarrow> []) (out st)"
proof (cases "\<exists>ms. r = Returns (Inr ms)")
  case True
  then show ?thesis
    using scan_streams assms by auto
next
  case False
  then have "st' = st"
    using assms by (auto simp: scan_subnets_def split: if_splits sum.splits)
  then show ?thesis
    using False by (auto simp: send_all_def split: outcome.splits sum.splits)
qed

lemma forget_start [simp]: "forget scan_start = scan_start" "out scan_start = sender_new"
  by (simp_all add: forget_def scan_start_def)

lemma same_preferred:
  assumes "try_preferred env p None scan_start = (Inr r, st0)" "sc_ports (dp_scan p) \<noteq> []"
  obtains t0 where "try_preferred env p tx scan_start = (Inr r, t0)" "forget t0 = st0"
    "out t0 = send_all tx (case r of None \<Rightarrow> [] | Some ms \<Rightarrow> ms) sender_new"
proof -
  obtain r' t0 where t0: "try_preferred env p tx scan_start = (Inr r', t0)"
    using try_preferred_ok by blast
  have "(Inr r, st0) = forget_acc (Inr r', t0)"
    using try_preferred_forget [of env p scan_start tx] t0 assms(1) by simp
  then show thesis
    using that [of t0] t0 preferred_sends [OF t0 assms(2)] by simp
qed

lemma same_named:
  assumes "named_stage env p None (forget t0) = (Inr named, st1)"
  obtains t1 where "named_stage env p tx t0 = (Inr named, t1)" "forget t1 = st1"
    "out t1 = send_all tx named (out t0)"
proof -
  obtain named' t1 where t1: "named_stage env p tx t0 = (Inr named', t1)" "out t1 = send_all tx named' (out t0)"
    using named_stage_facts [of env p tx t0] by blast
  have "(Inr named, st1) = forget_acc (Inr named', t1)"
    using named_stage_forget [of env p t0 tx] t1(1) assms by simp
  then show thesis
    using that [of t1] t1 by simp
qed

text \<open>What the sweep of a run sends, read off the run without a channel.\<close>

definition swept_by :: "'net disc_env \<Rightarrow> discovery_params \<Rightarrow> scan_state \<Rightarrow> device_match list" where
  "swept_by env p st1 =
     (case sweep_subnets env p of
        Returns (Inr targets) \<Rightarrow>
          (case scan_subnets (net_env env) (dp_scan p) None targets st1 of
             Some (Returns (Inr ms), _) \<Rightarrow> ms
           | _ \<Rightarrow> [])
      | _ \<Rightarrow> [])"

lemma swept_sends:
  assumes "run_discovery env p tx st = Some (x, st')" "try_preferred env p tx st = (Inr None, t0)"
    and "named_stage env p tx t0 = (Inr named, t1)"
  shows "out st' = send_all tx (swept_by env p (forget t1)) (out t1)"
proof (cases "\<exists>targets. sweep_subnets env p = Returns (Inr targets)")
  case True
  then obtain targets y where y: "sweep_subnets env p = Returns (Inr targets)"
    "scan_subnets (net_env env) (dp_scan p) tx targets t1 = Some (y, st')"
    using assms by (auto simp: run_discovery_def)
  then have "scan_subnets (net_env env) (dp_scan p) None targets (forget t1) = Some (y, forget st')"
    using scan_subnets_forget [of "net_env env" "dp_scan p" targets t1 tx] by simp
  then show ?thesis
    using scan_sends [OF y(2)] y(1) by (simp add: swept_by_def)
next
  case False
  then have "st' = t1"
    using assms by (auto simp: run_discovery_def split: outcome.splits sum.splits)
  then show ?thesis
    using False by (auto simp: swept_by_def send_all_def split: outcome.split sum.split)
qed

lemma run_discovery_sent:
  assumes "sc_ports (dp_scan p) \<noteq> []"
  obtains sent where
    "\<And>tx x st'. run_discovery env p tx scan_start = Some (x, st') \<Longrightarrow> out st' = send_all tx sent sender_new"
    "\<And>ms st'. run_discovery env p None scan_start = Some (Returns (Inr ms), st') \<Longrightarrow>
       subseq ms sent \<and> addresses sent = addresses ms"
proof -
  obtain r st0 where 0: "try_preferred env p None scan_start = (Inr r, st0)"
    using try_preferred_ok by blast
  show thesis
  proof (cases r)
    case (Some ms)
    have "out st' = send_all tx ms sender_new" if "run_discovery env p tx scan_start = Some (x, st')" for tx x st'
      using that Some by (auto simp: run_discovery_def intro: same_preferred [OF 0 assms, of tx])
    then show thesis
      using that [of ms] 0 Some by (auto simp: run_discovery_def)
  next
    case None
    obtain named st1 where 1: "named_stage env p None st0 = (Inr named, st1)"
      using named_stage_facts by blast
    have "out st' = send_all tx (named @ swept_by env p st1) sender_new"
      if run: "run_discovery env p tx scan_start = Some (x, st')" for tx x st'
    proof -
      obtain t0 where t0: "try_preferred env p tx scan_start = (Inr None, t0)" "forget t0 = st0"
        "out t0 = sender_new"
        using None by (auto simp: send_all_def intro: same_preferred [OF 0 assms, of tx])
      obtain t1 where t1: "named_stage env p tx t0 = (Inr named, t1)" "forget t1 = st1"
        "out t1 = send_all tx named (out t0)"
        using same_named [of env p t0 named st1 tx] 1 t0(2) by auto
      show ?thesis
        using swept_sends [OF run t0(1) t1(1)] t1(2,3) t0(3) by (simp add: send_all_append)
    qed
    moreover have "subseq ms (named @ swept_by env p st1) \<and> addresses (named @ swept_by env p st1) = addresses ms"
      if run: "run_discovery env p None scan_start = Some (Returns (Inr ms), st')" for ms st'
    proof -
      have "try_preferred env p None scan_start = (Inr None, st0)"
        using 0 None by simp
      then obtain named' st1' targets swept where d: "named_stage env p None st0 = (Inr named', st1')"
        "sweep_subnets env p = Returns (Inr targets)"
        "scan_subnets (net_env env) (dp_scan p) None targets st1' = Some (Returns (Inr swept), st')"
        "ms = append_new named' swept"
        by (rule run_discovery_swept [OF run])
      then have "named' = named" "swept_by env p st1 = swept"
        using 1 by (auto simp: swept_by_def)
      then show ?thesis
        unfolding d(4) by (simp add: append_new_subseq append_new_addresses)
    qed
    ultimately show thesis
      using that by blast
  qed
qed

text \<open>
  C18.  When every send finds room in the channel and no callback raises, streaming finds what
  \<open>discover\<close> finds: the same addresses, the matches \<open>discover\<close> returns in the same order, each
  passed to the callback and returned; but possibly further matches of these addresses between
  them, because the repetitions are removed only at the end of the run.  An error that is no panic is
  the same error.  Without room a match is dropped, since the code does not wait for it.
\<close>

theorem tcp_streaming_agrees:
  assumes "\<forall>n. room n" "\<forall>n. raises n = None" "td_discover self env = Some r"
  shows "case r of
      Inr ms \<Rightarrow> \<exists>sent. td_discover_streaming self env room raises = Some (sent, Inr sent) \<and>
        subseq ms sent \<and> addresses sent = addresses ms
    | Inl e \<Rightarrow> e \<noteq> PanicException \<longrightarrow>
        (\<exists>sent. td_discover_streaming self env room raises = Some (sent, Inl e))"
proof (cases "td_ports self = []")
  case True
  then show ?thesis
    using assms(3) by (auto simp: td_discover_def td_discover_streaming_def)
next
  case False
  let ?p = "td_params self"
  obtain x st' where blocking: "run_discovery env ?p None scan_start = Some (x, st')" "r = block_on_result x"
    using assms(3) False by (auto simp: td_discover_def)
  have "map_option forget_acc (run_discovery env ?p (Some room) scan_start) = Some (x, st')"
    using run_discovery_forget [of env ?p scan_start "Some room"] blocking(1) by simp
  then obtain st'' where streaming: "run_discovery env ?p (Some room) scan_start = Some (x, st'')"
    by auto
  have "sc_ports (dp_scan ?p) \<noteq> []"
    using False by (simp add: td_params_def)
  then obtain sent where sent: "out st'' = send_all (Some room) sent sender_new"
    "\<And>ms. x = Returns (Inr ms) \<Longrightarrow> subseq ms sent \<and> addresses sent = addresses ms"
    using run_discovery_sent [of ?p env] streaming blocking(1) by metis
  have "delivered (out st'') = sent"
    using assms(1) sent(1) send_all_room [of room sent sender_new] by (simp add: sender_new_def)
  moreover have "stream_calls raises [] ms = (ms, None)" for ms
    using assms(2) by (simp add: stream_calls_eq find_None_iff split: option.split)
  ultimately have "td_discover_streaming self env room raises = Some (sent, (case x of
      Panics \<Rightarrow> Inl (PyRuntimeError ''discovery thread panicked'')
    | Returns (Inl e) \<Rightarrow> Inl (error_to_pyerr e)
    | Returns (Inr _) \<Rightarrow> Inr sent))"
    using False streaming
    by (simp add: td_discover_streaming_def receive_stream_def split: outcome.split sum.split)
  then show ?thesis
    using sent(2) blocking(2)
    by (auto simp: block_on_result_def split: outcome.splits sum.splits)
qed

end
