(* ===== verification/Tcp_Watch.thy ===== *)
theory Tcp_Watch
  imports Tcp_Streaming
begin

text \<open>
  Watching TCP devices: the callbacks do not contradict each other when only the sweep is used,
  and where mDNS and SSDP are both used one device may be reported twice in one pass.  The
  examples run the whole discovery on a small network.
\<close>

section \<open>Repetitions\<close>

text \<open>Looking up the text of an IPv4 address and a port yields that address.\<close>

definition literal_lookup :: "'net disc_env \<Rightarrow> bool" where
  "literal_lookup env =
     (\<forall>n ip p. lookup_host env n (show_ipv4 ip @ '':'' @ show_dec (unat p)) = Some [SockAddr (IpV4 ip) p])"

lemma probe_named_answers:
  assumes "literal_lookup env" "sc_ports (dp_scan p) = q # qs" "ip \<in> set ips"
    and "\<forall>n. \<exists>m. probe_found (net_env env) (dp_scan p) n (SockAddr (IpV4 ip) q) m"
    and "probe_named_hosts env p tx source ips st = (Inr ms, st')"
  shows "show_sock (SockAddr (IpV4 ip) q) \<in> addresses ms"
  using assms(3,5)
proof (induction ips arbitrary: st ms st')
  case Nil
  then show ?case by simp
next
  case (Cons i ips)
  obtain found st1 where h: "probe_host env (dp_scan p) (show_ipv4 i) st = (Inr found, st1)"
    using probe_host_ok [of env "dp_scan p" "show_ipv4 i" st] by (metis prod.collapse)
  let ?found = "map (info_insert ''source'' source) found"
  obtain rest st2 where r: "probe_named_hosts env p tx source ips (send_found tx ?found st1) = (Inr rest, st2)"
    using probe_named_facts by blast
  have ms: "ms = ?found @ rest"
    using Cons.prems(2) h r by (simp add: Let_def)
  show ?case
  proof (cases "i = ip")
    case False
    then show ?thesis
      using Cons.IH [OF _ r] Cons.prems(1) by (auto simp: ms addresses_def)
  next
    case True
    obtain new where new: "set found = {m. \<exists>j < length new. host_found env (dp_scan p) (show_ipv4 i) (clock st + j) (new ! j) m}"
      "new = host_addrs env (sc_ports (dp_scan p)) (lookups st) (show_ipv4 i)"
      by (rule probe_host_facts [OF h])
    have "resolve env (show_ipv4 i) (sc_ports (dp_scan p)) st = [SockAddr (IpV4 ip) q]"
      using assms(1,2) True by (simp add: resolve_def literal_lookup_def)
    then have "SockAddr (IpV4 ip) q \<in> set new"
      unfolding new(2) host_addrs_set using assms(2) by force
    then obtain j where j: "j < length new" "new ! j = SockAddr (IpV4 ip) q"
      by (auto simp: in_set_conv_nth)
    obtain m where m: "host_found env (dp_scan p) (show_ipv4 i) (clock st + j) (new ! j) m"
      using assms(4) host_found_probe(2) unfolding j(2) by blast
    then have "m \<in> set found" "address m = show_sock (SockAddr (IpV4 ip) q)"
      using j host_found_match [OF m] by (auto simp: new(1))
    then show ?thesis
      unfolding ms addresses_def by force
  qed
qed

text \<open>
  With mDNS and SSDP both on, a host that answers both queries, and whose first port always
  answers the probe, is reported twice by one discovery: only the sweep is checked against what
  was found before.
\<close>

theorem mdns_ssdp_repeats:
  assumes "literal_lookup env" "dp_preferred p = None" "dp_use_mdns p" "dp_use_ssdp p"
    and "sc_ports (dp_scan p) = q # qs"
    and "ip \<in> set (active_mdns_hosts (windows_os env) (mdns env) (dp_mdns_timeout p))"
    and "ip \<in> set (active_ssdp_hosts (ssdp env) (dp_ssdp_timeout p))"
    and "\<forall>n. \<exists>m. probe_found (net_env env) (dp_scan p) n (SockAddr (IpV4 ip) q) m"
    and "run_discovery env p tx st = Some (Returns (Inr ms), st')"
  shows "\<not> distinct_addrs ms"
proof -
  let ?m = "active_mdns_hosts (windows_os env) (mdns env) (dp_mdns_timeout p)"
  let ?s = "active_ssdp_hosts (ssdp env) (dp_ssdp_timeout p)"
  obtain ms1 st1 where 1: "probe_named_hosts env p tx ''mdns'' ?m st = (Inr ms1, st1)"
    using probe_named_facts by blast
  obtain ms2 st2 where 2: "probe_named_hosts env p tx ''ssdp'' ?s st1 = (Inr ms2, st2)"
    using probe_named_facts by blast
  have named: "named_stage env p tx st = (Inr (ms1 @ ms2), st2)"
    using assms(3,4) by (simp add: named_stage_def 1 2)
  obtain targets res where "scan_subnets (net_env env) (dp_scan p) tx targets st2 = Some (Returns res, st')"
    "map_sum id (append_new (ms1 @ ms2)) res = Inr ms"
    using assms(2,9) named
    by (auto simp: run_discovery_def try_preferred_def outcome_map_Returns split: outcome.splits sum.splits)
  then obtain swept where "ms = append_new (ms1 @ ms2) swept"
    by (cases res) auto
  moreover have "show_sock (SockAddr (IpV4 ip) q) \<in> addresses ms1"
    using assms(1,5,6,8) 1 by (rule probe_named_answers)
  moreover have "show_sock (SockAddr (IpV4 ip) q) \<in> addresses ms2"
    using assms(1,5,7,8) 2 by (rule probe_named_answers)
  ultimately show ?thesis
    by (auto simp: distinct_addrs_def append_new_def addresses_def)
qed

section \<open>Watching\<close>

lemma block_on_result_Inr: "block_on_result r = Inr ms \<longleftrightarrow> r = Returns (Inr ms)"
  by (auto simp: block_on_result_def split: outcome.split sum.split)

lemma td_discover_run:
  assumes "td_discover self env = Some (Inr ms)"
  shows "\<exists>st'. run_discovery env (td_params self) None scan_start = Some (Returns (Inr ms), st')"
  using assms by (auto simp: td_discover_def block_on_result_Inr split: if_splits)

lemma td_discover_distinct:
  assumes "td_discover self env = Some (Inr ms)"
    and "try_preferred env (td_params self) None scan_start = (Inr None, st0)"
    and "\<not> td_use_mdns self" "\<not> td_use_ssdp self"
  shows "distinct_addrs ms"
proof -
  let ?p = "td_params self"
  have "\<not> dp_use_mdns ?p" "\<not> dp_use_ssdp ?p"
    using assms(3,4) by (simp_all add: td_params_def)
  then have "run_discovery env ?p None scan_start =
      (case sweep_subnets env ?p of
         Panics \<Rightarrow> Some (Panics, st0)
       | Returns (Inl e) \<Rightarrow> Some (Returns (Inl e), st0)
       | Returns (Inr targets) \<Rightarrow>
           map_option (\<lambda>(r, st). (outcome_map (map_sum id (append_new [])) r, st))
             (scan_subnets (net_env env) (dp_scan ?p) None targets st0))"
    using assms(2) by (simp add: run_discovery_def named_stage_def)
  moreover obtain st' where "run_discovery env ?p None scan_start = Some (Returns (Inr ms), st')"
    using td_discover_run [OF assms(1)] by blast
  ultimately obtain targets res where "scan_subnets (net_env env) (dp_scan ?p) None targets st0 =
      Some (Returns res, st')" "map_sum id (append_new []) res = Inr ms"
    by (auto simp: outcome_map_Returns eq_commute [of "Some (Returns (Inr ms), st')"]
        split: outcome.splits sum.splits)
  then have "\<exists>swept. ms = append_new [] swept"
    by (cases res) auto
  then show ?thesis
    by (auto simp: append_new_def distinct_addrs_def keep_first_distinct)
qed

lemma td_polls_ticks:
  "q \<in> set (td_polls self turns) \<Longrightarrow> tick q = Inr ms \<Longrightarrow> ms = [] \<or> (\<exists>(stop, env, naps) \<in> set turns. td_discover self env = Some (Inr ms))"
proof (induction self turns rule: td_polls.induct)
  case (1 self)
  then show ?case by simp
next
  case (2 self stop env naps turns)
  show ?case
  proof (cases "stop \<or> td_discover self env = None")
    case True
    then show ?thesis using "2.prems" by (auto split: if_splits option.splits)
  next
    case False
    then obtain r where r: "td_discover self env = Some r" and "\<not> stop"
      by auto
    then have "tick q = r \<or> q \<in> set (td_polls self turns)"
      using "2.prems"(1) by auto
    then show ?thesis
      using "2.IH" [OF \<open>\<not> stop\<close> r] "2.prems"(2) r by auto
  qed
qed

text \<open>
  Watching TCP devices needs a token.  With one, and where only the sweep is used, the
  callbacks of the watcher never contradict each other, whatever the network and the cancellation
  do, and whether or not a callback raises; and as long as none raises, who applies them knows the
  addresses of the last pass.
\<close>

theorem tcp_watch_consistent:
  assumes "td_preferred_host self = None" "\<not> td_use_mdns self" "\<not> td_use_ssdp self"
  shows "if td_cancellation_token self = None
    then \<exists>msg. td_watch self raises turns = ([], Failed (PyValueError msg))
    else legal_log fresh_addr know_addr {} (fst (td_watch self raises turns)) \<and>
      (\<not> callback_raised (snd (td_watch self raises turns)) \<longrightarrow>
         fold know_addr (fst (td_watch self raises turns)) {} =
           addresses (last ([] # polled (td_polls self turns))))"
proof (cases "td_cancellation_token self")
  case None
  then show ?thesis by (simp add: td_watch_def)
next
  case (Some t)
  have "distinct_addrs ms" if "q \<in> set (td_polls self turns)" "tick q = Inr ms" for q ms
    using td_polls_ticks [OF that] td_discover_distinct [OF _ _ assms(2,3)] assms(1)
    by (auto simp: distinct_addrs_def try_preferred_def td_params_def)
  then have "\<forall>q \<in> set (td_polls self turns). \<forall>ms. tick q = Inr ms \<longrightarrow> distinct_addrs ms"
    by blast
  then have "legal_log fresh_addr know_addr {} (fst (poll_watch raises [] [] (td_polls self turns)))"
    by (rule poll_watch_legal)
  moreover have "fold know_addr (fst (poll_watch raises [] [] (td_polls self turns))) {} =
      addresses (last ([] # polled (td_polls self turns)))"
    if "\<not> callback_raised (snd (poll_watch raises [] [] (td_polls self turns)))"
    using that poll_watch_log [of raises "[]" "[]" "td_polls self turns"]
      run_poll_view [of "[]" "polled (td_polls self turns)"]
    by (simp add: addresses_def)
  ultimately show ?thesis
    using Some by (simp add: td_watch_def)
qed

section \<open>Examples\<close>

text \<open>
  The device of the scan's examples at 10.0.0.7, which answers mDNS and SSDP queries as well; names
  resolve only when they are addresses; one interface, in 10.0.0.0/24.
\<close>

definition sample_mdns :: mdns_socket where
  "sample_mdns =
     \<lparr>md_new_ok = True, md_reuse_address_ok = True, md_reuse_port_ok = True, md_nonblocking_ok = True,
      md_bind_ok = True, md_from_std_ok = True, md_join_ok = True,
      md_events = [(20, UdpFrom (SockAddr (IpV4 (Ipv4 10 0 0 7)) 5353))], md_order = []\<rparr>"

definition sample_ssdp :: ssdp_socket where
  "sample_ssdp =
     \<lparr>ss_bind_ok = True, ss_ttl_ok = True, ss_send_ok = True,
      ss_events = [(30, UdpFrom (SockAddr (IpV4 (Ipv4 10 0 0 7)) 1900))], ss_order = []\<rparr>"

definition sample_disc :: "cidr disc_env" where
  "sample_disc =
     \<lparr>net_env = sample_env False,
      lookup_host = (\<lambda>n s. map_option (\<lambda>(ip, p). [SockAddr (IpV4 ip) p]) (parse_sock_v4 s)),
      windows_os = False, mdns = sample_mdns, ssdp = sample_ssdp,
      ifaces = Some [\<lparr>if_loopback = False, if_v4 = Some (Ipv4 10 0 0 20, Ipv4 255 255 255 0)\<rparr>]\<rparr>"

definition sample_td :: "string list \<Rightarrow> string option \<Rightarrow> bool \<Rightarrow> tcp_discovery" where
  "sample_td subnets preferred multicast =
     \<lparr>td_ports = [502], td_subnets = subnets, td_probe_command = Some [63],
      td_connect_timeout_ms = 50, td_io_timeout_ms = 500, td_max_concurrent = 4,
      td_preferred_host = preferred, td_preferred_retry = 2, td_preferred_retry_delay_ms = 500,
      td_use_arp_cache = True, td_use_mdns = multicast, td_mdns_timeout_ms = 1000,
      td_use_ssdp = multicast, td_ssdp_timeout_ms = 1000, td_response_filter = None,
      td_cancellation_token = None, td_subnet_prefix = 24, td_tcp_linger_seconds = None\<rparr>"

abbreviation sample_params :: "string list \<Rightarrow> string option \<Rightarrow> bool \<Rightarrow> discovery_params" where
  "sample_params subnets preferred multicast \<equiv> td_params (sample_td subnets preferred multicast)"

lemma sample_disc_fields [simp]:
  "net_env sample_disc = sample_env False" "windows_os sample_disc = False"
  "mdns sample_disc = sample_mdns" "ssdp sample_disc = sample_ssdp"
  by (simp_all add: sample_disc_def)

lemma sample_params_fields [simp]:
  "dp_scan (sample_params s h b) = sample_cfg None" "dp_subnets (sample_params s h b) = s"
  "dp_preferred (sample_params s h b) = h" "dp_use_mdns (sample_params s h b) = b"
  "dp_use_ssdp (sample_params s h b) = b" "dp_mdns_timeout (sample_params s h b) = 1000"
  "dp_ssdp_timeout (sample_params s h b) = 1000" "dp_preferred_retry (sample_params s h b) = 2"
  by (simp_all add: td_params_def sample_td_def sample_cfg_def sample_tcp_def)

lemma sample_td_fields [simp]:
  "td_ports (sample_td s h b) = [502]" "td_subnets (sample_td s h b) = s"
  "td_max_concurrent (sample_td s h b) = 4" "td_subnet_prefix (sample_td s h b) = 24"
  "td_preferred_host (sample_td s h b) = h" "td_use_mdns (sample_td s h b) = b"
  "td_use_ssdp (sample_td s h b) = b" "td_cancellation_token (sample_td s h b) = None"
  by (simp_all add: sample_td_def)

lemma sample_new: "td_new None (sample_td s h b) = Inr (sample_td s h b)"
  by (simp add: td_new_def Let_def sample_td_def)

lemma sample_literal: "literal_lookup sample_disc"
  using parse_show_sock_v4 by (simp add: literal_lookup_def sample_disc_def)

lemma sample_runs:
  obtains ms st' where "run_discovery sample_disc (sample_params [''10.0.0.4/30''] None b) tx scan_start =
    Some (Returns (Inr ms), st')"
  by (rule run_discovery_total [where env = sample_disc and p = "sample_params [''10.0.0.4/30''] None b"
        and tx = tx and st = scan_start and targets = "[''10.0.0.4/30'']" and nets = "[sample_net]"])
    (simp_all add: sweep_subnets_def sample_parse)

lemma sample_discover:
  obtains ms where "td_discover (sample_td [''10.0.0.4/30''] None b) sample_disc = Some (Inr ms)"
proof -
  obtain ms st' where "run_discovery sample_disc (sample_params [''10.0.0.4/30''] None b) None scan_start =
      Some (Returns (Inr ms), st')"
    by (rule sample_runs)
  then show thesis
    using that by (simp add: td_discover_def block_on_result_Inr)
qed

lemma sample_named:
  "active_mdns_hosts False sample_mdns 1000 = [Ipv4 10 0 0 7]"
  "active_ssdp_hosts sample_ssdp 1000 = [Ipv4 10 0 0 7]"
  by (simp_all add: active_mdns_hosts_def try_active_mdns_hosts_def build_mdns_socket_def sample_mdns_def
      active_ssdp_hosts_def try_active_ssdp_hosts_def sample_ssdp_def)

text \<open>The same network with the device switched off.\<close>

definition dead_disc :: "cidr disc_env" where
  "dead_disc = sample_disc\<lparr>net_env := (sample_env False)\<lparr>dial := \<lambda>n a. (sample_conn [])\<lparr>connect_ok := False\<rparr>\<rparr>\<rparr>"

lemma dead_silent: "\<not> host_found dead_disc cfg name n a m"
  by (simp add: host_found_def dead_disc_def probe_addr_def connect_with_opts_def sample_conn_def)

text \<open>One in which the device is known by name.\<close>

definition plc_disc :: "cidr disc_env" where
  "plc_disc = sample_disc\<lparr>lookup_host := \<lambda>n s. Some [SockAddr (IpV4 (Ipv4 10 0 0 7)) 0]\<rparr>"

lemma plc_attempt: "attempt_found plc_disc (sample_params s (Some h) b) ''plc'' scan_start 0
    (build_match sample_addr [79, 75] (Some ''plc''))"
  by (simp add: attempt_found_def attempt_addrs_def host_addrs_def plc_disc_def tried_def host_found_def
      sample_disc_def sample_addr_def [symmetric] sample_tcp_def sample_conn_def probe_addr_def
      connect_with_opts_def probe_stream_def filter_accepts_def)

theorem tcp_preferred_first_witness:
  "(\<exists>st'. try_preferred dead_disc (sample_params [] (Some ''plc'') False) None scan_start = (Inr None, st') \<and>
     lookups st' = 3) \<and>
   (\<exists>ms st'. run_discovery plc_disc (sample_params [] (Some ''plc'') False) None scan_start =
      Some (Returns (Inr ms), st') \<and> build_match sample_addr [79, 75] (Some ''plc'') \<in> set ms)"
proof -
  let ?p = "sample_params [] (Some ''plc'') False"
  have calm: "\<not> attempt_cancelled env ?p scan_start k" for env :: "cidr disc_env" and k
    by (simp add: attempt_cancelled_def)
  have dead: "\<not> attempt_found dead_disc ?p ''plc'' scan_start k m" for k m
    by (simp add: attempt_found_def dead_silent)
  have named: "dp_preferred ?p = Some ''plc''" "sc_ports (dp_scan ?p) \<noteq> []"
    by simp_all
  have start: "lookups scan_start = 0"
    by (simp add: scan_start_def)
  show ?thesis
  proof
    have "\<exists>r st' k. try_preferred dead_disc ?p None scan_start = (Inr r, st') \<and>
      (case r of None \<Rightarrow> k = dp_preferred_retry ?p + 1 \<and> lookups st' = lookups scan_start + k
       | Some ms \<Rightarrow> set ms \<noteq> {} \<and> set ms = {m. attempt_found dead_disc ?p ''plc'' scan_start k m})"
      using tcp_preferred_first [OF named, of dead_disc None scan_start]
      by (elim ex_forward) (auto simp: calm split: option.splits)
    then show "\<exists>st'. try_preferred dead_disc ?p None scan_start = (Inr None, st') \<and> lookups st' = 3"
      by (elim exE) (auto simp: dead start Collect_empty_eq [THEN iffD2] simp del: set_empty split: option.splits)
    have "\<exists>r st' k. (\<forall>j < k. \<forall>m. \<not> attempt_found plc_disc ?p ''plc'' scan_start j m) \<and>
      (case r of None \<Rightarrow> k = dp_preferred_retry ?p + 1
       | Some ms \<Rightarrow> run_discovery plc_disc ?p None scan_start = Some (Returns (Inr ms), st') \<and>
           set ms = {m. attempt_found plc_disc ?p ''plc'' scan_start k m})"
      using tcp_preferred_first [OF named, of plc_disc None scan_start]
      by (elim ex_forward) (auto simp: calm split: option.splits)
    then obtain r st' k where k: "\<forall>j < k. \<forall>m. \<not> attempt_found plc_disc ?p ''plc'' scan_start j m"
      "case r of None \<Rightarrow> k = dp_preferred_retry ?p + 1
       | Some ms \<Rightarrow> run_discovery plc_disc ?p None scan_start = Some (Returns (Inr ms), st') \<and>
           set ms = {m. attempt_found plc_disc ?p ''plc'' scan_start k m}"
      by blast
    have "\<not> 0 < k"
      using k(1) plc_attempt by blast
    then show "\<exists>ms st'. run_discovery plc_disc ?p None scan_start = Some (Returns (Inr ms), st') \<and>
        build_match sample_addr [79, 75] (Some ''plc'') \<in> set ms"
      using k(2) plc_attempt by (auto split: option.splits)
  qed
qed

lemma sample_announced:
  "announced_found sample_disc (sample_cfg None) 0 (mdns_addrs sample_disc (sample_params s h True) scan_start) ''mdns''
     ((build_match sample_addr [79, 75] None)\<lparr>info := [''hostname'' \<mapsto> ''10.0.0.7'', ''source'' \<mapsto> ''mdns'']\<rparr>)"
proof -
  let ?ip = "Ipv4 10 0 0 7"
  have "lookup_host sample_disc n (show_ipv4 ?ip @ '':'' @ show_dec (unat (502 :: u16))) = Some [SockAddr (IpV4 ?ip) 502]" for n
    using sample_literal unfolding literal_lookup_def by blast
  then have "host_addrs sample_disc [502] n (show_ipv4 ?ip) = [sample_addr]" for n
    by (simp add: host_addrs_def sample_addr_def del: show_ipv4.simps)
  then have addrs: "mdns_addrs sample_disc (sample_params s h True) scan_start = [(show_ipv4 ?ip, sample_addr)]"
    by (simp add: mdns_addrs_def announced_addrs_def sample_named del: show_ipv4.simps)
  have "host_found sample_disc (sample_cfg None) name 0 sample_addr (build_match sample_addr [79, 75] (Some name))" for name
    by (simp add: host_found_def sample_tcp_def sample_conn_def probe_addr_def connect_with_opts_def
        probe_stream_def filter_accepts_def)
  moreover have "show_ipv4 ?ip = ''10.0.0.7''"
    by code_simp
  ultimately show ?thesis
    unfolding addrs announced_found_def
    by (intro exI [of _ 0] conjI exI [of _ "build_match sample_addr [79, 75] (Some (show_ipv4 ?ip))"])
      (simp_all add: build_match_def)
qed

theorem tcp_discovery_exact_witness:
  "\<exists>by_mdns by_ssdp new st'. run_discovery sample_disc (sample_params [''10.0.0.4/30''] None True) None scan_start =
       Some (Returns (Inr (by_mdns @ by_ssdp @ new)), st') \<and> distinct_addrs new \<and>
     (build_match sample_addr [79, 75] None)\<lparr>info := [''hostname'' \<mapsto> ''10.0.0.7'', ''source'' \<mapsto> ''mdns'']\<rparr>
       \<in> set by_mdns"
proof -
  let ?p = "sample_params [''10.0.0.4/30''] None True"
  obtain ms st' where run: "run_discovery sample_disc ?p None scan_start = Some (Returns (Inr ms), st')"
    by (rule sample_runs)
  have none: "try_preferred sample_disc ?p None scan_start = (Inr None, scan_start)"
    by (simp add: try_preferred_def)
  have "announced_found sample_disc (sample_cfg None) 0 (mdns_addrs sample_disc ?p scan_start) ''mdns''
      ((build_match sample_addr [79, 75] None)\<lparr>info := [''hostname'' \<mapsto> ''10.0.0.7'', ''source'' \<mapsto> ''mdns'']\<rparr>)"
    by (rule sample_announced)
  then show ?thesis
    using run tcp_discovery_exact [OF run none] by (auto; metis)
qed

theorem tcp_auto_discovery_total_witness:
  "\<exists>ms. td_discover (sample_td [] None False) sample_disc = Some (Inr ms)"
  by (rule tcp_auto_discovery_total [OF sample_new]) (simp_all add: cidr_laws)

theorem tcp_discover_errors_witness:
  "\<exists>e. td_discover (sample_td [''10.0.0.0''] None False) sample_disc = Some (Inl e)"
proof -
  have "cidr_parse ''10.0.0.0'' = Inl ''invalid IP address syntax''"
    by code_simp
  then show ?thesis
    using tcp_discover_errors [OF sample_new, of sample_disc "[''10.0.0.0'']" None False] cidr_laws by simp
qed

theorem tcp_streaming_agrees_witness:
  "\<exists>ms sent. td_discover (sample_td [''10.0.0.4/30''] None True) sample_disc = Some (Inr ms) \<and>
     td_discover_streaming (sample_td [''10.0.0.4/30''] None True) sample_disc (\<lambda>n. True) (\<lambda>n. None) =
       Some (sent, Inr sent) \<and> subseq ms sent"
proof -
  obtain ms where d: "td_discover (sample_td [''10.0.0.4/30''] None True) sample_disc = Some (Inr ms)"
    by (rule sample_discover)
  show ?thesis
    using tcp_streaming_agrees [OF _ _ d, of "\<lambda>n. True" "\<lambda>n. None"] d by auto
qed

theorem mdns_ssdp_repeats_witness:
  "\<exists>ms st'. run_discovery sample_disc (sample_params [''10.0.0.4/30''] None True) None scan_start =
       Some (Returns (Inr ms), st') \<and> \<not> distinct_addrs ms"
proof -
  obtain ms st' where run: "run_discovery sample_disc (sample_params [''10.0.0.4/30''] None True) None scan_start =
      Some (Returns (Inr ms), st')"
    by (rule sample_runs)
  have "\<exists>m. probe_found (sample_env False) (sample_cfg None) n (SockAddr (IpV4 (Ipv4 10 0 0 7)) 502) m" for n
    using sample_answer [of False n] by (auto simp: probe_found_def sample_addr_def)
  then have "\<not> distinct_addrs ms"
    by (intro mdns_ssdp_repeats [OF sample_literal _ _ _ _ _ _ _ run, of 502 "[]" "Ipv4 10 0 0 7"])
      (simp_all add: sample_named)
  then show ?thesis
    using run by blast
qed

theorem tcp_watch_consistent_witness:
  "legal_log fresh_addr know_addr {}
     (fst (td_watch ((sample_td [''10.0.0.4/30''] None False)\<lparr>td_cancellation_token := Some 0\<rparr>) (\<lambda>n. None)
       [(False, sample_disc, [False]), (True, sample_disc, [])]))"
  using tcp_watch_consistent [of "(sample_td [''10.0.0.4/30''] None False)\<lparr>td_cancellation_token := Some 0\<rparr>"
      "\<lambda>n. None" "[(False, sample_disc, [False]), (True, sample_disc, [])]"]
  by simp

end
