(* ===== verification/Tcp_Finds.thy ===== *)
theory Tcp_Finds
  imports Tcp_Watch
begin

text \<open>
  What the parts of the TCP discovery promise together: which addresses a sweep with raw sockets
  probes, and that a device on the local network is found.
\<close>

section \<open>Sweeps with raw sockets\<close>

text \<open>The \<open>i\<close>-th target of a SYN scan answered it; only the last 65536 targets can.\<close>

definition syn_answered :: "'net tcp_env \<Rightarrow> (ipv4 \<times> u16) list \<Rightarrow> nat \<Rightarrow> bool" where
  "syn_answered env targets i =
     (length targets \<le> i + 65536 \<and>
      (\<exists>d \<in> set (heard (syn_events env)).
         syn_ack_from d (fst (targets ! i)) (base_port (process_id env) + word_of_nat i)))"

definition pairs_of :: "ipv4 list \<Rightarrow> u16 list \<Rightarrow> (ipv4 \<times> u16) list" where
  "pairs_of alive ports = concat (map (\<lambda>ip. map (\<lambda>p. (ip, p)) ports) alive)"

definition sock_v4 :: "ipv4 \<times> u16 \<Rightarrow> sock_addr" where
  "sock_v4 t = SockAddr (IpV4 (fst t)) (snd t)"

lemma raw_probe_targets_set:
  "set (build_raw_probe_targets env alive ports) =
     {sock_v4 (pairs_of alive ports ! i) | i. i < length (pairs_of alive ports) \<and>
        (syn_opened env \<and> local_ip_for env (hd alive) \<noteq> None \<longrightarrow> syn_answered env (pairs_of alive ports) i)}"
proof -
  let ?t = "pairs_of alive ports"
  have all: "sock_v4 ` set ?t = {sock_v4 (?t ! i) | i. i < length ?t}"
    unfolding set_conv_nth by blast
  have eq: "build_raw_probe_targets env alive ports = map sock_v4
      (case (case (case alive of [] \<Rightarrow> None | ip # _ \<Rightarrow> local_ip_for env ip) of
               None \<Rightarrow> None
             | Some src_ip \<Rightarrow>
                 (case syn_scan (syn_opened env) (process_id env) src_ip ?t (syn_events env) (syn_order env) of
                    Panics \<Rightarrow> None
                  | Returns (sent, found) \<Rightarrow> found)) of
         None \<Rightarrow> ?t | Some pairs \<Rightarrow> pairs)"
    unfolding build_raw_probe_targets_def Let_def pairs_of_def
    by (rule arg_cong2 [where f = map]) (auto simp: sock_v4_def)
  show ?thesis
  proof (cases "?t = [] \<or> \<not> syn_opened env \<or> local_ip_for env (hd alive) = None")
    case True
    then have "set (build_raw_probe_targets env alive ports) = sock_v4 ` set ?t"
      unfolding eq by (cases alive) (auto simp: syn_scan_def pairs_of_def split: option.split)
    then show ?thesis
      using True all by auto
  next
    case False
    then obtain src where src: "local_ip_for env (hd alive) = Some src" "syn_opened env" "?t \<noteq> []"
      by auto
    then obtain ip ips where alive: "alive = ip # ips"
      by (cases alive) (auto simp: pairs_of_def)
    obtain opens where opens: "syn_scan True (process_id env) src ?t (syn_events env) (syn_order env) =
        Returns (syn_packets (base_port (process_id env)) src ?t, Some opens)"
      "set opens = {?t ! i | i. i < length ?t \<and> syn_answered env ?t i}"
      by (rule syn_scan_opens [OF src(3)]) (auto simp: syn_answered_def)
    have "build_raw_probe_targets env alive ports = map sock_v4 opens"
      using src(1,2) opens(1)
      unfolding eq by (simp add: alive)
    then show ?thesis
      using src opens(2) by auto
  qed
qed

text \<open>
  C26.  With the ICMP socket open and no cancellation, the last stage of a scan probes exactly these
  addresses: of the hosts whose echo replies arrived, every port, and where a SYN scan is possible
  only the pairs that answered it.  A host that ignores echo requests is never probed here.
\<close>

theorem raw_sweep_exact:
  assumes "calm env cfg" "0 < sc_max_concurrent cfg" "icmp_opened env"
  shows "\<exists>ms st' rest alive. main_sweep env cfg tx nets pri (ms0, st) = Some (ms, st') \<and>
    dialled_addrs st' = dialled_addrs st @ rest \<and>
    set alive = {ip. \<exists>d \<in> set (heard (icmp_events env)).
      echo_reply_from (ucast (process_id env AND 0xFFFF)) d ip} \<and>
    set rest = {sock_v4 (pairs_of alive (sc_ports cfg) ! i) | i. i < length (pairs_of alive (sc_ports cfg)) \<and>
      (syn_opened env \<and> local_ip_for env (hd alive) \<noteq> None \<longrightarrow>
         syn_answered env (pairs_of alive (sc_ports cfg)) i)}"
proof -
  obtain sent alive where alive: "ping_sweep_sync True (process_id env)
      (remaining_ips (ipnet env) nets (sc_ports cfg) pri) (icmp_events env) (icmp_order env) = (sent, Some alive)"
    by (simp add: ping_sweep_sync_def Let_def)
  have "set (sweep_targets env cfg nets pri) =
      {sock_v4 (pairs_of alive (sc_ports cfg) ! i) | i. i < length (pairs_of alive (sc_ports cfg)) \<and>
        (syn_opened env \<and> local_ip_for env (hd alive) \<noteq> None \<longrightarrow>
           syn_answered env (pairs_of alive (sc_ports cfg)) i)}"
    using alive assms(3) raw_probe_targets_set [of env alive "sc_ports cfg"]
    by (auto simp: sweep_targets_def pairs_of_def)
  moreover note ping_sweep_alive [OF alive]
  moreover obtain ms st' where "main_sweep env cfg tx nets pri (ms0, st) = Some (ms, st')"
    "dialled_addrs st' = dialled_addrs st @ sweep_targets env cfg nets pri"
    using main_sweep_calm [OF assms(1,2), of tx nets pri "(ms0, st)"] by auto
  ultimately show ?thesis
    by (intro exI conjI)
qed

section \<open>Finding a device\<close>

text \<open>
  The hosts whose echo replies are heard, in the order in which the sweep goes on with them; which
  hosts it asks plays no part.
\<close>

definition replied :: "'net tcp_env \<Rightarrow> ipv4 list" where
  "replied env =
     the (snd (ping_sweep_sync True (process_id env) [] (icmp_events env) (icmp_order env)))"

lemma replied_hosts:
  "set (replied env) = {ip. \<exists>d \<in> set (heard (icmp_events env)).
     echo_reply_from (ucast (process_id env AND 0xFFFF)) d ip}"
proof -
  obtain sent alive where "ping_sweep_sync True (process_id env) [] (icmp_events env) (icmp_order env) =
      (sent, Some alive)"
    by (simp add: ping_sweep_sync_def Let_def)
  then show ?thesis
    using ping_sweep_alive by (fastforce simp: replied_def)
qed

lemma ping_sweep_replied:
  "snd (ping_sweep_sync True (process_id env) hosts (icmp_events env) (icmp_order env)) = Some (replied env)"
  by (simp add: ping_sweep_sync_def replied_def Let_def)

text \<open>
  The sweep gets to a port of an address: no ICMP socket opens; or the address answers the echo
  request and, where a SYN scan runs, the port answers its SYN, among the last 65536 ones.
\<close>

definition sweep_sees :: "'net tcp_env \<Rightarrow> u16 list \<Rightarrow> ipv4 \<Rightarrow> u16 \<Rightarrow> bool" where
  "sweep_sees env ports ip q =
     (\<not> icmp_opened env \<or>
      ip \<in> set (replied env) \<and>
      (syn_opened env \<and> local_ip_for env (hd (replied env)) \<noteq> None \<longrightarrow>
         (\<exists>i < length (pairs_of (replied env) ports).
            pairs_of (replied env) ports ! i = (ip, q) \<and> syn_answered env (pairs_of (replied env) ports) i)))"

lemma sweep_sees_target:
  assumes "sweep_sees env (sc_ports cfg) ip q" "net \<in> set nets" "IpV4 ip \<in> set (net_hosts (ipnet env) net)"
    and "q \<in> set (sc_ports cfg)"
  shows "SockAddr (IpV4 ip) q \<in> pri \<union> set (sweep_targets env cfg nets pri)"
proof (cases "icmp_opened env")
  case False
  then show ?thesis
    using assms(2-4) by (auto simp: sweep_targets_def ping_sweep_sync_def host_iter_def)
next
  case True
  let ?pairs = "pairs_of (replied env) (sc_ports cfg)"
  have alive: "ip \<in> set (replied env)"
    using assms(1) True by (simp add: sweep_sees_def)
  then have "(ip, q) \<in> set ?pairs"
    using assms(4) by (auto simp: pairs_of_def)
  then have "\<exists>i < length ?pairs. ?pairs ! i = (ip, q) \<and>
      (syn_opened env \<and> local_ip_for env (hd (replied env)) \<noteq> None \<longrightarrow> syn_answered env ?pairs i)"
    using assms(1) True by (auto simp: sweep_sees_def in_set_conv_nth)
  then have "sock_v4 (ip, q) \<in> set (build_raw_probe_targets env (replied env) (sc_ports cfg))"
    unfolding raw_probe_targets_set by force
  then show ?thesis
    using alive True by (auto simp: sweep_targets_def ping_sweep_replied sock_v4_def)
qed

lemma scan_finds:
  assumes "calm env cfg" "sc_ports cfg \<noteq> []" "0 < sc_max_concurrent cfg" "sc_max_concurrent cfg \<le> max_permits"
    and "parse_nets (ipnet env) subnets = Inr nets" "clock st = length (dialled_addrs st)"
    and "sweep_sees env (sc_ports cfg) ip q" "net \<in> set nets" "IpV4 ip \<in> set (net_hosts (ipnet env) net)" "q \<in> set (sc_ports cfg)"
    and "\<forall>n. \<exists>m. probe_found env cfg n (SockAddr (IpV4 ip) q) m"
    and "scan_subnets env cfg tx subnets st = Some (Returns (Inr ms), st')"
  shows "show_sock (SockAddr (IpV4 ip) q) \<in> addresses ms"
proof -
  let ?a = "SockAddr (IpV4 ip) q"
  obtain arp macs heur where b: "build_priority_addrs (ipnet env) nets (sc_ports cfg) (sc_use_arp cfg)
      (arp_table env) = (arp, macs, heur)"
    by (metis prod_cases3)
  let ?all = "arp @ heur @ sweep_targets env cfg nets (set arp \<union> set heur)"
  have "dialled_addrs st' = dialled_addrs st @ ?all"
    by (rule scan_calm [OF assms(1-5) b, of tx st]) (use assms(12) in auto)
  moreover obtain new where new: "extends_by st st' new" "covers env cfg st new ms"
    by (rule scan_covers [OF assms(12,6)])
  ultimately have "new = ?all"
    by (simp add: extends_by_def)
  then have "?a \<in> set new"
    using sweep_sees_target [OF assms(7-10), of "set arp \<union> set heur"] by auto
  then obtain i where i: "i < length new" "new ! i = ?a"
    by (auto simp: in_set_conv_nth)
  obtain m0 where m0: "probe_found env cfg (clock st + i) ?a m0"
    using assms(11) by blast
  then obtain m where "m \<in> set ms" "same_device m m0"
    using new(2) i unfolding covers_def by metis
  then show ?thesis
    using probe_found_match [OF m0] by (force simp: addresses_def same_device_def image_iff simp del: show_sock.simps)
qed

text \<open>Everything a discovery reports is a TCP match.\<close>

lemma covers_tcp: "covers env cfg st new ms \<Longrightarrow> m \<in> set ms \<Longrightarrow> transport m = Tcp"
  unfolding covers_def same_device_def using probe_found_match by (metis build_match_fields(1))

lemma run_discovery_tcp:
  assumes "run_discovery env p tx st = Some (Returns (Inr ms), st')" "try_preferred env p tx st = (Inr None, st0)"
    and "clock st0 = length (dialled_addrs st0)" "m \<in> set ms"
  shows "transport m = Tcp"
proof -
  obtain named st1 new swept targets where 1: "extends_by st0 st1 new"
    "covers (net_env env) (dp_scan p) st0 new named"
    "scan_subnets (net_env env) (dp_scan p) tx targets st1 = Some (Returns (Inr swept), st')"
    "ms = append_new named swept"
    using run_discovery_swept [OF assms(1,2)] by metis
  have "clock st1 = length (dialled_addrs st1)"
    using 1(1) assms(3) by (simp add: extends_by_def)
  then obtain new2 where "covers (net_env env) (dp_scan p) st1 new2 swept"
    by (rule scan_covers [OF 1(3)])
  moreover have "m \<in> set named \<or> m \<in> set swept"
    using assms(4) unfolding 1(4) append_new_def by (auto dest: subsetD [OF keep_first_set])
  ultimately show ?thesis
    using 1(2) covers_tcp by blast
qed

lemma host_port_address:
  assumes "transport m = Tcp" "address m = show_sock a"
  shows "host m = Some (show_host (sa_ip a))" "port m = Some (sa_port a)"
  using host_port_built [of a "[]" None] assms by (simp_all add: host_def port_def build_match_fields)

text \<open>An address of the interface's own network, neither its first nor its last.\<close>

definition on_link :: "'net ipnet_api \<Rightarrow> u8 \<Rightarrow> iface \<Rightarrow> ipv4 \<Rightarrow> bool" where
  "on_link api mp i ip' =
     (\<exists>ip netmask net. \<not> if_loopback i \<and> \<not> is_link_local ip \<and> if_v4 i = Some (ip, netmask) \<and>
        net_with_netmask api ip netmask = Some net \<and>
        same_block (max mp (net_prefix_len api net)) ip ip' \<and>
        inner_ip (max mp (net_prefix_len api net)) ip')"

lemma on_link_host:
  assumes "ipnet_laws api" "on_link api mp i ip'" "iface_net api mp i n"
  shows "IpV4 ip' \<in> set (net_hosts api n)"
proof -
  obtain ip netmask net where i: "if_v4 i = Some (ip, netmask)" "net_with_netmask api ip netmask = Some net"
    "same_block (max mp (net_prefix_len api net)) ip ip'" "inner_ip (max mp (net_prefix_len api net)) ip'"
    using assms(2) by (auto simp: on_link_def)
  have n: "v4_net api n" "net_contains api n (IpV4 ip)" "net_prefix_len api n = max mp (net_prefix_len api net)"
    using assms(3) i(1,2) by (auto simp: iface_net_def)
  have "net_contains api n (IpV4 ip') = same_block (net_prefix_len api n) ip ip'"
    using assms(1) n(1,2) unfolding ipnet_laws_def by blast
  then have "net_contains api n (IpV4 ip')"
    using i(3) n(3) by simp
  then show ?thesis
    using assms(1) n(1) i(4) unfolding ipnet_laws_def n(3) [symmetric] by blast
qed

text \<open>Such an address is among the hosts of the subnets that an automatic discovery sweeps.\<close>

lemma on_link_swept:
  assumes "td_new single self0 = Inr self" "td_subnets self0 = []" "ipnet_laws (ipnet (net_env env))"
    and "ifaces env = Some es" "i \<in> set es" "on_link (ipnet (net_env env)) (td_subnet_prefix self0) i ip"
  obtains cidrs nets net where "sweep_subnets env (td_params self) = Returns (Inr cidrs)"
    "parse_nets (ipnet (net_env env)) cidrs = Inr nets" "net \<in> set nets"
    "IpV4 ip \<in> set (net_hosts (ipnet (net_env env)) net)"
proof -
  let ?api = "ipnet (net_env env)"
  have self: "16 \<le> td_subnet_prefix self0" "td_subnet_prefix self0 \<le> 32" "td_subnets self = []"
    "td_subnet_prefix self = td_subnet_prefix self0"
    using assms(1,2) by (auto simp: td_new_def Let_def split: if_splits)
  obtain cidrs nets where nets: "local_subnets ?api (ifaces env) (td_subnet_prefix self0) = Returns (Inr cidrs)"
    "parse_nets ?api cidrs = Inr nets"
    and cover: "\<forall>es ip. \<forall>i. ifaces env = Some es \<and> i \<in> set es \<and> usable_iface ?api ip i \<longrightarrow>
       (\<exists>net \<in> set nets. iface_net ?api (td_subnet_prefix self0) i net)"
    by (rule local_subnets_nets [OF assms(3) self(1,2)])
  have "\<exists>ip. usable_iface ?api ip i"
    using assms(6) by (auto simp: on_link_def usable_iface_def)
  then obtain net where "net \<in> set nets" "IpV4 ip \<in> set (net_hosts ?api net)"
    using cover assms(4,5) on_link_host [OF assms(3,6)] by blast
  moreover have "sweep_subnets env (td_params self) = Returns (Inr cidrs)"
    using nets(1) self by (simp add: sweep_subnets_def td_params_def)
  ultimately show thesis
    using nets(2) that by blast
qed

text \<open>
  The address is among what a discovery sweeps: with configured subnets a host of one of them, all of
  which parse, and else an address of the network of one of the host's interfaces, taken no wider
  than \<open>subnet_prefix\<close>.
\<close>

definition td_swept :: "tcp_discovery \<Rightarrow> 'net disc_env \<Rightarrow> ipv4 \<Rightarrow> bool" where
  "td_swept self env ip =
     (if td_subnets self = []
      then (\<exists>es i. ifaces env = Some es \<and> i \<in> set es \<and>
              on_link (ipnet (net_env env)) (td_subnet_prefix self) i ip)
      else (\<exists>nets net. parse_nets (ipnet (net_env env)) (td_subnets self) = Inr nets \<and> net \<in> set nets \<and>
              IpV4 ip \<in> set (net_hosts (ipnet (net_env env)) net)))"

lemma td_swept_net:
  assumes "td_new single self0 = Inr self" "ipnet_laws (ipnet (net_env env))" "td_swept self env ip"
  obtains cidrs nets net where "sweep_subnets env (td_params self) = Returns (Inr cidrs)"
    "parse_nets (ipnet (net_env env)) cidrs = Inr nets" "net \<in> set nets"
    "IpV4 ip \<in> set (net_hosts (ipnet (net_env env)) net)"
proof (cases "td_subnets self = []")
  case True
  have self0: "td_subnets self0 = []" "td_subnet_prefix self0 = td_subnet_prefix self"
    using assms(1) True by (auto simp: td_new_def Let_def split: if_splits)
  obtain es i where "ifaces env = Some es" "i \<in> set es"
    "on_link (ipnet (net_env env)) (td_subnet_prefix self0) i ip"
    using assms(3) True self0(2) by (auto simp: td_swept_def)
  then show thesis
    by (rule on_link_swept [OF assms(1) self0(1) assms(2) _ _ _ that])
next
  case False
  then show thesis
    using assms(3) that by (auto simp: td_swept_def sweep_subnets_def td_params_def)
qed

text \<open>A preferred host, if there is one, that no attempt of a discovery gets an answer from.\<close>

definition preferred_silent :: "tcp_discovery \<Rightarrow> 'net disc_env \<Rightarrow> bool" where
  "preferred_silent self env =
     (case td_preferred_host self of
        None \<Rightarrow> True
      | Some name \<Rightarrow> \<forall>k \<le> unat (td_preferred_retry self). \<forall>m.
          \<not> attempt_found env (td_params self) name scan_start k m)"

lemma preferred_silent_skips:
  assumes "preferred_silent self env" "calm (net_env env) (dp_scan (td_params self))" "td_ports self \<noteq> []"
  obtains st0 where "try_preferred env (td_params self) None scan_start = (Inr None, st0)"
    "clock st0 = length (dialled_addrs st0)"
proof (cases "td_preferred_host self")
  case None
  then show thesis
    using that [of scan_start] by (simp add: try_preferred_def td_params_def scan_start_def)
next
  case (Some name)
  let ?p = "td_params self"
  have p: "dp_preferred ?p = Some name" "sc_ports (dp_scan ?p) \<noteq> []"
    "dp_preferred_retry ?p = unat (td_preferred_retry self)"
    using Some assms(3) by (simp_all add: td_params_def)
  obtain r st0 where run: "try_preferred env ?p None scan_start = (Inr r, st0)"
    using try_preferred_ok by blast
  then have "preferred_attempts env ?p None name 0 (Suc (dp_preferred_retry ?p)) scan_start = (Inr r, st0)"
    using p(1) by (simp add: try_preferred_def del: preferred_attempts.simps)
  then obtain k where k: "attempted env ?p None name 0 (Suc (dp_preferred_retry ?p)) scan_start r st0 k"
    using preferred_attempts_facts [OF _ p(2)] by blast
  have silent: "\<not> attempt_found env ?p name scan_start k m" if "k \<le> dp_preferred_retry ?p" for k m
    using assms(1) that Some p(3) by (simp add: preferred_silent_def)
  have calm: "\<not> attempt_cancelled env ?p scan_start k"
    using assms(2) by (simp add: attempt_cancelled_def calm_def)
  have "r = None"
  proof (cases r)
    case (Some ms)
    then have "k \<le> dp_preferred_retry ?p" "ms \<noteq> []" "set ms = {m. attempt_found env ?p name scan_start k m}"
      using k calm by (simp_all add: attempted_def)
    moreover from this(1,3) have "set ms = {}"
      by (simp add: silent)
    ultimately show ?thesis
      by simp
  qed
  moreover have "clock st0 = length (dialled_addrs st0)"
    using k \<open>r = None\<close> by (simp add: attempted_def extends_by_def scan_start_def)
  ultimately show thesis
    using that run by simp
qed

text \<open>
  A device within reach of a discovery: its address is swept; the sweep gets to it; it answers the
  probe on a configured port whenever it is probed; no preferred host answers; and nobody cancels.
\<close>

definition td_in_reach :: "tcp_discovery \<Rightarrow> 'net disc_env \<Rightarrow> ipv4 \<Rightarrow> u16 \<Rightarrow> bool" where
  "td_in_reach self env ip q =
     (ipnet_laws (ipnet (net_env env)) \<and> calm (net_env env) (dp_scan (td_params self)) \<and>
      preferred_silent self env \<and> td_swept self env ip \<and>
      sweep_sees (net_env env) (td_ports self) ip q \<and> q \<in> set (td_ports self) \<and>
      (\<forall>n. \<exists>m. probe_found (net_env env) (dp_scan (td_params self)) n (SockAddr (IpV4 ip) q) m))"

lemma td_discover_finds:
  assumes "td_new single self0 = Inr self"
    and "0 < td_max_concurrent self0" "td_max_concurrent self0 \<le> max_permits"
    and "td_in_reach self env ip q"
  obtains ms m where "td_discover self env = Some (Inr ms)" "m \<in> set ms"
    "address m = show_sock (SockAddr (IpV4 ip) q)" "\<forall>m \<in> set ms. transport m = Tcp"
    "\<not> td_use_mdns self \<Longrightarrow> \<not> td_use_ssdp self \<Longrightarrow> distinct_addrs ms"
proof -
  let ?p = "td_params self" and ?api = "ipnet (net_env env)"
  have self: "td_max_concurrent self = td_max_concurrent self0"
    using assms(1) by (auto simp: td_new_def Let_def split: if_splits)
  have h: "ipnet_laws ?api" "calm (net_env env) (dp_scan ?p)" "td_swept self env ip"
    "sweep_sees (net_env env) (td_ports self) ip q" "q \<in> set (td_ports self)"
    "\<forall>n. \<exists>m. probe_found (net_env env) (dp_scan ?p) n (SockAddr (IpV4 ip) q) m" "preferred_silent self env"
    using assms(4) by (simp_all add: td_in_reach_def)
  have ports: "td_ports self \<noteq> []" "sc_ports (dp_scan ?p) = td_ports self"
    "sc_max_concurrent (dp_scan ?p) = td_max_concurrent self0"
    using h(5) self by (auto simp: td_params_def)
  obtain cidrs nets net where targets: "sweep_subnets env ?p = Returns (Inr cidrs)"
    and nets: "parse_nets ?api cidrs = Inr nets"
    and net: "net \<in> set nets" "IpV4 ip \<in> set (net_hosts ?api net)"
    by (rule td_swept_net [OF assms(1) h(1,3)])
  obtain ms st' where run: "run_discovery env ?p None scan_start = Some (Returns (Inr ms), st')"
    by (rule run_discovery_total [OF targets nets]) (use assms(2,3) ports in simp_all)
  obtain st0 where pref: "try_preferred env ?p None scan_start = (Inr None, st0)"
    and st0: "clock st0 = length (dialled_addrs st0)"
    by (rule preferred_silent_skips [OF h(7,2) ports(1)])
  obtain named st1 new swept where 1: "extends_by st0 st1 new"
    "covers (net_env env) (dp_scan ?p) st0 new named"
    "scan_subnets (net_env env) (dp_scan ?p) None cidrs st1 = Some (Returns (Inr swept), st')"
    "ms = append_new named swept"
    using run_discovery_swept [OF run pref] targets by (metis outcome.inject sum.inject(2))
  have "clock st1 = length (dialled_addrs st1)"
    using 1(1) st0 by (simp add: extends_by_def)
  then have "show_sock (SockAddr (IpV4 ip) q) \<in> addresses swept"
    using scan_finds [OF h(2) _ _ _ nets _ _ net _ h(6) 1(3)] assms(2,3) h(4,5) ports by simp
  moreover have "addresses swept \<subseteq> addresses ms"
    unfolding 1(4) append_new_addresses by (auto simp: addresses_def)
  ultimately have "show_sock (SockAddr (IpV4 ip) q) \<in> addresses ms"
    by blast
  then obtain m where "m \<in> set ms" "address m = show_sock (SockAddr (IpV4 ip) q)"
    by (auto simp: addresses_def simp del: show_sock.simps)
  moreover have found: "td_discover self env = Some (Inr ms)"
    using run ports(1) by (simp add: td_discover_def block_on_result_def)
  moreover have "transport m = Tcp" if "m \<in> set ms" for m
    by (rule run_discovery_tcp [OF run pref st0 that])
  ultimately show thesis
    using that td_discover_distinct [OF found pref] by blast
qed

text \<open>
  C1.  A device on the network is found.  Let the object be constructed with at least one and at most
  the largest number of permits, let no token be seen set during the discovery, and let a preferred
  host, if there is one, not answer.  A device at a host address of a configured subnet or, without
  these, of the network of one of the host's interfaces, which answers the probe on one of the ports
  whenever it is probed, is in the list that \<open>discover\<close> returns, with its host and its port, whatever
  the neighbour table says, whichever other devices there are and in whatever order the probes
  complete; provided that the sweep gets to it.  It always does where no ICMP socket opens, as without
  privileges.  Where one opens, the device's echo reply must be heard; and where the SYN socket opens
  too and the route to the first host that replied is known, so must its answer to the SYN, which must
  be among the last 65536 sent.
\<close>

theorem tcp_finds_device:
  assumes "td_new single self0 = Inr self"
    and "0 < td_max_concurrent self0" "td_max_concurrent self0 \<le> max_permits"
    and "td_in_reach self env ip q"
  shows "\<exists>ms m. td_discover self env = Some (Inr ms) \<and> m \<in> set ms \<and>
    transport m = Tcp \<and> host m = Some (show_ipv4 ip) \<and> port m = Some q"
proof -
  obtain ms m where ms: "td_discover self env = Some (Inr ms)" "m \<in> set ms"
    "address m = show_sock (SockAddr (IpV4 ip) q)" "\<forall>m \<in> set ms. transport m = Tcp"
    by (rule td_discover_finds [OF assms])
  then show ?thesis
    using host_port_address [of m] by (auto simp del: show_sock.simps)
qed

section \<open>Watching a device\<close>

lemma td_polled:
  "ms \<in> set (polled (td_polls self turns)) \<Longrightarrow>
     \<exists>(stop, env, naps) \<in> set turns. td_discover self env = Some (Inr ms)"
proof (induction self turns rule: td_polls.induct)
  case (1 self)
  then show ?case by simp
next
  case (2 self stop env naps turns)
  then show ?case
    by (cases "td_discover self env") (auto split: if_splits sum.splits)
qed

lemma td_polls_append:
  "td_polls self (turns @ ending) = td_polls self turns \<or>
   td_polls self (turns @ ending) = td_polls self turns @ td_polls self ending"
  by (induction self turns rule: td_polls.induct) (auto split: option.split)

lemma td_last_turn:
  assumes "tail = [c]" "\<not> cancelled_at_top c" "tick c = Inr ms" "tail = [] \<or> tail = td_polls self ending"
    and "length ending \<le> 1"
  obtains env naps where "ending = [(False, env, naps)]" "td_discover self env = Some (Inr ms)"
proof -
  have polls: "td_polls self ending = [c]"
    using assms(1,4) by simp
  then obtain stop env naps where e: "ending = [(stop, env, naps)]"
    using assms(5) by (cases ending) auto
  have "\<not> stop"
    using polls assms(2) unfolding e by (cases stop) auto
  then have "td_discover self env = Some (Inr ms)"
    using polls assms(3) unfolding e by (auto split: option.splits)
  then show thesis
    using that e \<open>\<not> stop\<close> by simp
qed

text \<open>The passes of a watcher during which a device is within reach all find it.\<close>

lemma td_turns_find:
  assumes "td_new single self0 = Inr self"
    and "0 < td_max_concurrent self0" "td_max_concurrent self0 \<le> max_permits"
    and "\<not> td_use_mdns self" "\<not> td_use_ssdp self"
    and "turns = (False, env, naps) # rest" "\<forall>(stop, env, naps) \<in> set turns. td_in_reach self env ip q"
  obtains e es where "polled (td_polls self turns) = e # es"
    "\<forall>ms \<in> set (e # es). show_sock (SockAddr (IpV4 ip) q) \<in> addresses ms \<and> distinct_addrs ms"
    "\<forall>ms \<in> set (e # es). \<forall>m \<in> set ms. transport m = Tcp"
proof -
  let ?a = "show_sock (SockAddr (IpV4 ip) q)"
  have found: "(?a \<in> addresses ms \<and> distinct_addrs ms) \<and> (\<forall>m \<in> set ms. transport m = Tcp)"
    if t: "(stop, env, naps) \<in> set turns" "td_discover self env = Some (Inr ms)" for stop env naps ms
  proof -
    have reach: "td_in_reach self env ip q"
      using t(1) assms(7) by auto
    obtain ms' m where "td_discover self env = Some (Inr ms')" "m \<in> set ms'" "address m = ?a"
      "\<forall>m \<in> set ms'. transport m = Tcp" "distinct_addrs ms'"
      by (rule td_discover_finds [OF assms(1-3) reach]) (use assms(4,5) in blast)
    then show ?thesis
      using t(2) by (auto simp: addresses_def simp del: show_sock.simps intro!: image_eqI [of _ _ m])
  qed
  have "td_in_reach self env ip q"
    using assms(6,7) by simp
  then obtain e where "td_discover self env = Some (Inr e)"
    by (rule td_discover_finds [OF assms(1-3)])
  then obtain es where es: "polled (td_polls self turns) = e # es"
    using assms(6) by auto
  have "(?a \<in> addresses ms \<and> distinct_addrs ms) \<and> (\<forall>m \<in> set ms. transport m = Tcp)" if "ms \<in> set (e # es)" for ms
    using td_polled [of ms self turns] that found unfolding es by blast
  then show thesis
    using that [OF es] by blast
qed

text \<open>
  C3.  A device that stays within reach is reported by the watcher as added, once, with the first
  pass, and never as added again, however long the watcher runs and whatever the other devices do,
  until a callback raises.  It is not reported as removed either, unless a last pass, which may be
  interrupted by a cancellation or go any other way, returns a list without it: then it is removed,
  once, although it may still be there.  This is where only the sweep is used, without mDNS and SSDP,
  and a preferred host, if there is one, does not answer; within reach means for each pass but such a
  last one that no token is seen set during it and that the sweep gets to the device, as for C1.
\<close>

theorem tcp_watch_device:
  assumes "td_new single self0 = Inr self"
    and "0 < td_max_concurrent self0" "td_max_concurrent self0 \<le> max_permits"
    and "\<not> td_use_mdns self0" "\<not> td_use_ssdp self0" "td_cancellation_token self0 = Some tok"
    and "turns = (False, env, naps) # rest" "\<forall>(stop, env, naps) \<in> set turns. td_in_reach self env ip q"
    and "length ending \<le> 1" "td_watch self raises (turns @ ending) = (log, fin)" "\<not> callback_raised fin"
  shows "\<exists>m. transport m = Tcp \<and> host m = Some (show_ipv4 ip) \<and> port m = Some q \<and>
    (filter (\<lambda>c. callback_addr c = show_sock (SockAddr (IpV4 ip) q)) log = [Added m] \<or>
     (\<exists>env' naps' ms m'. ending = [(False, env', naps')] \<and> td_discover self env' = Some (Inr ms) \<and>
        show_sock (SockAddr (IpV4 ip) q) \<notin> addresses ms \<and>
        filter (\<lambda>c. callback_addr c = show_sock (SockAddr (IpV4 ip) q)) log = [Added m, Removed m']))"
proof -
  let ?a = "show_sock (SockAddr (IpV4 ip) q)"
  have self: "\<not> td_use_mdns self" "\<not> td_use_ssdp self" "td_cancellation_token self = Some tok"
    using assms(1,4-6) by (auto simp: td_new_def Let_def split: if_splits)
  obtain e es where es: "polled (td_polls self turns) = e # es"
    and all: "\<forall>ms \<in> set (e # es). ?a \<in> addresses ms \<and> distinct_addrs ms"
    and tcp: "\<forall>ms \<in> set (e # es). \<forall>m \<in> set ms. transport m = Tcp"
    by (rule td_turns_find [OF assms(1-3) self(1,2) assms(7,8)])
  obtain tail where tail: "td_polls self (turns @ ending) = td_polls self turns @ tail"
    "tail = [] \<or> tail = td_polls self ending"
    using td_polls_append [of self turns ending] by (metis append_Nil2)
  have short: "length tail \<le> 1"
    using tail(2) assms(9) by (cases ending) (auto split: option.split)
  have w: "poll_watch raises [] [] (td_polls self turns @ tail) = (log, fin)"
    using assms(10) self(3) tail(1) by (simp add: td_watch_def)
  then have quiet: "\<not> callback_raised (snd (poll_watch raises [] [] (td_polls self turns @ tail)))"
    using assms(11) by simp
  obtain m where m: "m \<in> set e" "address m = ?a"
    "filter (\<lambda>c. callback_addr c = ?a) log = [Added m] \<or>
     (\<exists>c ms m'. tail = [c] \<and> \<not> cancelled_at_top c \<and> tick c = Inr ms \<and> ?a \<notin> addresses ms \<and> address m' = ?a \<and>
        filter (\<lambda>c. callback_addr c = ?a) log = [Added m, Removed m'])"
    by (rule poll_watch_steady [OF quiet es all short]) (simp only: w fst_conv)
  have "filter (\<lambda>c. callback_addr c = ?a) log = [Added m] \<or>
     (\<exists>env' naps' ms m'. ending = [(False, env', naps')] \<and> td_discover self env' = Some (Inr ms) \<and>
        ?a \<notin> addresses ms \<and> filter (\<lambda>c. callback_addr c = ?a) log = [Added m, Removed m'])"
    using m(3)
  proof (elim disjE exE conjE)
    fix c ms m'
    assume c: "tail = [c]" "\<not> cancelled_at_top c" "tick c = Inr ms" and gone: "?a \<notin> addresses ms"
      "filter (\<lambda>c. callback_addr c = ?a) log = [Added m, Removed m']"
    obtain env' naps' where "ending = [(False, env', naps')]" "td_discover self env' = Some (Inr ms)"
      using c tail(2) assms(9) by (rule td_last_turn) simp
    then show ?thesis
      using gone by blast
  qed (rule disjI1)
  moreover have "transport m = Tcp" "host m = Some (show_ipv4 ip)" "port m = Some q"
    using tcp m(1,2) host_port_address [of m] by (auto simp del: show_sock.simps)
  ultimately show ?thesis
    by blast
qed

text \<open>
  What a cancellation during a pass does.  The token set from the first read of a pass on makes the pass
  return an empty list, without an error; the watcher takes it for the devices that are there now, and
  reports all that it knew as removed before it stops.
\<close>

definition interrupted :: "'net disc_env \<Rightarrow> 'net disc_env" where
  "interrupted env = env\<lparr>net_env := (net_env env)\<lparr>flag := \<lambda>_. True\<rparr>\<rparr>"

lemma scan_interrupted:
  assumes "\<forall>n. cancel_seen (sc_token cfg) (flag env n)" "sc_ports cfg \<noteq> []"
    and "0 < sc_max_concurrent cfg" "sc_max_concurrent cfg \<le> max_permits"
    and "parse_nets (ipnet env) subnets = Inr nets"
  obtains st' where "scan_subnets env cfg tx subnets st = Some (Returns (Inr []), st')"
proof -
  obtain ms st' where scan: "scan_subnets env cfg tx subnets st = Some (Returns (Inr ms), st')"
    by (rule scan_returns_matches [OF assms(3-5)])
  then have nets: "scan_nets env cfg tx nets st = Some (ms, st')"
    using assms(2,5) by (auto simp: scan_subnets_def split: if_splits)
  obtain arp macs heur where b: "build_priority_addrs (ipnet env) nets (sc_ports cfg) (sc_use_arp cfg)
      (arp_table env) = (arp, macs, heur)"
    by (metis prod_cases3)
  have none: "until_cancelled env (sc_token cfg) n as = []" for n as
    using assms(1) by (cases as) (simp_all add: until_cancelled_def)
  obtain cached octets new d where "ms = map (stamp_match ''arp_cache'' (Some macs)) cached @
      map (stamp_match ''heuristic'' None) octets @ new" "d = []"
    "\<forall>m. m \<notin> set cached" "\<forall>m. m \<notin> set octets" "\<forall>m. m \<in> set new \<longleftrightarrow> (\<exists>a. found_at env cfg (clock st) d a m)"
    by (rule scan_nets_details [OF nets b]) (auto simp: none assms(1))
  then have "ms = []"
    by (cases cached; cases octets; cases new) auto
  then show thesis
    using scan that by simp
qed

lemma td_discover_interrupted:
  assumes "td_new single self0 = Inr self"
    and "0 < td_max_concurrent self0" "td_max_concurrent self0 \<le> max_permits"
    and "\<not> td_use_mdns self" "\<not> td_use_ssdp self" "td_cancellation_token self = Some tok"
    and "td_in_reach self env ip q"
  shows "td_discover self (interrupted env) = Some (Inr [])"
proof -
  let ?p = "td_params self" and ?env = "interrupted env"
  have ports: "td_ports self \<noteq> []" "sc_ports (dp_scan ?p) = td_ports self"
    using assms(7) by (auto simp: td_in_reach_def td_params_def)
  have set_flag: "cancel_seen (sc_token (dp_scan ?p)) (flag (net_env ?env) n)" for n
    using assms(6) by (simp add: interrupted_def td_params_def)
  have "\<exists>st'. run_discovery ?env ?p None scan_start = Some (Returns (Inr []), st')"
  proof (cases "td_preferred_host self")
    case (Some name)
    then have "dp_preferred ?p = Some name"
      by (simp add: td_params_def)
    then have "\<exists>st'. try_preferred ?env ?p None scan_start = (Inr (Some []), st')"
      using set_flag by (simp add: try_preferred_def poll_token_def)
    then show ?thesis
      by (auto simp: run_discovery_def)
  next
    case None
    obtain cidrs nets net where targets: "sweep_subnets env ?p = Returns (Inr cidrs)"
      "parse_nets (ipnet (net_env env)) cidrs = Inr nets"
      by (rule td_swept_net [OF assms(1), of env ip]) (use assms(7) in \<open>simp_all add: td_in_reach_def\<close>)
    have self: "td_max_concurrent self = td_max_concurrent self0"
      using assms(1) by (auto simp: td_new_def Let_def split: if_splits)
    obtain st' where "scan_subnets (net_env ?env) (dp_scan ?p) None cidrs scan_start = Some (Returns (Inr []), st')"
      by (rule scan_interrupted [of "dp_scan ?p" "net_env ?env"])
        (use set_flag ports targets(2) assms(2,3) self in \<open>simp_all add: interrupted_def td_params_def\<close>)
    moreover have "sweep_subnets ?env ?p = Returns (Inr cidrs)"
      using targets(1) by (auto simp: sweep_subnets_def interrupted_def split: if_splits)
    ultimately show ?thesis
      using None assms(4,5)
      by (simp add: run_discovery_def try_preferred_def named_stage_def td_params_def outcome_map_def append_new_def)
  qed
  then show ?thesis
    using ports(1) by (auto simp: td_discover_def block_on_result_def)
qed

theorem tcp_watch_interrupted:
  assumes "td_new single self0 = Inr self"
    and "0 < td_max_concurrent self0" "td_max_concurrent self0 \<le> max_permits"
    and "\<not> td_use_mdns self" "\<not> td_use_ssdp self" "td_cancellation_token self = Some tok"
    and "td_in_reach self env ip q"
  shows "\<exists>ms m. td_watch self (\<lambda>_. None) [(False, env, [False]), (False, interrupted env, [True])] =
      (map Added ms @ map Removed ms, Stopped) \<and>
    m \<in> set ms \<and> transport m = Tcp \<and> host m = Some (show_ipv4 ip) \<and> port m = Some q"
proof -
  obtain ms m where ms: "td_discover self env = Some (Inr ms)" "m \<in> set ms"
    "address m = show_sock (SockAddr (IpV4 ip) q)" "\<forall>m \<in> set ms. transport m = Tcp"
    by (rule td_discover_finds [OF assms(1-3,7)])
  have "td_watch self (\<lambda>_. None) [(False, env, [False]), (False, interrupted env, [True])] =
      (map Added ms @ map Removed ms, Stopped)"
    using assms(6) ms(1) td_discover_interrupted [OF assms] poll_watch_lost [of ms] by (simp add: td_watch_def)
  moreover have "transport m = Tcp" "host m = Some (show_ipv4 ip)" "port m = Some q"
    using ms host_port_address [of m] by (auto simp del: show_sock.simps)
  ultimately show ?thesis
    using ms(2) by blast
qed

section \<open>Examples\<close>

text \<open>The example's device answers an echo request.\<close>

theorem raw_sweep_exact_witness:
  "\<exists>ms st'. main_sweep ((sample_env True)\<lparr>icmp_events := [Datagram sample_reply]\<rparr>) (sample_cfg None) None
     [sample_net] {} ([], scan_start) = Some (ms, st') \<and>
     SockAddr (IpV4 (Ipv4 10 0 0 7)) 502 \<in> set (dialled_addrs st')"
proof -
  let ?env = "(sample_env True)\<lparr>icmp_events := [Datagram sample_reply]\<rparr>"
  have "calm ?env (sample_cfg None)" "0 < sc_max_concurrent (sample_cfg None)" "icmp_opened ?env"
    by (simp_all add: calm_def sample_cfg_def)
  from raw_sweep_exact [OF this, of None "[sample_net]" "{}" "[]" scan_start]
  obtain ms st' rest alive where r: "main_sweep ?env (sample_cfg None) None [sample_net] {} ([], scan_start) = Some (ms, st')"
    "dialled_addrs st' = dialled_addrs scan_start @ rest"
    "set alive = {ip. \<exists>d \<in> set (heard (icmp_events ?env)). echo_reply_from (ucast (process_id ?env AND 0xFFFF)) d ip}"
    "set rest = {sock_v4 (pairs_of alive (sc_ports (sample_cfg None)) ! i) | i.
      i < length (pairs_of alive (sc_ports (sample_cfg None))) \<and>
      (syn_opened ?env \<and> local_ip_for ?env (hd alive) \<noteq> None \<longrightarrow>
         syn_answered ?env (pairs_of alive (sc_ports (sample_cfg None))) i)}"
    by blast
  have "Ipv4 10 0 0 7 \<in> set alive"
    using sample_reply_from unfolding r(3) by (simp add: sample_env_def)
  then have "(Ipv4 10 0 0 7, 502) \<in> set (pairs_of alive (sc_ports (sample_cfg None)))"
    by (simp add: pairs_of_def sample_cfg_def)
  then obtain i where "i < length (pairs_of alive (sc_ports (sample_cfg None)))"
    "pairs_of alive (sc_ports (sample_cfg None)) ! i = (Ipv4 10 0 0 7, 502)"
    by (auto simp: in_set_conv_nth)
  then have "sock_v4 (Ipv4 10 0 0 7, 502) \<in> set rest"
    unfolding r(4) by (auto simp: sample_env_def intro!: exI [of _ i])
  then show ?thesis
    using r(1,2) by (auto simp: sock_v4_def)
qed

text \<open>The example's device from a host in its network, with nobody cancelling.\<close>

definition calm_disc :: "cidr disc_env" where
  "calm_disc = sample_disc\<lparr>net_env := (sample_env False)\<lparr>flag := \<lambda>_. False\<rparr>\<rparr>"

definition auto_td :: "token option \<Rightarrow> tcp_discovery" where
  "auto_td t = (sample_td [] None False)\<lparr>td_cancellation_token := t\<rparr>"

lemma auto_fields:
  "td_new None (auto_td t) = Inr (auto_td t)" "td_preferred_host (auto_td t) = None"
  "0 < td_max_concurrent (auto_td t)" "td_max_concurrent (auto_td t) \<le> max_permits"
  "\<not> td_use_mdns (auto_td t)" "\<not> td_use_ssdp (auto_td t)" "td_cancellation_token (auto_td t) = t"
  "td_subnets (auto_td t) = []" "td_ports (auto_td t) = [502]" "td_subnet_prefix (auto_td t) = 24"
  "dp_scan (td_params (auto_td t)) = sample_cfg t"
  by (simp_all add: auto_td_def td_new_def Let_def sample_td_def max_permits_def td_params_def
      sample_cfg_def sample_tcp_def)

lemma auto_in_reach: "td_in_reach (auto_td t) calm_disc (Ipv4 10 0 0 7) 502"
proof -
  let ?i = "\<lparr>if_loopback = False, if_v4 = Some (Ipv4 10 0 0 20, Ipv4 255 255 255 0)\<rparr>"
  have env: "ipnet (net_env calm_disc) = cidr_api" "ifaces calm_disc = Some [?i]"
    "icmp_opened (net_env calm_disc) = False" "flag (net_env calm_disc) n = False"
    "dial (net_env calm_disc) = dial (sample_env False)" for n
    by (simp_all add: calm_disc_def sample_disc_def)
  have "cidr_with_netmask (Ipv4 10 0 0 20) (Ipv4 255 255 255 0) = Some (Ipv4 10 0 0 20, 24)"
    by (simp add: cidr_with_netmask_def upt_rec)
  then have "on_link cidr_api 24 ?i (Ipv4 10 0 0 7)"
    by (simp add: on_link_def same_block_def inner_ip_def)
  moreover have "\<exists>m. probe_found (net_env calm_disc) (sample_cfg t) n (SockAddr (IpV4 (Ipv4 10 0 0 7)) 502) m" for n
    using sample_answer [of False n] by (simp add: probe_found_def sample_addr_def env(5) sample_cfg_def)
  moreover have "calm (net_env calm_disc) (sample_cfg t)"
    by (cases t) (simp_all add: calm_def env(4) sample_cfg_def)
  ultimately show ?thesis
    unfolding td_in_reach_def td_swept_def auto_fields env(1,2)
    using cidr_laws by (simp add: sweep_sees_def env(3) preferred_silent_def auto_fields)
qed

theorem tcp_finds_device_witness:
  "\<exists>ms m. td_discover (auto_td None) calm_disc = Some (Inr ms) \<and> m \<in> set ms \<and>
     host m = Some ''10.0.0.7'' \<and> port m = Some 502"
proof -
  have "show_ipv4 (Ipv4 10 0 0 7) = ''10.0.0.7''"
    by code_simp
  then show ?thesis
    using tcp_finds_device [OF auto_fields(1,3,4) auto_in_reach, of None] by auto
qed

theorem tcp_watch_device_witness:
  "\<exists>m. filter (\<lambda>c. callback_addr c = show_sock (SockAddr (IpV4 (Ipv4 10 0 0 7)) 502))
     (fst (td_watch (auto_td (Some 0)) (\<lambda>_. None) [(False, calm_disc, [False]), (False, calm_disc, [True])])) =
     [Added m]"
proof -
  let ?self = "auto_td (Some 0)"
  let ?turns = "[(False, calm_disc, [False]), (False, calm_disc, [True])]"
  obtain log fin where w: "td_watch ?self (\<lambda>_. None) (?turns @ []) = (log, fin)" by force
  obtain ms where "td_discover ?self calm_disc = Some (Inr ms)"
    by (rule td_discover_finds [OF auto_fields(1,3,4) auto_in_reach])
  then have "\<not> callback_raised (snd (td_watch ?self (\<lambda>_. None) ?turns))"
    unfolding td_watch_def auto_fields option.case by (intro poll_watch_quiet) auto
  then have "\<not> callback_raised fin"
    using w by simp
  from tcp_watch_device [where ip = "Ipv4 10 0 0 7" and q = 502, OF auto_fields(1,3-7) refl _ _ w this]
  show ?thesis
    using auto_in_reach [of "Some 0"] w by (auto simp del: show_sock.simps)
qed

theorem tcp_watch_interrupted_witness:
  "\<exists>ms m. td_watch (auto_td (Some 0)) (\<lambda>_. None)
     [(False, calm_disc, [False]), (False, interrupted calm_disc, [True])] = (map Added ms @ map Removed ms, Stopped) \<and>
     m \<in> set ms \<and> port m = Some 502"
  using tcp_watch_interrupted [OF auto_fields(1,3-7) auto_in_reach] by blast

end
