(* ===== verification/Tcp_Stream.thy ===== *)
theory Tcp_Stream
  imports Tcp_Finds Stream_Pipe
begin

text \<open>
  \<open>TcpDiscovery::discover_streaming\<close> as two threads: the contract of \<open>Stream_Pipe\<close> for it.
\<close>

text \<open>The channel of \<open>src/tcp/mod.rs\<close>.\<close>

definition tcp_channel :: nat where
  "tcp_channel = 256"

text \<open>The run without a channel; with one the run has the same result and sends the same matches.\<close>

definition td_run :: "tcp_discovery \<Rightarrow> 'net disc_env \<Rightarrow> ((dafydd_error + device_match list) outcome \<times> scan_state) option" where
  "td_run self env = run_discovery env (td_params self) None scan_start"

definition td_result :: "tcp_discovery \<Rightarrow> 'net disc_env \<Rightarrow> (dafydd_error + device_match list) outcome" where
  "td_result self env = fst (the (td_run self env))"

definition td_sends :: "tcp_discovery \<Rightarrow> 'net disc_env \<Rightarrow> device_match list" where
  "td_sends self env =
     delivered (out (snd (the (run_discovery env (td_params self) (Some (\<lambda>_. True)) scan_start))))"

lemma td_run_with:
  assumes "td_run self env = Some (r, st)"
  obtains st' where "run_discovery env (td_params self) tx scan_start = Some (r, st')"
proof -
  have "map_option forget_acc (run_discovery env (td_params self) tx scan_start) = Some (r, st)"
    using assms run_discovery_forget [of env "td_params self" scan_start tx] by (simp add: td_run_def)
  then show thesis
    using that by auto
qed

lemma td_sends_with:
  assumes "td_ports self \<noteq> []" "td_run self env = Some (r, st)"
  shows "run_discovery env (td_params self) (Some room) scan_start = Some (r, st') \<Longrightarrow>
      out st' = send_all (Some room) (td_sends self env) sender_new"
    and "r = Returns (Inr ms) \<Longrightarrow>
      subseq ms (td_sends self env) \<and> addresses (td_sends self env) = addresses ms"
proof -
  have "sc_ports (dp_scan (td_params self)) \<noteq> []"
    using assms(1) by (simp add: td_params_def)
  then obtain sent where sent:
    "\<And>tx x st'. run_discovery env (td_params self) tx scan_start = Some (x, st') \<Longrightarrow>
       out st' = send_all tx sent sender_new"
    "\<And>ms st'. run_discovery env (td_params self) None scan_start = Some (Returns (Inr ms), st') \<Longrightarrow>
       subseq ms sent \<and> addresses sent = addresses ms"
    by (rule run_discovery_sent [of "td_params self" env]) blast
  obtain t where "run_discovery env (td_params self) (Some (\<lambda>_. True)) scan_start = Some (r, t)"
    by (rule td_run_with [OF assms(2)])
  then have "td_sends self env = sent"
    using sent(1) send_all_room [of "\<lambda>_. True" sent sender_new] by (simp add: td_sends_def sender_new_def)
  then show "run_discovery env (td_params self) (Some room) scan_start = Some (r, st') \<Longrightarrow>
      out st' = send_all (Some room) (td_sends self env) sender_new"
    "r = Returns (Inr ms) \<Longrightarrow>
      subseq ms (td_sends self env) \<and> addresses (td_sends self env) = addresses ms"
    using sent assms(2) by (simp_all add: td_run_def)
qed

interpretation tcp_streaming: streaming_method "td_discover_streaming self env"
  "td_ports self \<noteq> [] \<and> td_run self env \<noteq> None" "td_sends self env" "td_result self env"
  for self env
proof
  fix room raises
  assume runs: "td_ports self \<noteq> [] \<and> td_run self env \<noteq> None"
  then obtain r st where r: "td_run self env = Some (r, st)"
    by auto
  obtain st' where st': "run_discovery env (td_params self) (Some room) scan_start = Some (r, st')"
    by (rule td_run_with [OF r])
  show "td_discover_streaming self env room raises =
      Some (receive_stream raises (delivered (send_all (Some room) (td_sends self env) sender_new)) (td_result self env))"
    using runs r st' td_sends_with(1) [OF _ r st'] by (simp add: td_discover_streaming_def td_result_def)
qed

lemma td_run_blocking:
  assumes "td_discover self env = Some (Inr ms)"
  shows "td_ports self \<noteq> []" "td_run self env \<noteq> None" "td_result self env = Returns (Inr ms)"
    "subseq ms (td_sends self env)" "addresses (td_sends self env) = addresses ms"
proof -
  show ports: "td_ports self \<noteq> []"
    using assms by (auto simp: td_discover_def)
  obtain st where r: "td_run self env = Some (Returns (Inr ms), st)"
    using td_discover_run [OF assms] by (auto simp: td_run_def)
  then show "td_run self env \<noteq> None" "td_result self env = Returns (Inr ms)"
    by (simp_all add: td_result_def)
  show "subseq ms (td_sends self env)" "addresses (td_sends self env) = addresses ms"
    using td_sends_with(2) [OF ports r] by simp_all
qed

text \<open>Room for all matches and a callback that never raises: everything sent is called back on.\<close>

lemma tcp_stream_all:
  assumes "td_discover self env = Some (Inr ms)" "length (td_sends self env) \<le> 256" "\<forall>i. raises i = None"
    and "(stream_step tcp_channel raises (td_result self env))\<^sup>*\<^sup>* (stream_start (td_sends self env)) s"
    and "ended s = Some res"
  shows "called s = td_sends self env" "res = Inr (called s)" "subseq ms (called s)" "addresses (called s) = addresses ms"
  using stream_ended_all [OF assms(4,5)] td_run_blocking [OF assms(1)] assms(2,3)
  by (simp_all add: tcp_channel_def join_result_def)

text \<open>
  C13.  Streaming TCP discovery, in every interleaving of the discovery thread and the caller: a run
  that ends has the callbacks and the result of the method's model for some choice of the sends that
  find room; and with at most 256 sends and a callback that never raises it calls back on and
  returns the matches of the blocking method, in order, possibly with repetitions between them.
\<close>

theorem tcp_stream_interleaved:
  assumes "td_ports self \<noteq> []" "td_run self env \<noteq> None"
    and "(stream_step tcp_channel raises (td_result self env))\<^sup>*\<^sup>* (stream_start (td_sends self env)) s"
    and "ended s = Some res"
  shows "(\<exists>room. td_discover_streaming self env room raises = Some (called s, res)) \<and>
    (td_discover self env = Some (Inr ms) \<and> length (td_sends self env) \<le> 256 \<and> (\<forall>i. raises i = None) \<longrightarrow>
       res = Inr (called s) \<and> subseq ms (called s) \<and> addresses (called s) = addresses ms)"
proof (intro conjI impI)
  show "\<exists>room. td_discover_streaming self env room raises = Some (called s, res)"
    using tcp_streaming.interleaved [OF _ assms(3,4)] assms(1,2) by blast
next
  assume h: "td_discover self env = Some (Inr ms) \<and> length (td_sends self env) \<le> 256 \<and> (\<forall>i. raises i = None)"
  then show "res = Inr (called s)" "subseq ms (called s)" "addresses (called s) = addresses ms"
    using tcp_stream_all [OF _ _ _ assms(3,4)] by simp_all
qed

theorem tcp_stream_interleaved_witness:
  "\<exists>room log res. td_discover_streaming (sample_td [''10.0.0.4/30''] None True) sample_disc room (\<lambda>_. None) =
     Some (log, res)"
proof -
  let ?self = "sample_td [''10.0.0.4/30''] None True"
  obtain ms st' where "run_discovery sample_disc (td_params ?self) None scan_start = Some (Returns (Inr ms), st')"
    by (rule sample_runs)
  then have run: "td_run ?self sample_disc \<noteq> None"
    by (simp add: td_run_def)
  have "0 < tcp_channel"
    by (simp add: tcp_channel_def)
  then obtain s res where "(stream_step tcp_channel (\<lambda>_. None) (td_result ?self sample_disc))\<^sup>*\<^sup>*
      (stream_start (td_sends ?self sample_disc)) s" "ended s = Some res"
    by (rule stream_ends)
  from tcp_stream_interleaved [OF _ run this, of undefined] show ?thesis
    by auto
qed

section \<open>A device is called back on\<close>

text \<open>
  C17.  A device on the network reaches the callback.  With the assumptions under which \<open>discover\<close> finds
  a device (C1: a usable number of permits, no token seen set, no preferred host that answers, and a
  sweep that gets to the device), a callback that never raises and a discovery that sends at most 256
  matches, which is the bound of the channel, every run of the two threads of \<open>discover_streaming\<close>
  that ends has called back on the device, with its host and port, and returns what it called back on,
  in whatever order the probes complete and the threads interleave.
\<close>

theorem tcp_stream_finds:
  assumes "td_new single self0 = Inr self"
    and "0 < td_max_concurrent self0" "td_max_concurrent self0 \<le> max_permits"
    and "td_in_reach self env ip q"
    and "length (td_sends self env) \<le> 256" "\<forall>i. raises i = None"
    and "(stream_step tcp_channel raises (td_result self env))\<^sup>*\<^sup>* (stream_start (td_sends self env)) s"
    and "ended s = Some res"
  shows "res = Inr (called s) \<and>
    (\<exists>m \<in> set (called s). transport m = Tcp \<and> host m = Some (show_ipv4 ip) \<and> port m = Some q)"
proof -
  obtain ms m where ms: "td_discover self env = Some (Inr ms)" "m \<in> set ms"
    "address m = show_sock (SockAddr (IpV4 ip) q)" "\<forall>m \<in> set ms. transport m = Tcp"
    by (rule td_discover_finds [OF assms(1-4)])
  then have "transport m = Tcp \<and> host m = Some (show_ipv4 ip) \<and> port m = Some q"
    using host_port_address [of m] by (auto simp del: show_sock.simps)
  moreover have "res = Inr (called s)" "subseq ms (called s)"
    using tcp_stream_all [OF ms(1) assms(5-8)] by simp_all
  ultimately show ?thesis
    using ms(2) by (auto dest: list_emb_set)
qed

text \<open>
  How much a sweep sends: without mDNS and SSDP exactly what the scan returns, and a scan returns no
  more matches than it made probes.
\<close>

interpretation counts: scan_invariant env cfg nets tx
  "\<lambda>acc. length (fst acc) \<le> length (dialled_addrs (snd acc))" for env cfg nets tx
proof
  fix ms :: "device_match list" and st st1 addrs found f
  assume inv: "length (fst (ms, st)) \<le> length (dialled_addrs (snd (ms, st)))"
    and run: "run_batch env cfg addrs st = Some (found, st1)"
  obtain spawned st0 where "found = join_all (joins env (batches st))
      (dialled.reports (sc_params cfg) None (tasks_from env (clock st) spawned))"
    "st1 = st0\<lparr>clock := clock st + length spawned, batches := Suc (batches st),
      dialled_addrs := dialled_addrs st @ spawned\<rparr>"
    using run_batch_Some [OF run] by blast
  moreover have "length (join_all order (dialled.reports (sc_params cfg) None (tasks_from env n spawned))) \<le> length spawned"
    for order n
    by (simp add: join_all_def List.map_filter_def dialled.reports_def tasks_from_def
        le_trans [OF length_filter_le])
  ultimately show "length (fst (forward tx (map f found) (ms, st1))) \<le>
      length (dialled_addrs (snd (forward tx (map f found) (ms, st1))))"
    using inv by (simp add: forward_def add_mono)
qed (auto simp: poll_token_def)

lemma td_sends_swept:
  assumes "td_preferred_host self = None" "\<not> td_use_mdns self" "\<not> td_use_ssdp self"
    and "td_discover self env = Some (Inr ms)"
    and "sweep_subnets env (td_params self) = Returns (Inr targets)"
  obtains swept st' where
    "scan_subnets (net_env env) (dp_scan (td_params self)) None targets scan_start = Some (Returns (Inr swept), st')"
    "td_sends self env = swept"
proof -
  let ?p = "td_params self" and ?tx = "Some (\<lambda>_. True)"
  have p: "dp_preferred ?p = None" "\<not> dp_use_mdns ?p" "\<not> dp_use_ssdp ?p"
    using assms(1-3) by (simp_all add: td_params_def)
  then have stages: "try_preferred env ?p tx scan_start = (Inr None, scan_start)"
    "named_stage env ?p tx scan_start = (Inr [], scan_start)" for tx
    by (simp_all add: try_preferred_def named_stage_def)
  obtain st0 where blocking: "run_discovery env ?p None scan_start = Some (Returns (Inr ms), st0)"
    using td_discover_run [OF assms(4)] by blast
  then obtain r st' where r: "scan_subnets (net_env env) (dp_scan ?p) None targets scan_start =
      Some (Returns r, st')" "map_sum id (append_new []) r = Inr ms"
    using stages [of None] assms(5)
    by (auto simp: run_discovery_def outcome_map_Returns split: outcome.splits sum.splits)
  then obtain swept where swept: "scan_subnets (net_env env) (dp_scan ?p) None targets scan_start =
      Some (Returns (Inr swept), st')"
    by (cases r) auto
  obtain st1 where "run_discovery env ?p ?tx scan_start = Some (Returns (Inr ms), st1)"
    by (rule td_run_with [of self env "Returns (Inr ms)" st0]) (use blocking in \<open>simp add: td_run_def\<close>)
  from swept_sends [OF this stages] this have "td_sends self env = swept_by env ?p (forget scan_start)"
    by (simp add: td_sends_def send_all_room sender_new_def)
  then show thesis
    using that swept assms(5) by (simp add: swept_by_def)
qed

lemma scan_count:
  assumes "scan_subnets env cfg tx subnets scan_start = Some (Returns (Inr ms), st')"
  shows "length ms \<le> length (dialled_addrs st')"
  using scan_subnets_Inr [OF assms] counts.scan_nets_keeps [of scan_start env cfg tx _ "(ms, st')"] by auto

text \<open>The example's device as the only host of a configured subnet.\<close>

abbreviation narrow_td :: tcp_discovery where
  "narrow_td \<equiv> sample_td [''10.0.0.7/32''] None False"

abbreviation narrow_net :: cidr where
  "narrow_net \<equiv> (Ipv4 10 0 0 7, 32)"

lemma narrow_fields:
  "td_new None narrow_td = Inr narrow_td" "td_preferred_host narrow_td = None"
  "0 < td_max_concurrent narrow_td" "td_max_concurrent narrow_td \<le> max_permits"
  "\<not> td_use_mdns narrow_td" "\<not> td_use_ssdp narrow_td"
  "td_subnets narrow_td = [''10.0.0.7/32'']" "td_ports narrow_td = [502]"
  "dp_scan (td_params narrow_td) = sample_cfg None" "dp_subnets (td_params narrow_td) = [''10.0.0.7/32'']"
  by (simp_all add: td_new_def Let_def sample_td_def max_permits_def td_params_def sample_cfg_def sample_tcp_def)

lemma narrow_parse: "cidr_parse ''10.0.0.7/32'' = Inr narrow_net"
  by code_simp

lemma narrow_hosts: "cidr_hosts narrow_net = [IpV4 (Ipv4 10 0 0 7)]"
  by (simp add: cidr_hosts_def block_def Let_def nat_ip_def)

lemma narrow_in_reach: "td_in_reach narrow_td calm_disc (Ipv4 10 0 0 7) 502"
proof -
  have env: "ipnet (net_env calm_disc) = cidr_api" "icmp_opened (net_env calm_disc) = False"
    "flag (net_env calm_disc) n = False" "dial (net_env calm_disc) = dial (sample_env False)" for n
    by (simp_all add: calm_disc_def sample_disc_def)
  have "\<exists>m. probe_found (net_env calm_disc) (sample_cfg None) n (SockAddr (IpV4 (Ipv4 10 0 0 7)) 502) m" for n
    using sample_answer [of False n] by (simp add: probe_found_def sample_addr_def env(4) sample_cfg_def)
  moreover have "calm (net_env calm_disc) (sample_cfg None)"
    by (simp add: calm_def env(3))
  ultimately show ?thesis
    unfolding td_in_reach_def td_swept_def narrow_fields env(1)
    using cidr_laws by (simp add: sweep_sees_def preferred_silent_def env(2) narrow_parse narrow_hosts)
qed

lemma narrow_priority:
  "build_priority_addrs cidr_api [narrow_net] [502] True [(Ipv4 10 0 0 7, Mac 2 0 0 0 0 1)] =
     ([sample_addr], arp_macs cidr_api [narrow_net] [(Ipv4 10 0 0 7, Mac 2 0 0 0 0 1)], [])"
proof -
  have "arp_addrs cidr_api [narrow_net] [502] [(Ipv4 10 0 0 7, Mac 2 0 0 0 0 1)] = [sample_addr]"
    by (simp add: arp_addrs_def first_net_def block_def sample_addr_def)
  moreover have "heuristic_addrs cidr_api [narrow_net] [502] {sample_addr} = []"
    by (simp add: heuristic_addrs_def heuristic_ips_def priority_last_octets_def block_def
        cidr_network_def nat_ip_def)
  ultimately show ?thesis
    by (simp add: build_priority_addrs_eq Let_def sample_cache)
qed

lemma narrow_sends: "length (td_sends narrow_td calm_disc) \<le> 1"
proof -
  have env: "ipnet (net_env calm_disc) = cidr_api" "icmp_opened (net_env calm_disc) = False"
    "flag (net_env calm_disc) n = False" "arp_table (net_env calm_disc) = [(Ipv4 10 0 0 7, Mac 2 0 0 0 0 1)]" for n
    by (simp_all add: calm_disc_def sample_disc_def)
  obtain ms m where found: "td_discover narrow_td calm_disc = Some (Inr ms)" "m \<in> set ms"
    "address m = show_sock (SockAddr (IpV4 (Ipv4 10 0 0 7)) 502)" "\<forall>m \<in> set ms. transport m = Tcp"
    by (rule td_discover_finds [OF narrow_fields(1,3,4) narrow_in_reach])
  have "sweep_subnets calm_disc (td_params narrow_td) = Returns (Inr [''10.0.0.7/32''])"
    by (simp add: sweep_subnets_def narrow_fields)
  then obtain swept st' where swept: "scan_subnets (net_env calm_disc) (sample_cfg None) None [''10.0.0.7/32''] scan_start =
      Some (Returns (Inr swept), st')" "td_sends narrow_td calm_disc = swept"
    using td_sends_swept [OF narrow_fields(2,5,6) found(1)] unfolding narrow_fields by blast
  have calm: "calm (net_env calm_disc) (sample_cfg None)"
    by (simp add: calm_def env(3))
  obtain ms' st'' where
    "scan_subnets (net_env calm_disc) (sample_cfg None) None [''10.0.0.7/32''] scan_start = Some (Returns (Inr ms'), st'')"
    "dialled_addrs st'' = dialled_addrs scan_start @ [sample_addr] @ [] @
      sweep_targets (net_env calm_disc) (sample_cfg None) [narrow_net] (set [sample_addr] \<union> set [])"
    by (rule scan_calm [OF calm, where subnets = "[''10.0.0.7/32'']" and nets = "[narrow_net]" and tx = None
          and st = scan_start and heur = "[]" and arp = "[sample_addr]"
          and macs = "arp_macs cidr_api [narrow_net] [(Ipv4 10 0 0 7, Mac 2 0 0 0 0 1)]"])
      (simp_all add: env narrow_parse narrow_priority)
  moreover have "sweep_targets (net_env calm_disc) (sample_cfg None) [narrow_net] {sample_addr} = []"
    by (simp add: sweep_targets_def ping_sweep_sync_def env host_iter_def narrow_hosts sample_addr_def)
  ultimately have "length (dialled_addrs st') = 1"
    using swept(1) by simp
  then show ?thesis
    using scan_count [OF swept(1)] swept(2) by simp
qed

theorem tcp_stream_finds_witness:
  "\<exists>s. (stream_step tcp_channel (\<lambda>_. None) (td_result narrow_td calm_disc))\<^sup>*\<^sup>*
       (stream_start (td_sends narrow_td calm_disc)) s \<and> ended s = Some (Inr (called s)) \<and>
     (\<exists>m \<in> set (called s). host m = Some ''10.0.0.7'' \<and> port m = Some 502)"
proof -
  obtain s res where s: "(stream_step tcp_channel (\<lambda>_. None) (td_result narrow_td calm_disc))\<^sup>*\<^sup>*
      (stream_start (td_sends narrow_td calm_disc)) s" "ended s = Some res"
    by (rule stream_ends [of tcp_channel]) (simp add: tcp_channel_def)
  have "length (td_sends narrow_td calm_disc) \<le> 256"
    using narrow_sends by simp
  from tcp_stream_finds [OF narrow_fields(1,3,4) narrow_in_reach this _ s]
  have "res = Inr (called s) \<and> (\<exists>m \<in> set (called s). transport m = Tcp \<and>
      host m = Some (show_ipv4 (Ipv4 10 0 0 7)) \<and> port m = Some 502)"
    by simp
  moreover have "show_ipv4 (Ipv4 10 0 0 7) = ''10.0.0.7''"
    by code_simp
  ultimately show ?thesis
    using s by auto
qed

end
