(* ===== verification/Task_Pool.thy ===== *)
theory Task_Pool
  imports Tcp_Results
begin

text \<open>
  The concurrency of \<open>run_batch\<close> of \<open>src/tcp/scan.rs\<close>, step by step: the loop spawns tasks, a task
  takes a permit of the semaphore, probes, gives the permit back and is joined.  Every
  interleaving is one of the runs of the batch that the scan is modelled with.
\<close>

section \<open>Steps\<close>

text \<open>
  A task is a numbered address.  \<open>queued\<close> is what the loop has still to spawn, \<open>finished\<close> the tasks
  in the order they completed.
\<close>

type_synonym task = "nat \<times> sock_addr"

record pool =
  queued :: "task list"
  waiting :: "task list"
  running :: "task list"
  finished :: "task list"
  permits :: nat

definition pool_start :: "nat \<Rightarrow> task list \<Rightarrow> pool" where
  "pool_start n tasks = \<lparr>queued = tasks, waiting = [], running = [], finished = [], permits = n\<rparr>"

text \<open>The loop stops early when it reads a token that is set.\<close>

inductive pool_step :: "token option \<Rightarrow> pool \<Rightarrow> pool \<Rightarrow> bool" for tok where
  spawn: "queued s = t # ts \<Longrightarrow> pool_step tok s (s\<lparr>queued := ts, waiting := waiting s @ [t]\<rparr>)"
| stop: "queued s \<noteq> [] \<Longrightarrow> tok \<noteq> None \<Longrightarrow> pool_step tok s (s\<lparr>queued := []\<rparr>)"
| acquire: "waiting s = xs @ t # ys \<Longrightarrow> 0 < permits s \<Longrightarrow>
    pool_step tok s (s\<lparr>waiting := xs @ ys, running := t # running s, permits := permits s - 1\<rparr>)"
| complete: "running s = xs @ t # ys \<Longrightarrow>
    pool_step tok s (s\<lparr>running := xs @ ys, finished := finished s @ [t], permits := Suc (permits s)\<rparr>)"

inductive_cases pool_stepE: "pool_step tok s s'"

text \<open>Joined: the loop is over and every spawned task has completed.\<close>

definition pool_done :: "pool \<Rightarrow> bool" where
  "pool_done s = (queued s = [] \<and> waiting s = [] \<and> running s = [])"

section \<open>The invariant\<close>

text \<open>
  Every permit is held by a running task or free, and the tasks spawned so far, a beginning of the
  batch, are waiting, running or finished.
\<close>

definition pool_inv :: "nat \<Rightarrow> task list \<Rightarrow> token option \<Rightarrow> pool \<Rightarrow> bool" where
  "pool_inv n tasks tok s =
     (length (running s) + permits s = n \<and>
      (\<exists>spawned rest. tasks = spawned @ rest \<and>
         mset spawned = mset (waiting s) + mset (running s) + mset (finished s) \<and>
         (queued s = rest \<or> queued s = [] \<and> tok \<noteq> None)))"

lemma pool_inv_start: "pool_inv n tasks tok (pool_start n tasks)"
  by (simp add: pool_inv_def pool_start_def)

lemma pool_inv_step:
  assumes "pool_step tok s s'" "pool_inv n tasks tok s"
  shows "pool_inv n tasks tok s'"
  using assms
proof (induction rule: pool_step.induct)
  case (spawn s t ts)
  then obtain spawned where "tasks = spawned @ t # ts"
    "mset spawned = mset (waiting s) + mset (running s) + mset (finished s)"
    "length (running s) + permits s = n"
    by (auto simp: pool_inv_def)
  then show ?case
    unfolding pool_inv_def by (intro conjI exI [of _ "spawned @ [t]"] exI [of _ ts]) simp_all
next
  case (stop s)
  then show ?case
    by (auto simp: pool_inv_def)
next
  case (acquire s xs t ys)
  then show ?case
    by (auto simp: pool_inv_def)
next
  case (complete s xs t ys)
  then show ?case
    by (auto simp: pool_inv_def)
qed

lemma pool_inv_reachable: "(pool_step tok)\<^sup>*\<^sup>* (pool_start n tasks) s \<Longrightarrow> pool_inv n tasks tok s"
  by (induction rule: rtranclp_induct) (auto simp: pool_inv_start intro: pool_inv_step)

text \<open>How much is left to do.\<close>

definition work_left :: "pool \<Rightarrow> nat" where
  "work_left s = 3 * length (queued s) + 2 * length (waiting s) + length (running s)"

lemma work_decreases: "pool_step tok s s' \<Longrightarrow> work_left s' < work_left s"
  by (elim pool_stepE) (auto simp: work_left_def)

lemma pool_progress:
  assumes "length (running s) + permits s = n" "0 < n" "\<not> pool_done s"
  shows "\<exists>s'. pool_step tok s s'"
proof (cases "queued s")
  case (Cons t ts)
  then show ?thesis using spawn by blast
next
  case Nil
  show ?thesis
  proof (cases "running s")
    case (Cons t ts)
    then show ?thesis using complete [of s "[]" t ts tok] by auto
  next
    case no_running: Nil
    then obtain t ts where "waiting s = t # ts" "0 < permits s"
      using assms Nil by (cases "waiting s") (auto simp: pool_done_def)
    then show ?thesis using acquire [of s "[]" t ts tok] by auto
  qed
qed

text \<open>
  C16.  In every interleaving at most as many probes hold a connection at a time as there are
  permits.  With at least one permit a batch is never stuck before all its tasks are joined and
  has at most three steps per address; without permits no task ever completes, so that a batch
  with a spawned task is never joined.
\<close>

theorem pool_bounded:
  assumes "(pool_step tok)\<^sup>*\<^sup>* (pool_start n tasks) s"
  shows "length (running s) \<le> n \<and>
    (0 < n \<and> \<not> pool_done s \<longrightarrow> (\<exists>s'. pool_step tok s s')) \<and>
    ((pool_step tok ^^ k) (pool_start n tasks) s \<longrightarrow> k \<le> 3 * length tasks) \<and>
    (n = 0 \<longrightarrow> finished s = [] \<and> running s = [])"
proof (intro conjI impI)
  have inv: "length (running s) + permits s = n"
    using pool_inv_reachable [OF assms] unfolding pool_inv_def by (rule conjunct1)
  then show "length (running s) \<le> n"
    by simp
  show "\<exists>s'. pool_step tok s s'" if "0 < n \<and> \<not> pool_done s"
    using pool_progress [OF inv] that by simp
  show "k \<le> 3 * length tasks" if run: "(pool_step tok ^^ k) (pool_start n tasks) s"
  proof -
    have "k + work_left s \<le> work_left (pool_start n tasks)"
      using run
    proof (induction k arbitrary: s)
      case 0
      then show ?case by simp
    next
      case (Suc k)
      then obtain y where "(pool_step tok ^^ k) (pool_start n tasks) y" "pool_step tok y s" by auto
      then have "k + work_left y \<le> work_left (pool_start n tasks)" "work_left s < work_left y"
        using Suc.IH work_decreases by blast+
      then show ?case by simp
    qed
    then show ?thesis
      by (simp add: work_left_def pool_start_def)
  qed
  assume "n = 0"
  have "running s = [] \<and> permits s = 0 \<and> finished s = []"
    using assms
  proof (induction rule: rtranclp_induct)
    case base
    then show ?case by (simp add: pool_start_def \<open>n = 0\<close>)
  next
    case (step y z)
    from step(2,3) show ?case
      by (induction rule: pool_step.induct) auto
  qed
  then show "finished s = []" "running s = []"
    by simp_all
qed

theorem pool_bounded_witness:
  "\<exists>s. pool_step None (pool_start 1 [(0, sample_addr)]) s"
proof -
  have "(pool_step None)\<^sup>*\<^sup>* (pool_start 1 [(0, sample_addr)]) (pool_start 1 [(0, sample_addr)])"
    by simp
  from pool_bounded [OF this] show ?thesis
    by (auto simp: pool_done_def pool_start_def)
qed

section \<open>Refinement\<close>

definition probe_task :: "'net tcp_env \<Rightarrow> scan_cfg \<Rightarrow> task \<Rightarrow> probe_result" where
  "probe_task env cfg t = (case t of (n, a) \<Rightarrow> probe_addr (sc_params cfg) None (dial env n a) a)"

lemma spawn_batch_prefix:
  assumes "rest = [] \<or> tok \<noteq> None" "\<And>i. flag env i \<longleftrightarrow> polls st + length spawned \<le> i"
  shows "fst (spawn_batch env tok st (spawned @ rest)) = spawned"
  using assms(2)
proof (induction spawned arbitrary: st)
  case Nil
  then show ?case
    using assms(1) by (cases rest; cases tok) (auto simp: poll_token_def)
next
  case (Cons a spawned)
  then have "fst (spawn_batch env tok (st\<lparr>polls := Suc (polls st)\<rparr>) (spawned @ rest)) = spawned"
    by simp
  moreover have "\<not> flag env (polls st)"
    using Cons.prems by simp
  ultimately show ?case
    by (cases tok) (simp_all add: poll_token_def cancel_seen_def split_def Let_def)
qed

lemma take_enumerate: "enumerate n (xs @ ys) = us @ vs \<Longrightarrow> length us = length xs \<Longrightarrow> us = enumerate n xs"
  by (simp add: enumerate_append_eq)

text \<open>
  C15.  Whatever the interleaving, once the tasks are joined the batch has one of the results of
  \<open>run_batch\<close>: for some reads of the token and some completion order, the model's batch answers
  with exactly the matches of the tasks in the order in which they completed.
\<close>

theorem pool_refines_batch:
  assumes "(pool_step (sc_token cfg))\<^sup>*\<^sup>*
      (pool_start (sc_max_concurrent cfg) (enumerate (clock st) addrs)) s"
    and "pool_done s" "0 < sc_max_concurrent cfg"
  shows "\<exists>flags orders st'. run_batch (env\<lparr>flag := flags, joins := orders\<rparr>) cfg addrs st =
    Some (List.map_filter joined_match (map (probe_task env cfg) (finished s)), st')"
proof -
  obtain spawned rest where tasks: "enumerate (clock st) addrs = spawned @ rest"
    and perm: "mset spawned = mset (finished s)" and cut: "rest = [] \<or> sc_token cfg \<noteq> None"
    using pool_inv_reachable [OF assms(1)] assms(2) by (auto simp: pool_inv_def pool_done_def)
  let ?as = "take (length spawned) addrs" and ?bs = "drop (length spawned) addrs"
  have "length addrs = length spawned + length rest"
    using arg_cong [OF tasks, of length] by simp
  then have len: "length ?as = length spawned" and bs: "?bs = [] \<or> sc_token cfg \<noteq> None"
    using cut by auto
  have spawned: "spawned = enumerate (clock st) ?as"
    using take_enumerate [of "clock st" ?as ?bs spawned rest] tasks len by simp
  define flags where "flags i = (polls st + length spawned \<le> i)" for i
  have "mset (map (probe_task env cfg) (finished s)) = mset (map (probe_task env cfg) spawned)"
    using perm by simp
  then obtain order where order: "pick_order order (map (probe_task env cfg) spawned) =
      map (probe_task env cfg) (finished s)"
    using pick_order_complete by blast
  let ?env = "env\<lparr>flag := flags, joins := \<lambda>n. order\<rparr>"
  have "fst (spawn_batch ?env (sc_token cfg) st (?as @ ?bs)) = ?as"
    by (rule spawn_batch_prefix [OF bs]) (simp add: flags_def len del: length_take)
  then obtain st1 where sp: "spawn_batch ?env (sc_token cfg) st addrs = (?as, st1)"
    by (metis append_take_drop_id prod.collapse)
  have "clock st1 = clock st" "batches st1 = batches st"
    using spawn_batch_state [OF sp] by simp_all
  moreover have "(\<lambda>(n, a). probe_addr (sc_params cfg) None (dial ?env n a) a) = probe_task env cfg"
    by (simp add: fun_eq_iff probe_task_def)
  then have "map (\<lambda>(n, a). probe_addr (sc_params cfg) None (dial ?env n a) a) (enumerate (clock st) ?as) =
      map (probe_task env cfg) spawned"
    using spawned by metis
  ultimately have "\<exists>st'. run_batch ?env cfg addrs st = Some (join_all order (map (probe_task env cfg) spawned), st')"
    using sp assms(3) by (simp add: run_batch_def Let_def)
  then show ?thesis
    unfolding join_all_def order by blast
qed

lemma one_task:
  "(pool_step None)\<^sup>*\<^sup>* (pool_start 4 [t]) ((pool_start 4 [])\<lparr>finished := [t]\<rparr>)"
proof -
  let ?s1 = "(pool_start 4 [])\<lparr>waiting := [t]\<rparr>"
  let ?s2 = "(pool_start 3 [])\<lparr>running := [t]\<rparr>"
  have "pool_step None (pool_start 4 [t]) ?s1"
    using spawn [of "pool_start 4 [t]" t "[]" None] by (simp add: pool_start_def)
  moreover have "pool_step None ?s1 ?s2"
    using acquire [of ?s1 "[]" t "[]" None] by (simp add: pool_start_def)
  moreover have "pool_step None ?s2 ((pool_start 4 [])\<lparr>finished := [t]\<rparr>)"
    using complete [of ?s2 "[]" t "[]" None] by (simp add: pool_start_def)
  ultimately show ?thesis
    by (meson converse_rtranclp_into_rtranclp rtranclp.rtrancl_refl)
qed

theorem pool_refines_batch_witness:
  "\<exists>flags orders st'. run_batch ((sample_env False)\<lparr>flag := flags, joins := orders\<rparr>) (sample_cfg None)
     [sample_addr] scan_start = Some ([build_match sample_addr [79, 75] None], st')"
proof -
  let ?s = "(pool_start 4 [])\<lparr>finished := [(0 :: nat, sample_addr)]\<rparr>"
  have "(pool_step (sc_token (sample_cfg None)))\<^sup>*\<^sup>*
      (pool_start (sc_max_concurrent (sample_cfg None)) (enumerate (clock scan_start) [sample_addr])) ?s"
    using one_task [of "(0, sample_addr)"] by simp
  moreover have "joined_match (probe_task (sample_env False) (sample_cfg None) (0, sample_addr)) =
      Some (build_match sample_addr [79, 75] None)"
    using sample_answer [of False 0] by (simp add: probe_task_def joined_match_Some)
  ultimately show ?thesis
    using pool_refines_batch [of "sample_cfg None" scan_start "[sample_addr]" ?s "sample_env False"]
    by (simp add: pool_done_def pool_start_def map_filter_simps)
qed

end
