(* ===== verification/Runtime.thy ===== *)
theory Runtime
  imports Device_Match
begin

text \<open>
  \<open>src/runtime.rs\<close> and the module initialisation of \<open>src/lib.rs\<close>: the process-wide Tokio runtime,
  built at most once, with its number of workers and thread name from two environment variables.
  Building a runtime is Tokio's: it panics for zero workers, as documented, and may fail.
\<close>

section \<open>Configuration\<close>

text \<open>
  What a call sees: the two variables (\<open>None\<close> when unset or not Unicode), the result of
  \<open>available_parallelism\<close> (never zero when it is known), the error of building a runtime if it
  fails, and the runtime another thread stored meanwhile, if any.
\<close>

record tokio_runtime =
  rt_threads :: nat
  rt_name :: string

record rt_call =
  threads_var :: "string option"
  name_var :: "string option"
  parallelism :: "nat option"
  build_error :: "string option"
  raced :: "tokio_runtime option"

definition usize_from_str :: "string \<Rightarrow> nat option" where
  "usize_from_str s = from_str_radix 64 10 s"

definition worker_threads :: "rt_call \<Rightarrow> nat" where
  "worker_threads c =
     (let parsed = Option.bind (threads_var c) usize_from_str
      in case parsed of
           Some n \<Rightarrow> n
         | None \<Rightarrow> min (case parallelism c of None \<Rightarrow> 2 | Some n \<Rightarrow> n) 2)"

section \<open>The two cells\<close>

record process =
  runtime_cell :: "tokio_runtime option"
  name_cell :: "string option"

definition process_start :: process where
  "process_start = \<lparr>runtime_cell = None, name_cell = None\<rparr>"

definition thread_name :: "rt_call \<Rightarrow> process \<Rightarrow> string \<times> process" where
  "thread_name c st =
     (case name_cell st of
        Some n \<Rightarrow> (n, st)
      | None \<Rightarrow>
          (let n = (case name_var c of None \<Rightarrow> ''dafydd-worker'' | Some v \<Rightarrow> v)
           in (n, st\<lparr>name_cell := Some n\<rparr>)))"

text \<open>\<open>Builder::new_multi_thread() .. build()\<close>.\<close>

definition build_runtime :: "rt_call \<Rightarrow> nat \<Rightarrow> string \<Rightarrow> (string + tokio_runtime) outcome" where
  "build_runtime c threads name =
     (if threads = 0 then Panics
      else (case build_error c of
              Some e \<Rightarrow> Returns (Inl e)
            | None \<Rightarrow> Returns (Inr \<lparr>rt_threads = threads, rt_name = name\<rparr>)))"

definition try_init_runtime :: "rt_call \<Rightarrow> process \<Rightarrow> (string + unit) outcome \<times> process" where
  "try_init_runtime c st =
     (if runtime_cell st = None
      then (let threads = worker_threads c;
                (name, st) = thread_name c st
            in case build_runtime c threads name of
                 Panics \<Rightarrow> (Panics, st)
               | Returns (Inl e) \<Rightarrow> (Returns (Inl e), st)
               | Returns (Inr rt) \<Rightarrow>
                   (Returns (Inr ()),
                    st\<lparr>runtime_cell := Some (case raced c of Some other \<Rightarrow> other | None \<Rightarrow> rt)\<rparr>))
      else (Returns (Inr ()), st))"

definition runtime :: "rt_call \<Rightarrow> process \<Rightarrow> tokio_runtime outcome \<times> process" where
  "runtime c st =
     (case runtime_cell st of
        Some rt \<Rightarrow> (Returns rt, st)
      | None \<Rightarrow>
          (let threads = worker_threads c;
               (name, st) = thread_name c st
           in case build_runtime c threads name of
                Returns (Inr rt) \<Rightarrow> (Returns rt, st\<lparr>runtime_cell := Some rt\<rparr>)
              | _ \<Rightarrow> (Panics, st)))"

text \<open>\<open>runtime_handle\<close>: the handle names the runtime it was taken from.\<close>

datatype rt_handle = Handle tokio_runtime

definition runtime_handle :: "rt_call \<Rightarrow> process \<Rightarrow> rt_handle outcome \<times> process" where
  "runtime_handle c st =
     (case runtime c st of
        (Panics, st) \<Rightarrow> (Panics, st)
      | (Returns rt, st) \<Rightarrow> (Returns (Handle rt), st))"

section \<open>The module\<close>

text \<open>
  Importing the module starts the runtime and registers the classes and the function, in this
  order.  A failure is a Python exception; \<open>add\<close> is the interpreter's answer to a registration.
\<close>

definition module_names :: "string list" where
  "module_names =
     [''Transport'', ''DeviceMatch'', ''CancellationToken'', ''SerialDiscovery'', ''UsbDiscovery'',
      ''TcpDiscovery'', ''local_subnets'']"

fun add_all :: "(string \<Rightarrow> py_err option) \<Rightarrow> string list \<Rightarrow> string list \<Rightarrow> py_err + string list" where
  "add_all add [] m = Inr m"
| "add_all add (n # ns) m =
     (case add n of
        Some e \<Rightarrow> Inl e
      | None \<Rightarrow> add_all add ns (m @ [n]))"

definition module_init ::
  "rt_call \<Rightarrow> (string \<Rightarrow> py_err option) \<Rightarrow> process \<Rightarrow> (py_err + string list) \<times> process" where
  "module_init c add st =
     (case try_init_runtime c st of
        (Panics, st) \<Rightarrow> (Inl PanicException, st)
      | (Returns (Inl e), st) \<Rightarrow> (Inl (PyRuntimeError e), st)
      | (Returns (Inr _), st) \<Rightarrow> (add_all add module_names [], st))"

section \<open>Facts\<close>

text \<open>A call of either function, as a step of the process.\<close>

datatype rt_op = TryInit rt_call | Runtime rt_call

fun rt_step :: "process \<Rightarrow> rt_op \<Rightarrow> process" where
  "rt_step st (TryInit c) = snd (try_init_runtime c st)"
| "rt_step st (Runtime c) = snd (runtime c st)"

lemma rt_step_keeps: "runtime_cell st = Some rt \<Longrightarrow> rt_step st op = st"
  by (cases op) (simp_all add: try_init_runtime_def runtime_def)

lemma rt_steps_keep: "runtime_cell st = Some rt \<Longrightarrow> foldl rt_step st ops = st"
  by (induction ops) (simp_all add: rt_step_keeps)

lemma worker_threads_zero:
  assumes "parallelism c \<noteq> Some 0"
  shows "worker_threads c = 0 \<longleftrightarrow> (\<exists>v. threads_var c = Some v \<and> usize_from_str v = Some 0)"
  using assms by (auto simp: worker_threads_def Let_def bind_eq_Some_conv split: option.split)

lemma init_stores:
  assumes "try_init_runtime c st = (Returns (Inr ()), st1)"
  obtains rt where "runtime_cell st1 = Some rt"
  using assms
  by (auto simp: try_init_runtime_def Let_def split: if_splits prod.splits outcome.splits sum.splits)

lemma add_all_cases:
  "add_all add ns m = (case List.find (\<lambda>n. add n \<noteq> None) ns of None \<Rightarrow> Inr (m @ ns) | Some n \<Rightarrow> Inl (the (add n)))"
  by (induction ns arbitrary: m) (auto split: option.split)

lemma add_all_error: "add_all add ns m = Inl e \<Longrightarrow> \<exists>n. add n = Some e"
  unfolding add_all_cases by (auto split: option.splits simp: find_Some_iff)

lemma add_all_Inr: "add_all add ns m = Inr m' \<Longrightarrow> m' = m @ ns"
  unfolding add_all_cases by (auto split: option.splits)

text \<open>
  C39.  The process has one runtime: once a call has started it, every later sequence of calls
  leaves it in place and every use returns that same runtime.  Without the variable it has one or
  two workers; importing the module on a fresh process panics exactly when the variable asks
  for zero workers, as long as the registrations do not; and an import that succeeds has registered
  everything and leaves a runtime whose handle is the one every later call gets.
\<close>

theorem runtime_once:
  assumes "parallelism c \<noteq> Some 0"
  shows "(try_init_runtime c st = (Returns (Inr ()), st1) \<longrightarrow>
      (\<exists>rt. runtime_cell st1 = Some rt \<and> runtime c' (foldl rt_step st1 ops) = (Returns rt, st1) \<and>
         try_init_runtime c' (foldl rt_step st1 ops) = (Returns (Inr ()), st1))) \<and>
    (threads_var c = None \<longrightarrow> worker_threads c \<in> {1, 2}) \<and>
    ((\<forall>n. add n \<noteq> Some PanicException) \<longrightarrow> (fst (module_init c add process_start) = Inl PanicException \<longleftrightarrow>
      (\<exists>v. threads_var c = Some v \<and> usize_from_str v = Some 0))) \<and>
    (module_init c add st = (Inr names, st2) \<longrightarrow> names = module_names \<and>
      (\<exists>rt. runtime_cell st2 = Some rt \<and> runtime_handle c' (foldl rt_step st2 ops) = (Returns (Handle rt), st2)))"
proof (intro conjI impI)
  assume "try_init_runtime c st = (Returns (Inr ()), st1)"
  then obtain rt where "runtime_cell st1 = Some rt"
    by (rule init_stores)
  then show "\<exists>rt. runtime_cell st1 = Some rt \<and> runtime c' (foldl rt_step st1 ops) = (Returns rt, st1) \<and>
      try_init_runtime c' (foldl rt_step st1 ops) = (Returns (Inr ()), st1)"
    using rt_steps_keep [of st1 rt ops] by (simp add: runtime_def try_init_runtime_def)
next
  show "threads_var c = None \<Longrightarrow> worker_threads c \<in> {1, 2}"
    using assms by (auto simp: worker_threads_def split: option.split)
next
  assume quiet: "\<forall>n. add n \<noteq> Some PanicException"
  then have "add_all add module_names [] \<noteq> Inl PanicException"
    using add_all_error by metis
  then have "fst (module_init c add process_start) = Inl PanicException \<longleftrightarrow> worker_threads c = 0"
    by (cases "worker_threads c = 0")
      (simp_all add: module_init_def try_init_runtime_def process_start_def build_runtime_def Let_def
        split: prod.split option.split)
  then show "fst (module_init c add process_start) = Inl PanicException \<longleftrightarrow>
      (\<exists>v. threads_var c = Some v \<and> usize_from_str v = Some 0)"
    using worker_threads_zero [OF assms] by simp
next
  assume "module_init c add st = (Inr names, st2)"
  then have init: "try_init_runtime c st = (Returns (Inr ()), st2)" "add_all add module_names [] = Inr names"
    by (auto simp: module_init_def split: prod.splits outcome.splits sum.splits)
  then show "names = module_names"
    using add_all_Inr by fastforce
  obtain rt where "runtime_cell st2 = Some rt"
    by (rule init_stores [OF init(1)])
  then show "\<exists>rt. runtime_cell st2 = Some rt \<and> runtime_handle c' (foldl rt_step st2 ops) = (Returns (Handle rt), st2)"
    using rt_steps_keep [of st2 rt ops] by (simp add: runtime_def runtime_handle_def)
qed

definition sample_call :: "string option \<Rightarrow> rt_call" where
  "sample_call var =
     \<lparr>threads_var = var, name_var = None, parallelism = Some 8, build_error = None, raced = None\<rparr>"

theorem runtime_once_witness:
  "fst (module_init (sample_call (Some ''0'')) (\<lambda>_. None) process_start) = Inl PanicException \<and>
   worker_threads (sample_call None) \<in> {1, 2}"
proof -
  have "usize_from_str ''0'' = Some 0"
    by (simp add: usize_from_str_def from_str_radix_def to_digit_def)
  then show ?thesis
    using runtime_once [of "sample_call (Some ''0'')" _ _ _ _ "\<lambda>_. None"] runtime_once [of "sample_call None"]
    by (simp add: sample_call_def)
qed

end
