(* ===== verification/Crate_Tests.thy ===== *)
theory Crate_Tests
  imports Tcp_Details
begin

text \<open>
  The unit tests of the crate on the model: each test of the test modules of \<open>src/types.rs\<close>,
  \<open>src/watch.rs\<close>, \<open>src/net/arp.rs\<close> and \<open>src/tcp/scan.rs\<close> is a definition of its own name, the
  conjunction of its assertions, and passes.  The smoke tests, which only call a function, have no
  counterpart.
\<close>

section \<open>Matches\<close>

definition test_match :: "transport \<Rightarrow> string \<Rightarrow> bytes option \<Rightarrow> device_match" where
  "test_match t a r = \<lparr>transport = t, address = a, response = r, info = Map.empty\<rparr>"

definition test_match_info :: "transport \<Rightarrow> string \<Rightarrow> bytes option \<Rightarrow> string \<Rightarrow> string \<Rightarrow> device_match" where
  "test_match_info t a r k v = \<lparr>transport = t, address = a, response = r, info = [k \<mapsto> v]\<rparr>"

lemmas text_eval = to_digit_def from_str_radix_def u8_from_str_def u16_from_str_def u32_from_str_def
  rsplit_once_def Let_def

lemmas match_eval = test_match_def test_match_info_def host_def port_def vendor_id_def product_id_def
  is_hid_def baud_rate_def text_eval

definition test_device_match_eq :: bool where
  "test_device_match_eq =
     (let dm1 = test_match Tcp ''192.168.1.1:80'' (Some [1, 2, 3]);
          dm2 = test_match Tcp ''192.168.1.1:80'' (Some [1, 2, 3])
      in match_eq dm1 dm2)"

definition test_device_match_neq_response :: bool where
  "test_device_match_neq_response =
     (let dm1 = test_match Tcp ''192.168.1.1:80'' (Some [1, 2, 3]);
          dm2 = test_match Tcp ''192.168.1.1:80'' None
      in \<not> match_eq dm1 dm2)"

definition test_device_match_neq :: bool where
  "test_device_match_neq =
     (let dm1 = test_match Tcp ''192.168.1.1:80'' None;
          dm2 = test_match Tcp ''192.168.1.2:80'' None;
          dm3 = test_match Serial ''192.168.1.1:80'' None
      in \<not> match_eq dm1 dm2 \<and> \<not> match_eq dm1 dm3)"

lemma device_match_eq_tests_pass:
  "test_device_match_eq \<and> test_device_match_neq_response \<and> test_device_match_neq"
  by (simp add: test_device_match_eq_def test_device_match_neq_response_def test_device_match_neq_def
      match_eq_def test_match_def)

text \<open>The hasher is an argument; that two hashes differ holds of a hasher that tells the two apart.\<close>

definition test_device_match_hash :: "(nat \<times> string \<times> bytes option \<Rightarrow> 'h) \<Rightarrow> bool" where
  "test_device_match_hash hasher =
     (let dm1 = test_match Usb ''1234:5678'' (Some [1, 2, 3]);
          dm2 = test_match Usb ''1234:5678'' (Some [1, 2, 3])
      in match_hash hasher dm1 = match_hash hasher dm2)"

definition test_device_match_hash_different_responses :: "(nat \<times> string \<times> bytes option \<Rightarrow> 'h) \<Rightarrow> bool" where
  "test_device_match_hash_different_responses hasher =
     (let dm1 = test_match Usb ''1234:5678'' None;
          dm2 = test_match Usb ''1234:5678'' (Some [0xFF])
      in match_hash hasher dm1 \<noteq> match_hash hasher dm2)"

definition test_hash_eq_invariant :: "(nat \<times> string \<times> bytes option \<Rightarrow> 'h) \<Rightarrow> bool" where
  "test_hash_eq_invariant hasher =
     (let a = test_match_info Tcp ''10.0.0.1:502'' (Some [1, 2, 3]) ''key'' ''value'';
          b = test_match_info Tcp ''10.0.0.1:502'' (Some [1, 2, 3]) ''key'' ''value'';
          c = test_match_info Tcp ''10.0.0.1:502'' (Some [1, 2, 3]) ''key'' ''different''
      in match_eq a b \<and> match_hash hasher a = match_hash hasher b \<and> \<not> match_eq a c \<and>
         match_hash hasher a = match_hash hasher c)"

lemma hash_tests_pass:
  "test_device_match_hash hasher \<and> test_hash_eq_invariant hasher \<and>
    (inj hasher \<longrightarrow> test_device_match_hash_different_responses hasher)"
  by (simp add: test_device_match_hash_def test_hash_eq_invariant_def match_eq_def match_hash_def
      test_device_match_hash_different_responses_def test_match_def test_match_info_def fun_upd_eqD inj_eq)
    (auto dest: fun_upd_eqD)

definition test_device_match_sort :: bool where
  "test_device_match_sort =
     (let dm1 = test_match Serial ''COM1'' None;
          dm2 = test_match Serial ''COM2'' None
      in match_lt dm1 dm2 \<and> \<not> match_lt dm2 dm1)"

lemma test_device_match_sort_passes: "test_device_match_sort"
  by code_simp

definition test_tcp_host_and_port_getters :: bool where
  "test_tcp_host_and_port_getters =
     (let tcp = test_match Tcp ''10.0.0.1:502'' None;
          serial = test_match Serial ''/dev/ttyUSB0'' None;
          usb = test_match Usb ''0x04d8:0x00dd'' None
      in host tcp = Some ''10.0.0.1'' \<and> port tcp = Some 502 \<and> host serial = None \<and> port serial = None \<and>
         host usb = None \<and> port usb = None)"

definition test_usb_vendor_product_getters :: bool where
  "test_usb_vendor_product_getters =
     (let usb = test_match Usb ''0x04d8:0x00dd'' None;
          tcp = test_match Tcp ''10.0.0.1:502'' None
      in vendor_id usb = Some 0x04d8 \<and> product_id usb = Some 0x00dd \<and> vendor_id tcp = None \<and>
         product_id tcp = None)"

definition test_usb_is_hid :: bool where
  "test_usb_is_hid =
     (let hid = test_match_info Usb ''0x04d8:0x00dd'' None ''device_class'' ''3'';
          not_hid = test_match_info Usb ''0x04d8:0x00dd'' None ''device_class'' ''0'';
          tcp = test_match Tcp ''10.0.0.1:502'' None
      in is_hid hid \<and> \<not> is_hid not_hid \<and> \<not> is_hid tcp)"

definition test_serial_baud_rate_getter :: bool where
  "test_serial_baud_rate_getter =
     (let with_baud = test_match_info Serial ''/dev/ttyUSB0'' None ''baud_rate'' ''115200'';
          without_baud = test_match Serial ''/dev/ttyUSB0'' None
      in baud_rate with_baud = Some 115200 \<and> baud_rate without_baud = None)"

lemma getter_tests_pass:
  "test_tcp_host_and_port_getters" "test_usb_vendor_product_getters" "test_usb_is_hid"
  "test_serial_baud_rate_getter"
  by (simp_all add: test_tcp_host_and_port_getters_def test_usb_vendor_product_getters_def
      test_usb_is_hid_def test_serial_baud_rate_getter_def match_eval numeral_3_eq_3)

section \<open>The difference of two polls\<close>

definition make_match :: "string \<Rightarrow> device_match" where
  "make_match a = \<lparr>transport = Tcp, address = a, response = None, info = Map.empty\<rparr>"

definition test_compute_diff_detects_addition :: bool where
  "test_compute_diff_detects_addition =
     (let prev = []; current = [make_match ''10.0.0.1:502''];
          (added, removed) = compute_diff prev current
      in length added = 1 \<and> address (added ! 0) = ''10.0.0.1:502'' \<and> removed = [])"

definition test_compute_diff_detects_removal :: bool where
  "test_compute_diff_detects_removal =
     (let prev = [make_match ''10.0.0.1:502'']; current = [];
          (added, removed) = compute_diff prev current
      in added = [] \<and> length removed = 1 \<and> address (removed ! 0) = ''10.0.0.1:502'')"

definition test_compute_diff_no_spurious_events_for_unchanged :: bool where
  "test_compute_diff_no_spurious_events_for_unchanged =
     (let device = make_match ''10.0.0.1:502''; prev = [device]; current = [device];
          (added, removed) = compute_diff prev current
      in added = [] \<and> removed = [])"

definition test_compute_diff_simultaneous_add_and_remove :: bool where
  "test_compute_diff_simultaneous_add_and_remove =
     (let prev = [make_match ''10.0.0.1:502'']; current = [make_match ''10.0.0.2:502''];
          (added, removed) = compute_diff prev current
      in length added = 1 \<and> address (added ! 0) = ''10.0.0.2:502'' \<and> length removed = 1 \<and>
         address (removed ! 0) = ''10.0.0.1:502'')"

lemma compute_diff_tests_pass:
  "test_compute_diff_detects_addition" "test_compute_diff_detects_removal"
  "test_compute_diff_no_spurious_events_for_unchanged" "test_compute_diff_simultaneous_add_and_remove"
  by (simp_all add: test_compute_diff_detects_addition_def test_compute_diff_detects_removal_def
      test_compute_diff_no_spurious_events_for_unchanged_def
      test_compute_diff_simultaneous_add_and_remove_def compute_diff_def make_match_def)

section \<open>Neighbour tables\<close>

definition test_sa_size_alignment :: bool where
  "test_sa_size_alignment =
     (sa_size 0 = 4 \<and> sa_size 1 = 4 \<and> sa_size 4 = 4 \<and> sa_size 5 = 8 \<and> sa_size 16 = 16 \<and> sa_size 20 = 20)"

definition unwrap_ip :: "string \<Rightarrow> ipv4" where
  "unwrap_ip s = the (parse_ipv4 s)"

definition test_is_unicast_target_filters :: bool where
  "test_is_unicast_target_filters =
     (let valid_mac = Mac 0xaa 0xbb 0xcc 0xdd 0xee 1
      in is_unicast_target (unwrap_ip ''192.168.1.1'') valid_mac \<and>
         \<not> is_unicast_target (unwrap_ip ''192.168.1.1'') (Mac 1 0 0x5e 0 0 0xfb) \<and>
         \<not> is_unicast_target (unwrap_ip ''192.168.1.255'') (Mac 0xff 0xff 0xff 0xff 0xff 0xff) \<and>
         \<not> is_unicast_target (unwrap_ip ''224.0.0.251'') valid_mac \<and>
         \<not> is_unicast_target (unwrap_ip ''127.0.0.1'') valid_mac \<and>
         \<not> is_unicast_target (unwrap_ip ''10.0.0.255'') valid_mac)"

definition test_format_mac_roundtrip :: bool where
  "test_format_mac_roundtrip =
     (let mac = Mac 0xaa 0xbb 0xcc 1 2 3
      in format_mac mac = ''aa:bb:cc:01:02:03'' \<and> parse_mac_colons ''aa:bb:cc:01:02:03'' = Some mac)"

definition test_parse_mac_colons_rejects_bad :: bool where
  "test_parse_mac_colons_rejects_bad =
     (parse_mac_colons ''aa:bb:cc:01:02'' = None \<and> parse_mac_colons ''aa:bb:cc:01:02:03:04'' = None \<and>
      parse_mac_colons ''zz:bb:cc:01:02:03'' = None \<and> parse_mac_colons ''aabbcc010203'' = None)"

lemma test_ips:
  "unwrap_ip ''192.168.1.1'' = Ipv4 192 168 1 1" "unwrap_ip ''192.168.1.100'' = Ipv4 192 168 1 100"
  "unwrap_ip ''192.168.1.255'' = Ipv4 192 168 1 255" "unwrap_ip ''224.0.0.251'' = Ipv4 224 0 0 251"
  "unwrap_ip ''127.0.0.1'' = Ipv4 127 0 0 1" "unwrap_ip ''10.0.0.255'' = Ipv4 10 0 0 255"
  by (simp_all add: unwrap_ip_def parse_ipv4_def parse_octet_def text_eval)

lemma arp_tests_pass:
  "test_sa_size_alignment" "test_format_mac_roundtrip" "test_parse_mac_colons_rejects_bad"
  by code_simp+

lemma test_is_unicast_target_filters_passes: "test_is_unicast_target_filters"
  unfolding test_is_unicast_target_filters_def test_ips by code_simp

text \<open>The lines of the test's table.\<close>

definition arp_header :: string where
  "arp_header = ''IP address       HW type     Flags       HW address            Mask     Device''"

definition arp_fixture :: "string list" where
  "arp_fixture =
     [''192.168.1.1      0x1         0x2         aa:bb:cc:dd:ee:01     *        eth0'',
      ''192.168.1.50     0x1         0x0         00:00:00:00:00:00     *        eth0'',
      ''127.0.0.1        0x1         0x2         de:ad:be:ef:00:01     *        lo'',
      ''192.168.1.100    0x1         0x2         11:22:33:44:55:66     *        eth0'']"

definition test_parse_proc_arp_complete_and_incomplete :: bool where
  "test_parse_proc_arp_complete_and_incomplete =
     (let fixture = concat (map (\<lambda>l. l @ [CHR 0x0A]) (arp_header # arp_fixture));
          entries = parse_proc_arp fixture
      in length entries = 2 \<and>
         (unwrap_ip ''192.168.1.1'', Mac 0xaa 0xbb 0xcc 0xdd 0xee 1) \<in> set entries \<and>
         (unwrap_ip ''192.168.1.100'', Mac 0x11 0x22 0x33 0x44 0x55 0x66) \<in> set entries)"

lemma arp_fixture_entries:
  "parse_proc_arp (concat (map (\<lambda>l. l @ [CHR 0x0A]) (arp_header # arp_fixture))) =
   [(Ipv4 192 168 1 1, Mac 0xaa 0xbb 0xcc 0xdd 0xee 1),
    (Ipv4 192 168 1 100, Mac 0x11 0x22 0x33 0x44 0x55 0x66)]"
proof -
  have "\<forall>l \<in> set (arp_header # arp_fixture). CHR 0x0A \<notin> set l \<and> (l = [] \<or> last l \<noteq> CHR 0x0D)"
    by (simp add: arp_header_def arp_fixture_def)
  then have lines: "lines (concat (map (\<lambda>l. l @ [CHR 0x0A]) (arp_header # arp_fixture))) = arp_header # arp_fixture"
    by (intro lines_concat) auto
  have words: "map split_ascii_whitespace arp_fixture =
      [[''192.168.1.1'', ''0x1'', ''0x2'', ''aa:bb:cc:dd:ee:01'', ''*'', ''eth0''],
       [''192.168.1.50'', ''0x1'', ''0x0'', ''00:00:00:00:00:00'', ''*'', ''eth0''],
       [''127.0.0.1'', ''0x1'', ''0x2'', ''de:ad:be:ef:00:01'', ''*'', ''lo''],
       [''192.168.1.100'', ''0x1'', ''0x2'', ''11:22:33:44:55:66'', ''*'', ''eth0'']]"
    by code_simp
  have ips: "parse_ipv4 ''192.168.1.1'' = Some (Ipv4 192 168 1 1)" "parse_ipv4 ''192.168.1.50'' = Some (Ipv4 192 168 1 50)"
    "parse_ipv4 ''127.0.0.1'' = Some (Ipv4 127 0 0 1)" "parse_ipv4 ''192.168.1.100'' = Some (Ipv4 192 168 1 100)"
    by (simp_all add: parse_ipv4_def parse_octet_def text_eval)
  have macs: "parse_mac_colons ''aa:bb:cc:dd:ee:01'' = Some (Mac 0xaa 0xbb 0xcc 0xdd 0xee 1)"
    "parse_mac_colons ''11:22:33:44:55:66'' = Some (Mac 0x11 0x22 0x33 0x44 0x55 0x66)"
    by (simp_all add: parse_mac_colons_def text_eval)
  have "map proc_arp_line arp_fixture =
      [Some (Ipv4 192 168 1 1, Mac 0xaa 0xbb 0xcc 0xdd 0xee 1), None, None,
       Some (Ipv4 192 168 1 100, Mac 0x11 0x22 0x33 0x44 0x55 0x66)]"
    using words by (simp add: arp_fixture_def proc_arp_line_def ips macs is_loopback_def zero_mac_def text_eval)
  then show ?thesis
    unfolding parse_proc_arp_def lines by (simp add: List.map_filter_def arp_fixture_def)
qed

lemma test_parse_proc_arp_passes: "test_parse_proc_arp_complete_and_incomplete"
  unfolding test_parse_proc_arp_complete_and_incomplete_def Let_def arp_fixture_entries test_ips by simp

section \<open>The TCP scan\<close>

definition test_build_match_empty_response :: bool where
  "test_build_match_empty_response =
     (let m = build_match (SockAddr (IpV4 (Ipv4 127 0 0 1)) 8080) [] None
      in address m = ''127.0.0.1:8080'' \<and> transport m = Tcp \<and> response m = None \<and> info m = Map.empty)"

definition test_build_match_with_response_and_hostname :: bool where
  "test_build_match_with_response_and_hostname =
     (let m = build_match (SockAddr (IpV4 (Ipv4 192 168 1 100)) 80) (map of_char ''hello'') (Some ''my-device'')
      in address m = ''192.168.1.100:80'' \<and> response m = Some (map of_char ''hello'') \<and>
         info m ''hostname'' = Some ''my-device'')"

lemma build_match_tests_pass:
  "test_build_match_empty_response" "test_build_match_with_response_and_hostname"
proof -
  have "show_sock (SockAddr (IpV4 (Ipv4 127 0 0 1)) 8080) = ''127.0.0.1:8080''"
    "show_sock (SockAddr (IpV4 (Ipv4 192 168 1 100)) 80) = ''192.168.1.100:80''"
    by (simp_all add: show_dec_small digit_char_def char_of_def bit_iff_odd)
  then show "test_build_match_empty_response" "test_build_match_with_response_and_hostname"
    by (simp_all add: test_build_match_empty_response_def test_build_match_with_response_and_hostname_def
        build_match_def Let_def del: show_sock.simps)
qed

text \<open>Whether a call panics or fails; the \<open>ipnet\<close> crate and the interfaces are arguments.\<close>

definition succeeds :: "('e + 'a) outcome \<Rightarrow> bool" where
  "succeeds r = (case r of Returns (Inr _) \<Rightarrow> True | _ \<Rightarrow> False)"

definition fails :: "('e + 'a) outcome \<Rightarrow> bool" where
  "fails r = (case r of Returns (Inl _) \<Rightarrow> True | _ \<Rightarrow> False)"

definition test_local_subnets_default_never_panics :: "'net ipnet_api \<Rightarrow> iface list option \<Rightarrow> bool" where
  "test_local_subnets_default_never_panics api entries = succeeds (local_subnets api entries 24)"

definition test_local_subnets_rejects_out_of_range :: "'net ipnet_api \<Rightarrow> iface list option \<Rightarrow> bool" where
  "test_local_subnets_rejects_out_of_range api entries =
     (fails (local_subnets api entries 15) \<and> fails (local_subnets api entries 33) \<and>
      fails (local_subnets api entries 0))"

definition test_local_subnets_accepts_full_range :: "'net ipnet_api \<Rightarrow> iface list option \<Rightarrow> bool" where
  "test_local_subnets_accepts_full_range api entries =
     list_all (\<lambda>p. succeeds (local_subnets api entries (word_of_nat p))) [16..<33]"

lemma local_subnets_tests_pass:
  assumes "ipnet_laws api"
  shows "test_local_subnets_default_never_panics api entries" "test_local_subnets_rejects_out_of_range api entries"
    "test_local_subnets_accepts_full_range api entries"
proof -
  have ok: "succeeds (local_subnets api entries p)" if "16 \<le> p" "p \<le> 32" for p
    by (rule local_subnets_nets [where ifaces = entries, OF assms that]) (simp add: succeeds_def)
  show "test_local_subnets_default_never_panics api entries"
    by (simp add: test_local_subnets_default_never_panics_def ok)
  show "test_local_subnets_rejects_out_of_range api entries"
    by (simp add: test_local_subnets_rejects_out_of_range_def fails_def local_subnets_def)
  have "succeeds (local_subnets api entries (word_of_nat p))" if "p \<in> set [16..<33]" for p
    using that by (intro ok) (auto simp: word_le_nat_alt unsigned_of_nat take_bit_eq_mod)
  then show "test_local_subnets_accepts_full_range api entries"
    by (simp only: test_local_subnets_accepts_full_range_def list_all_iff) blast
qed

definition test_priority_last_octets_reasonable :: bool where
  "test_priority_last_octets_reasonable = list_all (\<lambda>octet. octet \<noteq> 255 \<and> octet \<noteq> 0) priority_last_octets"

lemma test_priority_last_octets_passes: "test_priority_last_octets_reasonable"
  by (simp add: test_priority_last_octets_reasonable_def priority_last_octets_def)

end
