(* ===== verification/Spec2Isabelle.thy ===== *)
theory Spec2Isabelle
  imports Match_Repr Usb Serial_Finds Serial_Stream Tcp_Stream Task_Pool Runtime Crate_Tests
begin

text \<open>
  \<^bold>\<open>A verification library for dafydd\<close>

  dafydd discovers devices on serial ports, on USB and on TCP/IP networks for Python callers.  The
  crate has one component per transport (\<open>src/serial\<close>, \<open>src/usb\<close>, \<open>src/tcp\<close>), the network helpers
  of the TCP scan (\<open>src/net\<close>), the types they share (\<open>src/types.rs\<close>, \<open>src/error.rs\<close>), the polling
  watcher and the streaming helper (\<open>src/watch.rs\<close>, \<open>src/streaming.rs\<close>) and the asynchronous
  runtime (\<open>src/runtime.rs\<close>).  A discovery object is configured once; its methods \<open>discover\<close>,
  \<open>discover_async\<close>, \<open>discover_streaming\<close> and \<open>watch\<close> probe the devices and answer with matches, an
  exception, or callbacks.

  \<^bold>\<open>Method.\<close>  The functions of the crate are HOL functions with the same branches in the same order.
  What the program reads from outside is an argument: the behaviour of a peer is a script of timed
  reads, a socket or a port is a record of what each call on it does, the cancellation token is
  the sequence of values read from it, the completion order of tasks and the iteration order of
  hash sets are lists of choices (\<open>pick_order\<close>, which yields every permutation).  Results of
  fallible code are sums, panics are \<open>Panics\<close>, and code that never returns is \<open>None\<close>.  Integers
  that wrap are words, lengths and durations are natural numbers; durations count milliseconds.

  \<^bold>\<open>Theories, from the bottom.\<close>

  \<^item> \<open>Prelude\<close>, \<open>Rust_Std\<close>: types, first-occurrence filters, arbitrary orders, and the functions of
    Rust's standard library the sources use on strings, numbers and windows.
  \<^item> \<open>Device_Match\<close> (\<open>types.rs\<close>, \<open>error.rs\<close>): errors and the exceptions they become, cancellation
    tokens, matches with their getters and \<open>bus_params\<close>.  \<open>Match_Repr\<close>: the \<open>repr\<close> of a match with
    the Debug formats of the standard library, each an interpretation of the locale \<open>printer\<close> (its
    text can be told from what follows), so that the whole text determines the match.
  \<^item> \<open>Net_Addr\<close>, \<open>Ip_Net\<close>: addresses with their text form, and the interface to the \<open>ipnet\<close> crate:
    a record of its functions, laws that state its documented behaviour (\<open>ipnet_laws\<close>), and an
    implementation for IPv4 that satisfies them.
  \<^item> \<open>Checksum\<close>, \<open>Icmp\<close>, \<open>Syn_Scan\<close>, \<open>Arp\<close>, \<open>Multicast\<close> (\<open>net/*.rs\<close>): the Internet checksum (its
    contract a locale that both implementations interpret), the echo sweep, the SYN scan, the
    readers of the neighbour tables of the three systems, the mDNS and SSDP queries.
  \<^item> \<open>Watch\<close> (\<open>watch.rs\<close>, \<open>streaming.rs\<close>): the difference of two polls and the polling loop.  The
    locale \<open>callback_feed\<close> states the contract of a watcher, that its callbacks form a consistent
    history of what it holds; the polling watcher and the USB watcher interpret it.
  \<^item> \<open>Usb\<close> (\<open>usb/mod.rs\<close>): filters, matches, discovery and the hotplug watcher, as the sequential
    event loop and as a step relation of its two threads with the channel between them.
  \<^item> \<open>Batch\<close>: what sweeps share, the locale \<open>endpoint_probe\<close> for probes whose matches name their
    endpoint, joining tasks, the channel to a streaming caller.
  \<^item> \<open>Stream_Pipe\<close>: the two threads of a streaming method as a step relation with the bounded channel;
    the locale \<open>streaming_method\<close> is the contract under which every interleaving is a run of the
    method's model.
  \<^item> \<open>Serial_Probe\<close>, \<open>Serial_Sweep\<close>, \<open>Serial_Discovery\<close> (\<open>serial/*.rs\<close>): port settings, probing at
    the baud rates with asynchronous and blocking reads, the sweep over the ports with its time
    budget, the preferred port, construction and the methods.  \<open>Serial_Finds\<close>: the composition of
    all of them, that a device on a selected port is found and that the watcher keeps it, and what a
    cancelled pass does to the watcher.  \<open>Serial_Stream\<close>: the streaming method as two threads, an
    interpretation of \<open>streaming_method\<close>.
  \<^item> \<open>Tcp_Probe\<close>, \<open>Tcp_Scan\<close> (\<open>tcp/scan.rs\<close>): connecting and probing an address; local subnets,
    priority addresses, batches, and the scan of several subnets with its ICMP and SYN stages.
  \<^item> \<open>Tcp_Sweep\<close>, \<open>Tcp_Results\<close>, \<open>Tcp_Details\<close>: the properties of the scan.  The locale
    \<open>sweep_invariant\<close> says that what token reads and batches keep, the sweep keeps;
    \<open>scan_invariant\<close> says it of a whole scan and gives the first (a \<open>sublocale\<close>).  They are interpreted
    for what is reported, which probes are made, cancellation, what the sweep adds to the tagged
    matches, and the channel.
  \<^item> \<open>Task_Pool\<close>: the tasks of one batch as a step relation with the semaphore, refined to the
    batch of \<open>Tcp_Scan\<close>.
  \<^item> \<open>Tcp_Discovery\<close>, \<open>Tcp_Outcome\<close>, \<open>Tcp_Methods\<close>, \<open>Tcp_Streaming\<close>, \<open>Tcp_Watch\<close> (\<open>tcp/mod.rs\<close>): the
    discovery object, its methods, and their properties, among them what each attempt at the preferred
    host and each announced host contributes.  \<open>Tcp_Finds\<close>: which addresses a sweep with raw sockets
    probes, and the composition of all parts, that a device on a swept network is found and that the
    watcher keeps it, and what a cancelled pass does to the watcher.  \<open>Tcp_Stream\<close>: the streaming method
    as two threads, and that a device on a swept network reaches the callback.
  \<^item> \<open>Runtime\<close> (\<open>runtime.rs\<close>, \<open>lib.rs\<close>): the process-wide runtime and the import of the module.
  \<^item> \<open>Crate_Tests\<close>: the crate's unit tests on the model, each a definition that is proved to pass.

  \<^bold>\<open>What is shown.\<close>  Each component has its functional behaviour on every branch.  Across
  components: what a discovery reports is exactly what its probes found (serial sweep, TCP scan,
  TCP discovery); the scan covers every address; streaming and blocking discovery agree; watchers
  tell the truth about what they hold, in every interleaving of the USB watcher's threads;
  cancellation bounds what is still done; the automatic discovery cannot fail, and a discovery that
  nobody cancels finds every device that answers on the configured subnets or on the host's own
  networks, where the sweep gets to it: raw sockets narrow the sweep to the hosts whose echo replies,
  and with a SYN scan to the ports whose answers, are heard; the serial sweep finds every device that
  answers at a configured rate within its time budget; a device that stays within such reach is
  reported by the watchers once and not removed, except by a last pass that returns without it; the
  threads of the streaming methods end, and in every interleaving they deliver what the sequential
  model delivers, each device in reach among
  it; the \<open>repr\<close> of a match determines it.  Some theorems
  state behaviour that differs from what the code's comments promise: an answer on a connection
  kept open is dropped, a repeated first baud rate mislabels the match, the time budget of the
  serial sweep cuts late rates, mDNS and SSDP matches repeat, streaming without a probe command
  delivers nothing, the Windows reader keeps unreachable neighbours and drops permanent ones, and a SYN scan of more than 65536
  targets can find only the last 65536, since the source port that identifies a target wraps; and a
  token set during a pass of a watcher makes it report devices removed that are still there.

  \<^bold>\<open>Bounds.\<close>  No fuel is used: every loop is structural on the script of its environment or on the
  list it works through, or has a termination proof.  A batch without permits never returns, which
  is the value \<open>None\<close>; the theorems that a scan returns are stated separately.

  \<^bold>\<open>Not modelled.\<close>  The glue of the Python bindings (signatures, the GIL), log messages, the socket options that do not change what is sent or received (fast open, no
  delay), wall-clock time beyond the order and duration of events, and the kernel calls that
  produce the routing and neighbour tables, whose bytes are arguments.  The list of hosts of a
  network is finite but its length is not bounded by memory.  The step relation of the streaming
  threads takes what the discovery sends and its result as given, finite data, so that a discovery that
  hangs has no run there (the value \<open>None\<close> of the model stands for it); that of the USB watcher's
  threads starts after the first callbacks on the devices already present, and a token that was set is
  not set back during a run.
\<close>

end
